(* ===== verification/Py_Prelude.thy ===== *)
theory Py_Prelude
  imports Main "HOL-Library.Word"
begin

text \<open>
  What every component of the model shares: bytes as 8-bit words, the exceptions the
  code raises as a datatype, the effect type of a Python operation (state in, result or
  exception out, with the state as the operation left it even when it raised), Python
  slices with negative indices, the big-endian integers of \<^verbatim>\<open>struct\<close>, UTF-8 validity, and
  the generic lemmas about them.
\<close>

unbundle bit_operations_syntax

named_theorems py_monad \<open>definitions of the effect combinators\<close>
named_theorems wire_simps \<open>equations that evaluate the wire-format encoders\<close>

section \<open>Bytes, strings, exceptions\<close>

type_synonym byte = "8 word"
type_synonym bytes = "byte list"

text \<open>
  A Python \<^verbatim>\<open>str\<close> is represented by its UTF-8 encoding, so \<^verbatim>\<open>encode\<close> is the
  identity and \<^verbatim>\<open>decode\<close> is the validity check \<open>utf8_decode\<close> below. Every string the
  modelled code compares with or splits at is ASCII, so comparison, \<^verbatim>\<open>startswith\<close> and
  \<^verbatim>\<open>split\<close> mean the same on the encoding.
\<close>

type_synonym pystr = bytes

definition lit :: "string \<Rightarrow> pystr" where
  "lit s = map of_char s"

datatype py_error =
    StructError
  | UnicodeDecodeError
  | IndexError
  | KeyError
  | ValueError
  | TypeError
  | OverflowError
  | AssertionError
  | EOFError
  | SocketTimeout
  | SocketError string
  | PipeTimeout
  | NeedRekeyException
  | ProxyCommandFailure
  | BERException
  | SSHException string
  | IncompatiblePeer string
  | MessageOrderError string
  | ChannelException int
  | AuthenticationException string
  | BadAuthenticationType "pystr list"
  | PartialAuthentication "pystr list"
  | OtherException

section \<open>Effects: a state, and a result or an exception\<close>

type_synonym ('s, 'a) py = "'s \<Rightarrow> (py_error + 'a) \<times> 's"

definition pret :: "'a \<Rightarrow> ('s, 'a) py" where
  [py_monad]: "pret x s = (Inr x, s)"

definition praise :: "py_error \<Rightarrow> ('s, 'a) py" where
  [py_monad]: "praise e s = (Inl e, s)"

definition pbind :: "('s, 'a) py \<Rightarrow> ('a \<Rightarrow> ('s, 'b) py) \<Rightarrow> ('s, 'b) py" where
  [py_monad]: "pbind m f s = (case m s of (Inl e, s') \<Rightarrow> (Inl e, s') | (Inr x, s') \<Rightarrow> f x s')"

definition plift :: "py_error + 'a \<Rightarrow> ('s, 'a) py" where
  [py_monad]: "plift r s = (r, s)"

definition pmodify :: "('s \<Rightarrow> 's) \<Rightarrow> ('s, unit) py" where
  [py_monad]: "pmodify f s = (Inr (), f s)"

definition pget :: "('s \<Rightarrow> 'a) \<Rightarrow> ('s, 'a) py" where
  [py_monad]: "pget f s = (Inr (f s), s)"

lemma pbind_Inr: "m s = (Inr x, s') \<Longrightarrow> pbind m f s = f x s'"
  by (simp add: pbind_def)

lemma pbind_Inl: "m s = (Inl e, s') \<Longrightarrow> pbind m f s = (Inl e, s')"
  by (simp add: pbind_def)

lemma pbind_pret [simp]: "pbind (pret x) f = f x"
  by (rule ext) (simp add: pbind_def pret_def)

lemma pbind_assoc: "pbind (pbind m f) g = pbind m (\<lambda>x. pbind (f x) g)"
  by (rule ext) (simp add: pbind_def split: prod.splits sum.splits)

lemma pbind_eq_InrE:
  assumes "pbind m f s = (Inr y, s'')"
  obtains x s' where "m s = (Inr x, s')" and "f x s' = (Inr y, s'')"
  using assms by (auto simp: pbind_def split: prod.splits sum.splits)

text \<open>
  Operations that may wait for another thread or for the network: they return or raise, or
  the given inputs end while they still wait.
\<close>

datatype 'a blocking = Done "py_error + 'a" | Waiting

type_synonym ('s, 'a) bpy = "'s \<Rightarrow> 'a blocking \<times> 's"

definition bret :: "'a \<Rightarrow> ('s, 'a) bpy" where
  [py_monad]: "bret x s = (Done (Inr x), s)"

definition braise :: "py_error \<Rightarrow> ('s, 'a) bpy" where
  [py_monad]: "braise e s = (Done (Inl e), s)"

definition bbind :: "('s, 'a) bpy \<Rightarrow> ('a \<Rightarrow> ('s, 'b) bpy) \<Rightarrow> ('s, 'b) bpy" where
  [py_monad]: "bbind m f s = (case m s of
     (Waiting, s') \<Rightarrow> (Waiting, s')
   | (Done (Inl e), s') \<Rightarrow> (Done (Inl e), s')
   | (Done (Inr x), s') \<Rightarrow> f x s')"

definition blift :: "py_error + 'a \<Rightarrow> ('s, 'a) bpy" where
  [py_monad]: "blift r s = (Done r, s)"

definition bmodify :: "('s \<Rightarrow> 's) \<Rightarrow> ('s, unit) bpy" where
  [py_monad]: "bmodify f s = (Done (Inr ()), f s)"

definition bget :: "('s \<Rightarrow> 'a) \<Rightarrow> ('s, 'a) bpy" where
  [py_monad]: "bget f s = (Done (Inr (f s)), s)"

lemma bbind_Done_Inr: "m s = (Done (Inr x), s') \<Longrightarrow> bbind m f s = f x s'"
  by (simp add: bbind_def)

lemma bbind_Done_Inl: "m s = (Done (Inl e), s') \<Longrightarrow> bbind m f s = (Done (Inl e), s')"
  by (simp add: bbind_def)

lemma bbind_simps [simp]:
  "bbind (bret x) f = f x"
  "bbind (blift (Inr x)) f = f x"
  "bbind (bget g) f s = f (g s) s"
  "bbind (bmodify h) f' s = f' () (h s)"
  "bbind (braise e) f s = (Done (Inl e), s)"
  "bbind (blift (Inl e)) f s = (Done (Inl e), s)"
  by (simp_all add: fun_eq_iff py_monad)

lemma bbind_eq_InrE:
  assumes "bbind m f s = (Done (Inr y), s'')"
  obtains x s' where "m s = (Done (Inr x), s')" and "f x s' = (Done (Inr y), s'')"
  using assms by (auto simp: bbind_def split: prod.splits sum.splits blocking.splits)

text \<open>Errors alone, for operations that touch no state.\<close>

definition rbind :: "py_error + 'a \<Rightarrow> ('a \<Rightarrow> py_error + 'b) \<Rightarrow> py_error + 'b" where
  [py_monad]: "rbind r f = (case r of Inl e \<Rightarrow> Inl e | Inr x \<Rightarrow> f x)"

lemma rbind_simps [simp]: "rbind (Inl e) f = Inl e" "rbind (Inr x) f = f x"
  by (simp_all add: rbind_def)

lemma blift_rbind [simp]: "bbind (blift (rbind r g)) f = bbind (blift r) (\<lambda>x. bbind (blift (g x)) f)"
  by (cases r) (simp_all add: fun_eq_iff)

section \<open>Python slices\<close>

text \<open>The bound \<open>i\<close> of a slice of a sequence of \<open>n\<close> elements, as Python normalises it.\<close>

definition py_bound :: "nat \<Rightarrow> int \<Rightarrow> nat" where
  "py_bound n i = nat (if i < 0 then max 0 (int n + i) else min i (int n))"

definition slice_to :: "int \<Rightarrow> 'a list \<Rightarrow> 'a list" where
  "slice_to j xs = take (py_bound (length xs) j) xs"

definition slice_from :: "int \<Rightarrow> 'a list \<Rightarrow> 'a list" where
  "slice_from i xs = drop (py_bound (length xs) i) xs"

definition slice :: "int \<Rightarrow> int \<Rightarrow> 'a list \<Rightarrow> 'a list" where
  "slice i j xs =
     (let a = py_bound (length xs) i; b = py_bound (length xs) j in take (b - a) (drop a xs))"

lemma slice_to_nonneg [simp]: "0 \<le> j \<Longrightarrow> slice_to j xs = take (nat j) xs"
  by (cases "nat j \<le> length xs") (auto simp: slice_to_def py_bound_def min_def)

lemma slice_from_nonneg [simp]: "0 \<le> i \<Longrightarrow> slice_from i xs = drop (nat i) xs"
  by (cases "nat i \<le> length xs") (auto simp: slice_from_def py_bound_def min_def)

lemma slice_nonneg: "0 \<le> i \<Longrightarrow> i \<le> j \<Longrightarrow> slice i j xs = take (nat j - nat i) (drop (nat i) xs)"
  by (auto simp: slice_def py_bound_def Let_def min_def nat_le_iff)

lemma slice_Nil [simp]: "slice_to i [] = []" "slice_from i [] = []" "slice i j [] = []"
  by (simp_all add: slice_to_def slice_from_def slice_def)

lemma slice_to_from: "slice_to i xs @ slice_from i xs = xs"
  by (simp add: slice_to_def slice_from_def)

section \<open>Big-endian integers\<close>

text \<open>\<open>be_enc k n\<close> is \<^verbatim>\<open>struct.pack\<close> of \<open>n mod 256 ^ k\<close> in \<open>k\<close> bytes;
  \<open>be_dec\<close> is \<^verbatim>\<open>struct.unpack\<close> and \<^verbatim>\<open>int.from_bytes(_, "big")\<close>.\<close>

primrec be_enc :: "nat \<Rightarrow> int \<Rightarrow> bytes" where
  "be_enc 0 n = []"
| "be_enc (Suc k) n = be_enc k (n div 256) @ [word_of_int n]"

definition be_dec :: "bytes \<Rightarrow> int" where
  "be_dec bs = foldl (\<lambda>acc b. acc * 256 + uint b) 0 bs"

lemma length_be_enc [simp]: "length (be_enc k n) = k"
  by (induction k arbitrary: n) auto

lemma foldl_be: "foldl (\<lambda>acc b. acc * 256 + uint (b::byte)) a bs = a * 256 ^ length bs + be_dec bs"
proof (induction bs arbitrary: a)
  case Nil
  show ?case by (simp add: be_dec_def)
next
  case (Cons b bs)
  have "be_dec (b # bs) = uint b * 256 ^ length bs + be_dec bs"
    using Cons.IH [of "uint b"] by (simp add: be_dec_def)
  then show ?case
    using Cons.IH [of "a * 256 + uint b"] by (simp add: algebra_simps)
qed

lemma be_dec_Nil [simp]: "be_dec [] = 0"
  by (simp add: be_dec_def)

lemma be_dec_Cons: "be_dec (b # bs) = uint b * 256 ^ length bs + be_dec bs"
  using foldl_be [of "uint b" bs] by (simp add: be_dec_def)

lemma be_dec_append: "be_dec (xs @ ys) = be_dec xs * 256 ^ length ys + be_dec ys"
  using foldl_be [of "be_dec xs" ys] by (simp add: be_dec_def)

lemma uint_byte_bounds: "0 \<le> uint (b::byte)" "uint (b::byte) < 256"
  using uint_lt2p [of b] by simp_all

lemma uint_numeral_FF: "uint (0xFF::byte) = 255"
  by simp

lemma be_dec_bounds: "0 \<le> be_dec bs" "be_dec bs < 256 ^ length bs"
proof -
  have "0 \<le> be_dec bs \<and> be_dec bs < 256 ^ length bs"
  proof (induction bs)
    case Nil
    show ?case by simp
  next
    case (Cons b bs)
    have "uint b * 256 ^ length bs \<le> 255 * (256::int) ^ length bs"
      by (rule mult_right_mono) (use uint_byte_bounds [of b] in auto)
    moreover have "0 \<le> uint b * (256::int) ^ length bs" by simp
    ultimately have "uint b * 256 ^ length bs + be_dec bs < 256 * 256 ^ length bs"
      using Cons.IH by linarith
    with \<open>0 \<le> uint b * 256 ^ length bs\<close> show ?case
      using Cons.IH by (simp add: be_dec_Cons)
  qed
  then show "0 \<le> be_dec bs" "be_dec bs < 256 ^ length bs" by auto
qed

lemma be_dec_be_enc: "be_dec (be_enc k n) = n mod 256 ^ k"
proof (induction k arbitrary: n)
  case 0
  show ?case by simp
next
  case (Suc k)
  have u: "uint (word_of_int n :: byte) = n mod 256"
    by (simp add: uint_word_of_int)
  have "be_dec (be_enc (Suc k) n) = (n div 256 mod 256 ^ k) * 256 + n mod 256"
    by (simp add: be_dec_append be_dec_Cons Suc.IH u)
  also have "\<dots> = n mod (256 * 256 ^ k)"
    using zmod_zmult2_eq [of "256 ^ k" n 256] by simp
  finally show ?case by simp
qed

lemma be_dec_be_enc_id [simp]: "0 \<le> n \<Longrightarrow> n < 256 ^ k \<Longrightarrow> be_dec (be_enc k n) = n"
  by (simp add: be_dec_be_enc)

lemma be_dec_inj: "length xs = length ys \<Longrightarrow> be_dec xs = be_dec ys \<Longrightarrow> xs = ys"
proof (induction xs ys rule: list_induct2)
  case Nil
  show ?case by simp
next
  case (Cons x xs y ys)
  let ?p = "(256::int) ^ length ys"
  have bx: "0 \<le> be_dec xs" "be_dec xs < ?p" and by': "0 \<le> be_dec ys" "be_dec ys < ?p"
    using be_dec_bounds [of xs] be_dec_bounds [of ys] Cons.hyps by simp_all
  have eq: "uint x * ?p + be_dec xs = uint y * ?p + be_dec ys"
    using Cons.prems Cons.hyps by (simp add: be_dec_Cons)
  have "uint x = (uint x * ?p + be_dec xs) div ?p"
    using bx by simp
  also have "\<dots> = uint y"
    unfolding eq using by' by simp
  finally have "uint x = uint y" .
  moreover from this eq have "be_dec xs = be_dec ys" by simp
  ultimately show ?case using Cons.IH by (simp add: word_uint_eq_iff)
qed

lemma be_enc_be_dec [simp]: "be_enc (length bs) (be_dec bs) = bs"
  by (rule be_dec_inj) (simp_all add: be_dec_bounds)

lemma be_enc_inj:
  "0 \<le> m \<Longrightarrow> m < 256 ^ k \<Longrightarrow> 0 \<le> n \<Longrightarrow> n < 256 ^ k \<Longrightarrow> be_enc k m = be_enc k n \<Longrightarrow> m = n"
  by (metis be_dec_be_enc_id)

definition struct_pack :: "nat \<Rightarrow> int \<Rightarrow> py_error + bytes" where
  "struct_pack k n = (if 0 \<le> n \<and> n < 256 ^ k then Inr (be_enc k n) else Inl StructError)"

definition struct_unpack :: "nat \<Rightarrow> bytes \<Rightarrow> py_error + int" where
  "struct_unpack k bs = (if length bs = k then Inr (be_dec bs) else Inl StructError)"

lemma struct_unpack_pack: "struct_pack k n = Inr bs \<Longrightarrow> struct_unpack k bs = Inr n"
  by (auto simp: struct_pack_def struct_unpack_def split: if_splits)

section \<open>UTF-8\<close>

definition utf8_cont :: "byte \<Rightarrow> bool" where
  "utf8_cont b \<longleftrightarrow> 0x80 \<le> b \<and> b \<le> 0xBF"

text \<open>The strict decoder of Python accepts no overlong form, no surrogate and nothing
  above U+10FFFF.\<close>

fun utf8_valid :: "bytes \<Rightarrow> bool" where
  "utf8_valid [] = True"
| "utf8_valid (b # r) =
     (if b < 0x80 then utf8_valid r
      else if 0xC2 \<le> b \<and> b \<le> 0xDF then
        (case r of b1 # r' \<Rightarrow> utf8_cont b1 \<and> utf8_valid r' | _ \<Rightarrow> False)
      else if 0xE0 \<le> b \<and> b \<le> 0xEF then
        (case r of b1 # b2 # r' \<Rightarrow>
           utf8_cont b1 \<and> utf8_cont b2 \<and> (b = 0xE0 \<longrightarrow> 0xA0 \<le> b1) \<and> (b = 0xED \<longrightarrow> b1 \<le> 0x9F)
           \<and> utf8_valid r'
         | _ \<Rightarrow> False)
      else if 0xF0 \<le> b \<and> b \<le> 0xF4 then
        (case r of b1 # b2 # b3 # r' \<Rightarrow>
           utf8_cont b1 \<and> utf8_cont b2 \<and> utf8_cont b3
           \<and> (b = 0xF0 \<longrightarrow> 0x90 \<le> b1) \<and> (b = 0xF4 \<longrightarrow> b1 \<le> 0x8F) \<and> utf8_valid r'
         | _ \<Rightarrow> False)
      else False)"

definition utf8_decode :: "bytes \<Rightarrow> py_error + pystr" where
  "utf8_decode bs = (if utf8_valid bs then Inr bs else Inl UnicodeDecodeError)"

lemma utf8_valid_ascii: "(\<And>b. b \<in> set bs \<Longrightarrow> b < 0x80) \<Longrightarrow> utf8_valid bs"
  by (induction bs) auto

section \<open>Lists\<close>

lemma take_length_append [simp]: "n = length xs \<Longrightarrow> take n (xs @ ys) = xs"
  by simp

lemma drop_length_append [simp]: "n = length xs \<Longrightarrow> drop n (xs @ ys) = ys"
  by simp

lemma drop_take_drop: "k \<le> n \<Longrightarrow> drop k (take n xs) @ drop n xs = drop k xs"
proof -
  assume "k \<le> n"
  moreover have "drop k xs = drop k (take n xs @ drop n xs)" by simp
  ultimately show ?thesis
    by (cases "k \<le> length xs") (simp_all only: drop_append, simp_all)
qed

end
