(* ===== verification/Py_Util.thy ===== *)
theory Py_Util
  imports Py_Prelude
begin

text \<open>
  The helpers of \<^verbatim>\<open>paramiko/util.py\<close> that the protocol code computes with: the
  two's-complement integers of the wire format (\<^verbatim>\<open>inflate_long\<close>, \<^verbatim>\<open>deflate_long\<close>), the
  MAC comparison, the extended Euclid loop, the key stretching loop, value clamping and
  log escaping. The main results: deflating and inflating are mutually inverse between
  the integers and the byte strings without redundant sign bytes, the constant-time
  comparison is equality, \<^verbatim>\<open>mod_inverse\<close> computes the inverse in range, and the key
  stretching loop returns exactly the bytes it was asked for.
\<close>

section \<open>Operations\<close>

subsection \<open>Integers of arbitrary size\<close>

text \<open>The loop of \<^verbatim>\<open>inflate_long\<close> over the 32-bit groups of a string whose length is a
  multiple of four.\<close>

fun inflate_words :: "int \<Rightarrow> bytes \<Rightarrow> int" where
  "inflate_words out (a # b # c # d # s) = inflate_words (push_bit 32 out + be_dec [a, b, c, d]) s"
| "inflate_words out _ = out"

definition inflate_long :: "bytes \<Rightarrow> bool \<Rightarrow> int" where
  "inflate_long s always_positive =
     (let negative = (\<not> always_positive \<and> length s > 0 \<and> hd s \<ge> 0x80);
          s = (if length s mod 4 \<noteq> 0
               then replicate (4 - length s mod 4) (if negative then 0xFF else 0) @ s else s);
          out = inflate_words 0 s
      in if negative then out - push_bit (8 * length s) 1 else out)"

lemma abs_drop_bit_32_less:
  fixes n :: int
  assumes "n \<noteq> 0 \<and> n \<noteq> -1"
  shows "\<bar>drop_bit 32 n\<bar> < \<bar>n\<bar>"
proof -
  define q r where "q = n div 4294967296" and "r = n mod 4294967296"
  have "n = 4294967296 * q + r" "0 \<le> r" "r < 4294967296"
    by (simp_all add: q_def r_def)
  with assms have "\<bar>q\<bar> < \<bar>n\<bar>" by linarith
  then show ?thesis by (simp add: q_def drop_bit_eq_div)
qed

text \<open>The first loop of \<^verbatim>\<open>deflate_long\<close>; it leaves \<open>n\<close> at 0 or -1.\<close>

function deflate_loop :: "int \<Rightarrow> bytes \<Rightarrow> int \<times> bytes" where
  "deflate_loop n s =
     (if n \<noteq> 0 \<and> n \<noteq> -1
      then deflate_loop (drop_bit 32 n) (be_enc 4 (n AND 0xFFFFFFFF) @ s) else (n, s))"
  by pat_completeness auto
termination
proof (relation "measure (\<lambda>(n, s). nat \<bar>n\<bar>)", simp)
  fix n :: int and s :: bytes
  assume "n \<noteq> 0 \<and> n \<noteq> -1"
  then have "\<bar>drop_bit 32 n\<bar> < \<bar>n\<bar>"
    by (rule abs_drop_bit_32_less)
  then show "((drop_bit 32 n, be_enc 4 (n AND 0xFFFFFFFF) @ s), n, s) \<in> measure (\<lambda>(n, s). nat \<bar>n\<bar>)"
    by simp
qed

declare deflate_loop.simps [simp del]

text \<open>The index at which the second loop (\<^verbatim>\<open>strip off leading zeros, FFs\<close>) breaks, if it
  breaks at all.\<close>

primrec strip_index :: "int \<Rightarrow> bytes \<Rightarrow> nat \<Rightarrow> nat option" where
  "strip_index n [] i = None"
| "strip_index n (c # s) i =
     (if n = 0 \<and> c \<noteq> 0 then Some i
      else if n = -1 \<and> c \<noteq> 0xFF then Some i
      else strip_index n s (Suc i))"

definition deflate_long :: "int \<Rightarrow> bool \<Rightarrow> bytes" where
  "deflate_long n0 add_sign_padding =
     (let (n, s) = deflate_loop n0 [];
          s = (case strip_index n s 0 of
                 Some i \<Rightarrow> drop i s
               | None \<Rightarrow> if n = 0 then [0] else [0xFF])
      in if add_sign_padding then
           (let s = (if n = 0 \<and> hd s \<ge> 0x80 then 0 # s else s)
            in if n = -1 \<and> hd s < 0x80 then 0xFF # s else s)
         else s)"

subsection \<open>Key stretching, modular inverse, comparison, clamping, escaping\<close>

text \<open>The loop of \<^verbatim>\<open>generate_key_bytes\<close>: \<open>h\<close> is the digest of the bytes fed to a new hash
  object. With a hash whose digest is empty the loop never ends, hence the option.\<close>

partial_function (option) gen_key_loop ::
  "(bytes \<Rightarrow> bytes) \<Rightarrow> bytes \<Rightarrow> bytes \<Rightarrow> int \<Rightarrow> bytes \<Rightarrow> bytes \<Rightarrow> bytes option" where
  "gen_key_loop h salt key nbytes digest keydata =
     (if nbytes > 0 then
        (let d = h ((if length digest > 0 then digest else []) @ key @ salt);
             size = min nbytes (int (length d))
         in gen_key_loop h salt key (nbytes - size) d (keydata @ take (nat size) d))
      else Some keydata)"

definition generate_key_bytes :: "(bytes \<Rightarrow> bytes) \<Rightarrow> bytes \<Rightarrow> bytes \<Rightarrow> int \<Rightarrow> bytes option" where
  "generate_key_bytes h salt key nbytes =
     gen_key_loop h (if length salt > 8 then take 8 salt else salt) key nbytes [] []"

function mod_inverse_loop :: "int \<Rightarrow> int \<Rightarrow> int \<Rightarrow> int \<Rightarrow> int" where
  "mod_inverse_loop u2 u3 v2 v3 =
     (if v3 > 0 then
        (let q = u3 div v3 in mod_inverse_loop v2 v3 (u2 - v2 * q) (u3 - v3 * q))
      else u2)"
  by pat_completeness auto
termination
  by (relation "measure (\<lambda>(u2, u3, v2, v3). nat v3)") (auto simp: minus_mult_div_eq_mod)

declare mod_inverse_loop.simps [simp del]

text \<open>The columns \<^verbatim>\<open>u1\<close>, \<^verbatim>\<open>v1\<close> of the source are never read, so they are left out.\<close>

definition mod_inverse :: "int \<Rightarrow> int \<Rightarrow> int" where
  "mod_inverse x m = (let u2 = mod_inverse_loop 0 m 1 x in if u2 < 0 then u2 + m else u2)"

definition constant_time_bytes_eq :: "bytes \<Rightarrow> bytes \<Rightarrow> bool" where
  "constant_time_bytes_eq a b =
     (if length a \<noteq> length b then False
      else foldl (\<lambda>res i. res OR ((a ! i) XOR (b ! i))) 0 [0..<length a] = 0)"

definition clamp_value :: "int \<Rightarrow> int \<Rightarrow> int \<Rightarrow> int" where
  "clamp_value minimum val maximum = max minimum (min val maximum)"

definition hex_digit :: "nat \<Rightarrow> byte" where
  "hex_digit d = (if d < 10 then of_nat (48 + d) else of_nat (55 + d))"

definition hex2 :: "byte \<Rightarrow> bytes" where
  "hex2 c = [hex_digit (unat c div 16), hex_digit (unat c mod 16)]"

definition safe_string :: "bytes \<Rightarrow> bytes" where
  "safe_string s = concat (map (\<lambda>c. if 32 \<le> c \<and> c \<le> 127 then [c] else 0x25 # hex2 c) s)"

section \<open>Deflating and inflating integers\<close>

subsection \<open>The value of a byte string\<close>

text \<open>The abstract meaning of a wire integer: the two's-complement value of the string.\<close>

definition twos_complement :: "bytes \<Rightarrow> int" where
  "twos_complement s = be_dec s - (if s \<noteq> [] \<and> hd s \<ge> 0x80 then 256 ^ length s else 0)"

lemma inflate_words_eq:
  "length s mod 4 = 0 \<Longrightarrow> inflate_words out s = out * 256 ^ length s + be_dec s"
proof (induction out s rule: inflate_words.induct)
  case (1 out a b c d s)
  then have "inflate_words out (a # b # c # d # s)
      = (push_bit 32 out + be_dec [a, b, c, d]) * 256 ^ length s + be_dec s"
    by (simp add: mod_Suc split: if_splits)
  moreover have "be_dec ([a, b, c, d] @ s) = be_dec [a, b, c, d] * 256 ^ length s + be_dec s"
    by (rule be_dec_append)
  ultimately show ?case
    by (simp add: push_bit_eq_mult algebra_simps)
qed (auto simp: mod_Suc)

lemma be_dec_replicate_0 [simp]: "be_dec (replicate k 0 @ s) = be_dec s"
  by (induction k) (simp_all add: be_dec_Cons)

lemma be_dec_replicate_FF:
  "be_dec (replicate k 0xFF @ s) = be_dec s + (256 ^ k - 1) * 256 ^ length s"
proof (induction k)
  case 0
  show ?case by simp
next
  case (Suc k)
  have u: "uint (0xFF::byte) = 255" by simp
  have "be_dec (replicate (Suc k) 0xFF @ s) = 255 * 256 ^ (k + length s) + be_dec (replicate k 0xFF @ s)"
    by (simp only: replicate.simps append.simps be_dec_Cons u length_append length_replicate)
  with Suc show ?case by (simp add: power_add algebra_simps)
qed

lemma inflate_words_pad:
  "inflate_words 0 (replicate (4 - length s mod 4) x @ s) = be_dec (replicate (4 - length s mod 4) x @ s)"
proof -
  have "length (replicate (4 - length s mod 4) x @ s) mod 4 = 0"
    by simp presburger
  from inflate_words_eq [OF this] show ?thesis by simp
qed

lemma inflate_long_positive: "inflate_long s True = be_dec s"
  by (simp add: inflate_long_def Let_def inflate_words_eq inflate_words_pad)

lemma inflate_long_signed: "inflate_long s False = twos_complement s"
proof (cases "length s > 0 \<and> hd s \<ge> 0x80")
  case False
  then show ?thesis
    by (auto simp: inflate_long_def twos_complement_def Let_def inflate_words_eq inflate_words_pad)
next
  case neg: True
  have pow: "push_bit (8 * k) (1::int) = 256 ^ k" for k
    by (simp add: push_bit_eq_mult power_mult)
  have "inflate_long s False = be_dec s - 256 ^ length s"
  proof (cases "length s mod 4 = 0")
    case True
    with neg show ?thesis
      by (simp add: inflate_long_def Let_def inflate_words_eq pow del: push_bit_of_1)
  next
    case False
    define k where "k = 4 - length s mod 4"
    have "inflate_long s False = be_dec (replicate k 0xFF @ s) - push_bit (8 * (k + length s)) 1"
      using neg False inflate_words_pad [of s "0xFF"] by (simp add: inflate_long_def Let_def k_def)
    then show ?thesis
      unfolding pow be_dec_replicate_FF by (simp add: power_add algebra_simps)
  qed
  with neg show ?thesis by (simp add: twos_complement_def)
qed


subsection \<open>Deflating\<close>

text \<open>The value that the pair of the sign \<open>n\<close> (0 or -1) and the digits \<open>s\<close> stands for; no
  step of \<^verbatim>\<open>deflate_long\<close> changes it.\<close>

definition signed_value :: "int \<Rightarrow> bytes \<Rightarrow> int" where
  "signed_value n s = n * 256 ^ length s + be_dec s"

lemma and_FFFFFFFF: "(n::int) AND 0xFFFFFFFF = n mod 256 ^ 4"
proof -
  have "n AND 0xFFFFFFFF = n AND mask 32" by (simp add: mask_eq_exp_minus_1)
  then show ?thesis by (simp add: take_bit_eq_mask [symmetric] take_bit_eq_mod)
qed

lemma deflate_loop_value:
  "deflate_loop n s = (n', s') \<Longrightarrow> signed_value n' s' = signed_value n s \<and> (n' = 0 \<or> n' = -1)"
proof (induction n s rule: deflate_loop.induct)
  case (1 n s)
  show ?case
  proof (cases "n \<noteq> 0 \<and> n \<noteq> -1")
    case False
    with 1 show ?thesis by (simp add: deflate_loop.simps [of n s])
  next
    case True
    let ?s = "be_enc 4 (n AND 0xFFFFFFFF) @ s"
    have "signed_value (drop_bit 32 n) ?s = signed_value n s"
    proof -
      have "be_dec ?s = (n mod 256 ^ 4) * 256 ^ length s + be_dec s"
        by (simp add: be_dec_append be_dec_be_enc and_FFFFFFFF)
      moreover have "drop_bit 32 n * 256 ^ 4 + n mod 256 ^ 4 = n"
        by (simp add: drop_bit_eq_div)
      moreover have "drop_bit 32 n * 256 ^ length ?s = drop_bit 32 n * 256 ^ 4 * 256 ^ length s"
        by (simp add: power_add)
      ultimately show ?thesis
        unfolding signed_value_def by (metis (no_types, opaque_lifting) add.assoc distrib_right)
    qed
    moreover have "deflate_loop (drop_bit 32 n) ?s = (n', s')"
      using True 1(2) by (simp add: deflate_loop.simps [of n s])
    ultimately show ?thesis using 1(1) [OF True] by simp
  qed
qed

lemma strip_index_None:
  "strip_index n s i = None \<Longrightarrow> n = 0 \<or> n = -1 \<Longrightarrow> s = replicate (length s) (if n = 0 then 0 else 0xFF)"
  by (induction s arbitrary: i) (auto split: if_splits)

lemma strip_index_Some:
  "strip_index n s i = Some j \<Longrightarrow> n = 0 \<or> n = -1 \<Longrightarrow>
   \<exists>k c t. j = i + k \<and> s = replicate k (if n = 0 then 0 else 0xFF) @ c # t
     \<and> c \<noteq> (if n = 0 then 0 else 0xFF)"
proof (induction s arbitrary: i)
  case Nil
  then show ?case by simp
next
  case (Cons c s)
  show ?case
  proof (cases "c = (if n = 0 then 0 else 0xFF)")
    case True
    with Cons.prems have "strip_index n s (Suc i) = Some j" by (auto split: if_splits)
    from Cons.IH [OF this Cons.prems(2)] obtain k d t where
      "j = Suc i + k" "s = replicate k (if n = 0 then 0 else 0xFF) @ d # t"
      "d \<noteq> (if n = 0 then 0 else 0xFF)" by blast
    with True show ?thesis
      by (intro exI [of _ "Suc k"] exI [of _ d] exI [of _ t]) simp
  next
    case False
    with Cons.prems have "j = i" by (auto split: if_splits)
    with False show ?thesis by (intro exI [of _ 0] exI [of _ c] exI [of _ s]) simp
  qed
qed

lemma signed_value_replicate:
  "n = 0 \<or> n = -1 \<Longrightarrow>
   signed_value n (replicate k (if n = 0 then 0 else 0xFF) @ s) = signed_value n s"
  by (auto simp: signed_value_def be_dec_replicate_FF power_add algebra_simps)

text \<open>What the first two loops leave: the sign of \<open>n0\<close> and its digits, of which the first
  is not a redundant sign byte unless it is the only one.\<close>

definition deflate_digits :: "int \<Rightarrow> int \<times> bytes" where
  "deflate_digits n0 =
     (let (n, s) = deflate_loop n0 [] in
      (n, case strip_index n s 0 of Some i \<Rightarrow> drop i s | None \<Rightarrow> if n = 0 then [0] else [0xFF]))"

lemma deflate_digits:
  assumes "deflate_digits n0 = (n, s)"
  shows "(n = 0 \<or> n = -1) \<and> signed_value n s = n0 \<and> s \<noteq> []
    \<and> (hd s = (if n = 0 then 0 else 0xFF) \<longrightarrow> length s = 1)"
proof -
  obtain m t where loop: "deflate_loop n0 [] = (m, t)" by force
  with assms have n: "n = m"
    and s: "s = (case strip_index n t 0 of Some i \<Rightarrow> drop i t | None \<Rightarrow> if n = 0 then [0] else [0xFF])"
    by (auto simp: deflate_digits_def)
  have val: "signed_value n t = n0" and sign: "n = 0 \<or> n = -1"
    using deflate_loop_value [OF loop] by (auto simp: n signed_value_def)
  show ?thesis
  proof (cases "strip_index n t 0")
    case None
    from strip_index_None [OF None sign] val have "n0 = n"
      using signed_value_replicate [OF sign, of "length t" "[]"] by (simp add: signed_value_def)
    with None sign show ?thesis by (auto simp: s signed_value_def be_dec_Cons)
  next
    case (Some j)
    from strip_index_Some [OF this sign] obtain c r where
      t: "t = replicate j (if n = 0 then 0 else 0xFF) @ c # r" and c: "c \<noteq> (if n = 0 then 0 else 0xFF)"
      by auto
    have s': "s = c # r" using Some t by (simp add: s)
    have "signed_value n (c # r) = n0"
      using val signed_value_replicate [OF sign, of j "c # r"] t by simp
    with s' c sign show ?thesis by simp
  qed
qed

lemma deflate_long_alt:
  "deflate_long n0 p =
     (let (n, s) = deflate_digits n0;
          t = (if n = 0 \<and> hd s \<ge> 0x80 then 0 # s else s)
      in if p then (if n = -1 \<and> hd t < 0x80 then 0xFF # t else t) else s)"
proof (cases "deflate_loop n0 []")
  case (Pair n s)
  then show ?thesis by (simp only: deflate_long_def deflate_digits_def Let_def prod.case)
qed

lemma deflate_long_digits:
  assumes "deflate_digits n0 = (n, s)"
  shows "deflate_long n0 False = s"
    and "deflate_long n0 True =
      (if n = 0 \<and> hd s \<ge> 0x80 then 0 # s else if n = -1 \<and> hd s < 0x80 then 0xFF # s else s)"
  using assms by (auto simp: deflate_long_alt Let_def)


text \<open>Every integer, of any sign and size, survives a round trip through the wire form.
\<close>

lemma inflate_deflate_long: "inflate_long (deflate_long n True) False = n"
proof -
  obtain m s where d: "deflate_digits n = (m, s)" by force
  have *: "m = 0 \<or> m = -1" "signed_value m s = n" "s \<noteq> []"
    using deflate_digits [OF d] by auto
  then show ?thesis
    by (auto simp: inflate_long_signed deflate_long_digits(2) [OF d] twos_complement_def
        signed_value_def be_dec_Cons not_le)
qed

lemma deflate_unsigned_value:
  assumes "0 \<le> n"
  shows "inflate_long (deflate_long n False) True = n"
proof -
  obtain m s where d: "deflate_digits n = (m, s)" by force
  note * = deflate_digits [OF d]
  have "m = 0"
  proof (rule ccontr)
    assume "m \<noteq> 0"
    with * have "be_dec s - 256 ^ length s = n" by (auto simp: signed_value_def)
    with assms be_dec_bounds(2) [of s] show False by simp
  qed
  with * show ?thesis
    by (simp add: inflate_long_positive deflate_long_digits(1) [OF d] signed_value_def)
qed

subsection \<open>The strings that deflating produces\<close>

text \<open>A wire integer is normal when no shorter string has the same value: it is not empty
  and its first byte is not a mere repetition of the sign bit of the second.\<close>

definition normal_long :: "bytes \<Rightarrow> bool" where
  "normal_long s \<longleftrightarrow> (case s of
     [] \<Rightarrow> False
   | [b] \<Rightarrow> True
   | b # c # t \<Rightarrow> \<not> (b = 0 \<and> c < 0x80) \<and> \<not> (b = 0xFF \<and> c \<ge> 0x80))"

lemma normal_long_Cons: "hd s \<noteq> 0 \<Longrightarrow> hd s \<noteq> 0xFF \<Longrightarrow> s \<noteq> [] \<Longrightarrow> normal_long s"
  by (auto simp: normal_long_def split: list.splits)

lemma deflate_long_normal: "normal_long (deflate_long n True)"
proof -
  obtain m s where d: "deflate_digits n = (m, s)" by force
  note * = deflate_digits [OF d]
  then obtain c t where s: "s = c # t" by (cases s) auto
  show ?thesis
    using * by (auto simp: deflate_long_digits(2) [OF d] s normal_long_def not_le split: list.splits)
qed


lemma and_128: "0 \<le> h \<Longrightarrow> h < 256 \<Longrightarrow> (h AND 128 = 0) = (h < (128 :: int))"
proof -
  assume h: "0 \<le> h" "h < 256"
  have "(h AND 128 = 0) = even (h div 128)"
    using and_exp_eq_0_iff_not_bit [of h 7] by (simp add: bit_iff_odd)
  moreover have "h div 128 = (if h < 128 then 0 else 1)" using h by auto
  ultimately show ?thesis by simp
qed

lemma byte_and_80: "((w :: byte) AND 0x80 = 0) = (uint w < 128)"
proof -
  have "(w AND 0x80 = 0) = (uint (w AND 0x80) = 0)" by (simp add: word_uint_eq_iff)
  also have "\<dots> = (uint w AND 128 = 0)" by (simp add: unsigned_and_eq)
  also have "\<dots> = (uint w < 128)" by (rule and_128) (simp_all add: uint_byte_bounds)
  finally show ?thesis .
qed

lemma byte_and_7F: "uint ((w :: byte) AND 0x7F) = uint w mod 128"
proof -
  have "w AND 0x7F = take_bit 7 w" by (simp add: take_bit_eq_mask mask_eq_exp_minus_1)
  then have "uint (w AND 0x7F) = uint (take_bit 7 w)" by simp
  also have "\<dots> = take_bit 7 (uint w)" by (rule unsigned_take_bit_eq)
  finally show ?thesis by (simp add: take_bit_eq_mod)
qed

lemma uint_ge_80: "(0x80 \<le> (b::byte)) = (128 \<le> uint b)"
  by (simp add: word_le_def)

lemma twos_complement_Cons:
  "twos_complement (b # s) = (if b \<ge> 0x80 then uint b - 256 else uint b) * 256 ^ length s + be_dec s"
  by (simp add: twos_complement_def be_dec_Cons algebra_simps)

lemma sign_byte_int:
  fixes x :: int
  assumes "0 \<le> x" "x < 256"
  shows "-128 \<le> (if 128 \<le> x then x - 256 else x)" "(if 128 \<le> x then x - 256 else x) \<le> 127"
    "(if 128 \<le> x then x - 256 else x) = 0 \<longleftrightarrow> x = 0" "(if 128 \<le> x then x - 256 else x) = -1 \<longleftrightarrow> x = 255"
  using assms by auto

lemma sign_byte_bounds:
  "-128 \<le> (if (b::byte) \<ge> 0x80 then uint b - 256 else uint b)"
  "(if (b::byte) \<ge> 0x80 then uint b - 256 else uint b) \<le> 127"
  unfolding uint_ge_80 by (rule sign_byte_int; rule uint_byte_bounds)+

lemma twos_complement_bounds:
  assumes "s \<noteq> []"
  shows "- (128 * 256 ^ (length s - 1)) \<le> twos_complement s" "twos_complement s < 128 * 256 ^ (length s - 1)"
proof -
  obtain b t where s: "s = b # t" using assms by (cases s) auto
  define u where "u = (if b \<ge> 0x80 then uint b - 256 else uint b)"
  have u: "-128 \<le> u" "u \<le> 127"
    unfolding u_def by (rule sign_byte_bounds)+
  define p where "p = (256::int) ^ length t"
  have "(-128) * p \<le> u * p" "u * p \<le> 127 * p"
    by (rule mult_right_mono; use u in \<open>simp add: p_def\<close>)+
  moreover have "0 \<le> be_dec t" "be_dec t < p" using be_dec_bounds [of t] by (simp_all add: p_def)
  moreover have "twos_complement s = u * p + be_dec t" "length s - 1 = length t"
    by (simp_all add: s twos_complement_Cons u_def p_def)
  ultimately show "- (128 * 256 ^ (length s - 1)) \<le> twos_complement s"
    "twos_complement s < 128 * 256 ^ (length s - 1)"
    unfolding p_def [symmetric] by (simp_all only: p_def [symmetric])
qed

lemma normal_long_big:
  assumes "normal_long s" "1 < length s"
  shows "128 * 256 ^ (length s - 2) \<le> twos_complement s \<or> twos_complement s < - (128 * 256 ^ (length s - 2))"
proof -
  obtain b c t where s: "s = b # c # t"
    using assms(2) by (cases s; cases "tl s") auto
  define u where "u = (if b \<ge> 0x80 then uint b - 256 else uint b)"
  define p where "p = (256::int) ^ length t"
  have tc: "twos_complement s = (u * 256 + uint c) * p + be_dec t"
    by (simp add: s twos_complement_Cons be_dec_Cons u_def p_def algebra_simps)
  have ub: "-128 \<le> u" "u \<le> 127" "0 \<le> uint c" "uint c < 256"
    unfolding u_def using uint_byte_bounds [of c] by (simp_all only: sign_byte_bounds)
  have u0: "u = 0 \<longleftrightarrow> b = 0" and um1: "u = -1 \<longleftrightarrow> b = 0xFF"
    unfolding u_def uint_ge_80 word_uint_eq_iff
    using sign_byte_int(3,4) [OF uint_byte_bounds, of b] by simp_all
  have "(u = 0 \<longrightarrow> 128 \<le> uint c) \<and> (u = -1 \<longrightarrow> uint c < 128)"
    using assms(1) u0 um1 by (simp add: s normal_long_def uint_ge_80 not_le [symmetric])
  then have "128 \<le> u * 256 + uint c \<or> u * 256 + uint c \<le> -129"
    using ub by linarith
  moreover have "0 \<le> be_dec t" "be_dec t < p" using be_dec_bounds [of t] by (simp_all add: p_def)
  moreover define x where "x = u * 256 + uint c"
  moreover have "128 \<le> x \<Longrightarrow> 128 * p \<le> x * p" "x \<le> -129 \<Longrightarrow> x * p \<le> -129 * p"
    by (rule mult_right_mono; simp add: p_def)+
  ultimately have "128 * p \<le> x * p + be_dec t \<or> x * p + be_dec t < - (128 * p)"
    by linarith
  with tc have "128 * p \<le> twos_complement s \<or> twos_complement s < - (128 * p)"
    by (simp add: x_def)
  then show ?thesis by (simp add: s p_def)
qed

lemma twos_complement_inj_length:
  assumes "length s = length t" "s \<noteq> []" "twos_complement s = twos_complement t"
  shows "s = t"
proof -
  let ?p = "(256::int) ^ length s"
  have m: "be_dec x = twos_complement x mod 256 ^ length x" for x
    using be_dec_bounds [of x] by (auto simp: twos_complement_def mod_diff_eq [symmetric] minus_mod_self2)
  have "be_dec s = be_dec t" using m [of s] m [of t] assms by simp
  with assms(1) show ?thesis by (rule be_dec_inj)
qed

lemma twos_complement_inj:
  assumes "normal_long s" "normal_long t" "twos_complement s = twos_complement t"
  shows "s = t"
proof -
  have less: False
    if n: "normal_long y" and e: "twos_complement x = twos_complement y"
      and l: "length x < length y" and x: "x \<noteq> []" for x y
  proof -
    have "128 * 256 ^ (length x - 1) \<le> (128::int) * 256 ^ (length y - 2)"
      using l x by (simp add: power_increasing)
    moreover have "1 < length y" using l x by (cases x) auto
    ultimately show False
      using normal_long_big [OF n] twos_complement_bounds [OF x] e by linarith
  qed
  have ne: "s \<noteq> []" "t \<noteq> []" using assms(1,2) by (auto simp: normal_long_def)
  have "length s = length t"
    using less [OF assms(2) assms(3) _ ne(1)] less [OF assms(1) assms(3) [symmetric] _ ne(2)]
    by (meson linorder_neqE_nat)
  then show ?thesis using ne(1) assms(3) by (rule twos_complement_inj_length)
qed

text \<open>Every normal wire integer survives the opposite round trip, so the encoding is a
  bijection between the integers and the normal byte strings.
\<close>

lemma deflate_inflate_long:
  assumes "normal_long s"
  shows "deflate_long (inflate_long s False) True = s"
  by (rule twos_complement_inj [OF deflate_long_normal assms])
    (simp add: inflate_long_signed [symmetric] inflate_deflate_long)


text \<open>C34: the wire form of integers is a bijection between the integers and the normal byte
  strings: every integer, of any sign and size, survives the round trip, its wire form is
  normal (no superfluous leading byte), and every normal string is the wire form of the
  integer it denotes.\<close>

theorem long_bijection:
  "inflate_long (deflate_long n True) False = n \<and> normal_long (deflate_long n True)
   \<and> (normal_long s \<longrightarrow> deflate_long (inflate_long s False) True = s)"
  using inflate_deflate_long deflate_long_normal deflate_inflate_long by blast

theorem long_bijection_witness:
  "deflate_long (inflate_long [0xFF, 0x7F] False) True = [0xFF, 0x7F]"
  using long_bijection [of 0 "[0xFF, 0x7F]"] by (simp add: normal_long_def)


section \<open>The other helpers\<close>

subsection \<open>Constant-time comparison\<close>

lemma or_xor_eq_0: "(x OR (y XOR z) = (0::byte)) = (x = 0 \<and> y = z)"
proof -
  have "(y XOR z = 0) = (y = z)" by (metis xor.assoc xor.right_neutral xor_self_eq)
  then show ?thesis by (simp add: or_eq_0_iff)
qed

lemma ct_fold_eq_0:
  "(foldl (\<lambda>res i. res OR ((a ! i) XOR (b ! i))) acc is = (0::byte))
     = (acc = 0 \<and> (\<forall>i \<in> set is. a ! i = b ! i))"
  by (induction "is" arbitrary: acc) (auto simp: or_xor_eq_0)

text \<open>The accumulating comparison of MACs decides equality, whatever the lengths.\<close>

lemma constant_time_bytes_eq_iff: "constant_time_bytes_eq a b \<longleftrightarrow> a = b"
proof (cases "length a = length b")
  case True
  have "constant_time_bytes_eq a b \<longleftrightarrow> (\<forall>i < length a. a ! i = b ! i)"
    unfolding constant_time_bytes_eq_def ct_fold_eq_0 using True by (simp add: Ball_def)
  with True show ?thesis by (simp add: list_eq_iff_nth_eq)
next
  case False
  then show ?thesis by (auto simp: constant_time_bytes_eq_def)
qed

subsection \<open>Modular inverse\<close>

text \<open>The invariant of the Euclid loop for \<open>0 \<le> x < m\<close>: the rows are combinations of \<open>m\<close>
  and \<open>x\<close>, and the coefficients alternate in sign (\<open>e\<close>) with a constant determinant.\<close>

definition euclid_inv :: "int \<Rightarrow> int \<Rightarrow> int \<Rightarrow> int \<Rightarrow> int \<Rightarrow> int \<Rightarrow> int \<Rightarrow> bool" where
  "euclid_inv e m x u2 u3 v2 v3 \<longleftrightarrow>
     (e = 1 \<or> e = -1) \<and> 0 \<le> v3 \<and> v3 < u3 \<and> gcd u3 v3 = gcd m x
     \<and> m dvd (u2 * x - u3) \<and> m dvd (v2 * x - v3)
     \<and> 0 \<le> e * v2 \<and> e * u2 \<le> 0 \<and> e * v2 * u3 - e * u2 * v3 = m \<and> - (e * u2) * u3 \<le> m"

lemma euclid_inv_step:
  assumes "euclid_inv e m x u2 u3 v2 v3" "0 < v3"
  shows "euclid_inv (- e) m x v2 v3 (u2 - v2 * (u3 div v3)) (u3 - v3 * (u3 div v3))"
proof -
  define q where "q = u3 div v3"
  have e: "e = 1 \<or> e = -1" and g: "gcd u3 v3 = gcd m x"
    and d: "m dvd (u2 * x - u3)" "m dvd (v2 * x - v3)"
    and s: "0 \<le> e * v2" "e * u2 \<le> 0" and det: "e * v2 * u3 - e * u2 * v3 = m" and v: "v3 < u3"
    using assms(1) by (auto simp: euclid_inv_def)
  have q: "0 \<le> q" using assms(2) v by (simp add: q_def pos_imp_zdiv_nonneg_iff)
  have r: "u3 - v3 * q = u3 mod v3" by (simp add: q_def minus_mult_div_eq_mod)
  have "0 \<le> u3 - v3 * q" "u3 - v3 * q < v3" using assms(2) by (simp_all add: r)
  moreover have "gcd v3 (u3 - v3 * q) = gcd m x"
    using g by (simp add: r gcd.commute gcd_red_int [symmetric])
  moreover have "m dvd ((u2 - v2 * q) * x - (u3 - v3 * q))"
  proof -
    have "(u2 - v2 * q) * x - (u3 - v3 * q) = (u2 * x - u3) - q * (v2 * x - v3)"
      by (simp add: algebra_simps)
    with d show ?thesis by (metis dvd_diff dvd_mult)
  qed
  moreover have "0 \<le> - e * (u2 - v2 * q)"
  proof -
    have "0 \<le> e * v2 * q" using s(1) q by simp
    with s(2) show ?thesis by (simp add: algebra_simps)
  qed
  moreover have "- e * (u2 - v2 * q) * v3 - - e * v2 * (u3 - v3 * q) = m"
    using det by (simp add: algebra_simps)
  moreover have "- (- e * v2) * v3 \<le> m"
  proof -
    have "0 \<le> - (e * u2) * v3" using s(2) assms(2) by (intro mult_nonneg_nonneg) auto
    moreover have "e * v2 * v3 \<le> e * v2 * u3" using s(1) v by (intro mult_left_mono) auto
    ultimately show ?thesis using det by simp
  qed
  ultimately show ?thesis
    unfolding euclid_inv_def q_def [symmetric] using e d s by auto
qed

lemma mod_inverse_loop_inv:
  "euclid_inv e m x u2 u3 v2 v3 \<Longrightarrow>
   \<exists>e' u3' v2'. euclid_inv e' m x (mod_inverse_loop u2 u3 v2 v3) u3' v2' 0"
proof (induction u2 u3 v2 v3 arbitrary: e rule: mod_inverse_loop.induct)
  case (1 u2 u3 v2 v3)
  show ?case
  proof (cases "v3 > 0")
    case True
    from "1.IH" [OF True refl euclid_inv_step [OF "1.prems" True]] show ?thesis
      using True by (simp add: mod_inverse_loop.simps [of u2 u3 v2 v3] Let_def)
  next
    case False
    with "1.prems" have "v3 = 0" by (simp add: euclid_inv_def)
    with "1.prems" have "euclid_inv e m x (mod_inverse_loop u2 u3 v2 v3) u3 v2 0"
      by (simp add: mod_inverse_loop.simps [of u2 u3 v2 0])
    then show ?thesis by blast
  qed
qed

text \<open>For \<open>0 \<le> x < m\<close> the result lies in \<open>[0, m)\<close> and is an inverse of \<open>x\<close> up to
  the greatest common divisor, hence the inverse when \<open>x\<close> and \<open>m\<close> are coprime.\<close>

theorem mod_inverse_correct:
  assumes "0 \<le> x" "x < m"
  shows "0 \<le> mod_inverse x m \<and> mod_inverse x m < m
    \<and> (x * mod_inverse x m) mod m = gcd x m mod m"
proof -
  have "euclid_inv 1 m x 0 m 1 x" using assms by (simp add: euclid_inv_def)
  from mod_inverse_loop_inv [OF this] obtain e g v2 where
    inv: "euclid_inv e m x (mod_inverse_loop 0 m 1 x) g v2 0" by blast
  define u where "u = mod_inverse_loop 0 m 1 x"
  have g: "0 < g" "g = gcd m x" and d: "m dvd (u * x - g)" and e: "e = 1 \<or> e = -1"
    and s: "e * u \<le> 0" and b: "- (e * u) * g \<le> m"
    using inv by (auto simp: euclid_inv_def u_def)
  have "- (e * u) * 1 \<le> - (e * u) * g" using s g(1) by (intro mult_left_mono) auto
  with b have ab: "\<bar>u\<bar> \<le> m" using e s by auto
  have ne: "\<bar>u\<bar> \<noteq> m"
  proof
    assume a: "\<bar>u\<bar> = m"
    then have "m dvd u * x" by (metis abs_dvd_iff dvd_mult2 dvd_refl)
    with d have "m dvd g" using dvd_diff [of m "u * x" "u * x - g"] by simp
    moreover have "g dvd m" by (simp add: g)
    ultimately have "g = m" using g(1) assms by (meson order_less_trans zdvd_antisym_nonneg less_imp_le order_le_less_trans)
    with g(2) have "m dvd x" by (metis gcd_dvd2)
    with assms have "x = 0" using zdvd_not_zless [of x m] by force
    then have "u = 0" by (simp add: u_def mod_inverse_loop.simps)
    with a assms show False by simp
  qed
  have rng: "0 \<le> mod_inverse x m" "mod_inverse x m < m"
    using ab ne by (auto simp: mod_inverse_def u_def [symmetric])
  have "m dvd x * mod_inverse x m - g"
  proof (cases "u < 0")
    case True
    have "x * (u + m) - g = (u * x - g) + m * x" by (simp add: algebra_simps)
    moreover have "m dvd (u * x - g) + m * x" using d by (rule dvd_add) simp
    ultimately show ?thesis using True by (simp only: mod_inverse_def u_def [symmetric] Let_def if_True)
  next
    case False
    with d show ?thesis by (simp add: mod_inverse_def u_def [symmetric] mult.commute)
  qed
  then have "(x * mod_inverse x m) mod m = g mod m" by (simp add: mod_eq_dvd_iff)
  with rng g(2) show ?thesis by (simp add: gcd.commute)
qed

theorem mod_inverse_correct_witness: "(7 * mod_inverse 7 40) mod 40 = 1"
proof -
  have "gcd 7 40 = (1 :: int)" by code_simp
  with mod_inverse_correct [of 7 40] show ?thesis by simp
qed


subsection \<open>Key stretching\<close>

lemma gen_key_loop_Some:
  assumes d: "\<And>x. length (h x) = d" and pos: "0 < d"
  shows "\<exists>k. gen_key_loop h salt key nbytes dg kd = Some (kd @ k) \<and> length k = nat nbytes"
proof (induction "nat nbytes" arbitrary: nbytes dg kd rule: less_induct)
  case less
  show ?case
  proof (cases "nbytes > 0")
    case False
    then show ?thesis by (simp add: gen_key_loop.simps [of h salt key nbytes])
  next
    case True
    define x where "x = h ((if length dg > 0 then dg else []) @ key @ salt)"
    define size where "size = min nbytes (int (length x))"
    have size: "0 < size" "size \<le> nbytes" "nat size \<le> length x"
      using True pos d by (auto simp: size_def x_def)
    then have "nat (nbytes - size) < nat nbytes" by simp
    from less [OF this] obtain k where
      k: "gen_key_loop h salt key (nbytes - size) x (kd @ take (nat size) x) = Some ((kd @ take (nat size) x) @ k)"
      "length k = nat (nbytes - size)" by blast
    have "gen_key_loop h salt key nbytes dg kd = Some (kd @ (take (nat size) x @ k))"
      using True k(1)
      by (subst gen_key_loop.simps)
        (simp only: Let_def x_def [symmetric] size_def [symmetric] if_True append_assoc)
    moreover have "length (take (nat size) x @ k) = nat nbytes"
      using size k(2) by simp
    ultimately show ?thesis by blast
  qed
qed

text \<open>With a hash of any fixed positive digest length the stretching loop ends and
  returns exactly \<open>nbytes\<close> bytes, for every salt and key.\<close>

theorem generate_key_bytes_length:
  assumes "\<And>x. length (h x) = d" "0 < d" "0 \<le> nbytes"
  shows "\<exists>k. generate_key_bytes h salt key nbytes = Some k \<and> int (length k) = nbytes"
proof -
  obtain k where "generate_key_bytes h salt key nbytes = Some k" "length k = nat nbytes"
    using gen_key_loop_Some [where h = h, OF assms(1,2)]
    unfolding generate_key_bytes_def by (metis self_append_conv2)
  with assms(3) show ?thesis by simp
qed

theorem generate_key_bytes_length_witness:
  "\<exists>k. generate_key_bytes (\<lambda>x. replicate 16 (foldr (+) x 1)) [1, 2] [3] 40 = Some k \<and> int (length k) = 40"
  using generate_key_bytes_length [of "\<lambda>x. replicate 16 (foldr (+) x 1)" 16 40 "[1, 2]" "[3]"] by simp

lemma gen_key_loop_empty_digest:
  assumes "\<And>x. h x = []" "0 < nbytes"
  shows "gen_key_loop h salt key nbytes dg kd = None"
proof (rule ccontr)
  assume "gen_key_loop h salt key nbytes dg kd \<noteq> None"
  then obtain r where r: "gen_key_loop h salt key nbytes dg kd = Some r" by blast
  have "\<not> (h = (\<lambda>x. []) \<and> 0 < nbytes)"
  proof (rule gen_key_loop.raw_induct
      [where P = "\<lambda>h salt key nbytes dg kd r. \<not> (h = (\<lambda>x. []) \<and> 0 < nbytes)", OF _ r])
  qed (auto simp: Let_def split: if_splits)
  with assms show False by auto
qed

subsection \<open>Clamping and escaping\<close>

lemma clamp_value_bounds:
  "lo \<le> hi \<Longrightarrow> lo \<le> clamp_value lo v hi \<and> clamp_value lo v hi \<le> hi"
  by (simp add: clamp_value_def)

lemma clamp_value_id: "lo \<le> v \<Longrightarrow> v \<le> hi \<Longrightarrow> clamp_value lo v hi = v"
  by (simp add: clamp_value_def)

lemma hex_digit_printable: "d < 16 \<Longrightarrow> 32 \<le> hex_digit d \<and> hex_digit d \<le> 127"
proof -
  assume "d < 16"
  moreover have "list_all (\<lambda>d. 32 \<le> hex_digit d \<and> hex_digit d \<le> 127) [0..<16]" by code_simp
  ultimately show ?thesis by (simp add: list_all_iff)
qed

lemma safe_string_printable: "c \<in> set (safe_string s) \<Longrightarrow> 32 \<le> c \<and> c \<le> 127"
proof -
  assume "c \<in> set (safe_string s)"
  then obtain b where "b \<in> set s"
    and "c \<in> set (if 32 \<le> b \<and> b \<le> 127 then [b] else 0x25 # hex2 b)"
    unfolding safe_string_def set_concat set_map by blast
  moreover have "unat b < 256" using unsigned_less [of b] by simp
  then have "unat b div 16 < 16" by simp
  ultimately show ?thesis
    using \<open>unat b div 16 < 16\<close> hex_digit_printable [of "unat b div 16"] hex_digit_printable [of "unat b mod 16"]
    by (auto simp: hex2_def split: if_splits)
qed

end
