(* ===== verification/Ssh_Message.thy ===== *)
theory Ssh_Message
  imports Py_Util
begin

text \<open>
  \<^verbatim>\<open>paramiko/message.py\<close>: the class \<^verbatim>\<open>Message\<close>, a \<^verbatim>\<open>BytesIO\<close> buffer with a position, its
  readers and its writers. A codec interface (\<open>wire_codec\<close>, \<open>wire_writer\<close>) states what
  a reader and a writer promise each other; it is interpreted on every reader/writer pair
  of the class, and gives prefix-freeness and the round trip of whole messages.
\<close>

section \<open>The buffer\<close>

record message =
  msg_packet :: bytes
  msg_position :: nat

text \<open>\<^verbatim>\<open>BytesIO.write\<close> overwrites from the position on, \<^verbatim>\<open>read\<close> with a negative count
  reads to the end. The position never passes the end of the buffer (\<open>msg_wf\<close> below), so
  the zero filling of \<^verbatim>\<open>BytesIO\<close> never happens.\<close>

definition bio_write :: "bytes \<Rightarrow> (message, unit) py" where
  "bio_write b m =
     (Inr (), m\<lparr>msg_packet := take (msg_position m) (msg_packet m) @ b @ drop (msg_position m + length b) (msg_packet m),
               msg_position := msg_position m + length b\<rparr>)"

definition bio_read :: "int \<Rightarrow> (message, bytes) py" where
  "bio_read n m =
     (let rest = drop (msg_position m) (msg_packet m);
          b = (if n < 0 then rest else take (nat n) rest)
      in (Inr b, m\<lparr>msg_position := msg_position m + length b\<rparr>))"

definition big_int :: int where "big_int = 0xFF000000"

definition Message_init :: "bytes option \<Rightarrow> message" where
  "Message_init content = (case content of
     Some c \<Rightarrow> \<lparr>msg_packet = c, msg_position = 0\<rparr>
   | None \<Rightarrow> \<lparr>msg_packet = [], msg_position = 0\<rparr>)"

definition msg_asbytes :: "message \<Rightarrow> bytes" where
  "msg_asbytes m = msg_packet m"

definition rewind :: "(message, unit) py" where
  "rewind = pmodify (\<lambda>m. m\<lparr>msg_position := 0\<rparr>)"

definition get_remainder :: "(message, bytes) py" where
  "get_remainder =
     pbind (pget msg_position) (\<lambda>pos.
     pbind (bio_read (-1)) (\<lambda>remainder.
     pbind (pmodify (\<lambda>m. m\<lparr>msg_position := pos\<rparr>)) (\<lambda>_.
     pret remainder)))"

definition get_so_far :: "(message, bytes) py" where
  "get_so_far =
     pbind (pget msg_position) (\<lambda>pos.
     pbind rewind (\<lambda>_.
     bio_read (int pos)))"

section \<open>Readers\<close>

definition get_bytes :: "int \<Rightarrow> (message, bytes) py" where
  "get_bytes n =
     pbind (bio_read n) (\<lambda>b.
     pret (if int (length b) < n \<and> n < 2 ^ 20 then b @ replicate (nat n - length b) 0 else b))"

definition get_byte :: "(message, bytes) py" where
  "get_byte = get_bytes 1"

definition get_boolean :: "(message, bool) py" where
  "get_boolean = pbind (get_bytes 1) (\<lambda>b. pret (b \<noteq> [0]))"

definition get_int :: "(message, int) py" where
  "get_int = pbind (get_bytes 4) (\<lambda>b. plift (struct_unpack 4 b))"

definition get_int64 :: "(message, int) py" where
  "get_int64 = pbind (get_bytes 8) (\<lambda>b. plift (struct_unpack 8 b))"

definition get_string :: "(message, bytes) py" where
  "get_string = pbind get_int get_bytes"

definition get_binary :: "(message, bytes) py" where
  "get_binary = pbind get_int get_bytes"

definition get_adaptive_int :: "(message, int) py" where
  "get_adaptive_int =
     pbind (get_bytes 1) (\<lambda>byte.
     if byte = [0xFF] then pbind get_binary (\<lambda>s. pret (inflate_long s False))
     else pbind (get_bytes 3) (\<lambda>rest. plift (struct_unpack 4 (byte @ rest))))"

definition get_mpint :: "(message, int) py" where
  "get_mpint = pbind get_binary (\<lambda>s. pret (inflate_long s False))"

definition get_text :: "(message, pystr) py" where
  "get_text = pbind get_string (\<lambda>s. plift (utf8_decode s))"

text \<open>\<^verbatim>\<open>str.split(",")\<close> and \<^verbatim>\<open>",".join\<close>.\<close>

fun split_on :: "byte \<Rightarrow> bytes \<Rightarrow> bytes list" where
  "split_on c [] = [[]]"
| "split_on c (b # s) =
     (if b = c then [] # split_on c s
      else case split_on c s of [] \<Rightarrow> [[b]] | w # ws \<Rightarrow> (b # w) # ws)"

fun join_with :: "bytes \<Rightarrow> bytes list \<Rightarrow> bytes" where
  "join_with sep [] = []"
| "join_with sep [w] = w"
| "join_with sep (w # ws) = w @ sep @ join_with sep ws"

definition comma :: byte where "comma = 0x2C"

definition get_list :: "(message, pystr list) py" where
  "get_list = pbind get_text (\<lambda>s. pret (split_on comma s))"

section \<open>Writers\<close>

definition add_bytes :: "bytes \<Rightarrow> (message, unit) py" where
  "add_bytes b = bio_write b"

definition add_byte :: "bytes \<Rightarrow> (message, unit) py" where
  "add_byte b = bio_write b"

definition add_boolean :: "bool \<Rightarrow> (message, unit) py" where
  "add_boolean b = (if b then bio_write [1] else bio_write [0])"

definition add_int :: "int \<Rightarrow> (message, unit) py" where
  "add_int n = pbind (plift (struct_pack 4 n)) bio_write"

definition add_string :: "bytes \<Rightarrow> (message, unit) py" where
  "add_string s = pbind (add_int (int (length s))) (\<lambda>_. bio_write s)"

definition add_adaptive_int :: "int \<Rightarrow> (message, unit) py" where
  "add_adaptive_int n =
     (if n \<ge> big_int then pbind (bio_write [0xFF]) (\<lambda>_. add_string (deflate_long n True))
      else pbind (plift (struct_pack 4 n)) bio_write)"

definition add_int64 :: "int \<Rightarrow> (message, unit) py" where
  "add_int64 n = pbind (plift (struct_pack 8 n)) bio_write"

definition add_mpint :: "int \<Rightarrow> (message, unit) py" where
  "add_mpint z = add_string (deflate_long z True)"

definition add_list :: "pystr list \<Rightarrow> (message, unit) py" where
  "add_list l = add_string (join_with [comma] l)"

text \<open>The types \<^verbatim>\<open>_add\<close> tells apart, in its order.\<close>

datatype item = IBool bool | IInt int | IList "pystr list" | IStr bytes

fun add_item :: "item \<Rightarrow> (message, unit) py" where
  "add_item (IBool b) = add_boolean b"
| "add_item (IInt n) = add_adaptive_int n"
| "add_item (IList l) = add_list l"
| "add_item (IStr s) = add_string s"

fun add_items :: "item list \<Rightarrow> (message, unit) py" where
  "add_items [] = pret ()"
| "add_items (i # is) = pbind (add_item i) (\<lambda>_. add_items is)"

section \<open>Basic facts\<close>

definition msg_wf :: "message \<Rightarrow> bool" where
  "msg_wf m \<longleftrightarrow> msg_position m \<le> length (msg_packet m)"

text \<open>A message under construction: the position is at the end.\<close>

definition built :: "bytes \<Rightarrow> message" where
  "built b = \<lparr>msg_packet = b, msg_position = length b\<rparr>"

text \<open>A message being read: \<open>pre\<close> has been consumed, \<open>post\<close> has not.\<close>

definition reading :: "bytes \<Rightarrow> bytes \<Rightarrow> message" where
  "reading pre post = \<lparr>msg_packet = pre @ post, msg_position = length pre\<rparr>"

lemma bio_write_built [simp]: "bio_write b (built a) = (Inr (), built (a @ b))"
  by (simp add: bio_write_def built_def)

lemma bio_read_reading:
  "length b = nat n \<Longrightarrow> 0 \<le> n \<Longrightarrow> bio_read n (reading pre (b @ post)) = (Inr b, reading (pre @ b) post)"
  by (simp add: bio_read_def reading_def Let_def)

lemma Message_init_reading: "Message_init (Some c) = reading [] c"
  by (simp add: Message_init_def reading_def)

lemma Message_init_built: "Message_init None = built []"
  by (simp add: Message_init_def built_def)

lemma rewind_built: "rewind (built b) = (Inr (), reading [] b)"
  by (simp add: rewind_def pmodify_def built_def reading_def)

lemma msg_wf_reading: "msg_wf m \<Longrightarrow> m = reading (take (msg_position m) (msg_packet m)) (drop (msg_position m) (msg_packet m))"
  by (simp add: msg_wf_def reading_def)

lemma reading_wf [simp]: "msg_wf (reading a b)"
  by (simp add: msg_wf_def reading_def)

lemma get_bytes_exact:
  "length b = nat n \<Longrightarrow> 0 \<le> n \<Longrightarrow> get_bytes n (reading pre (b @ post)) = (Inr b, reading (pre @ b) post)"
  by (simp add: get_bytes_def pbind_def pret_def bio_read_reading)

lemma get_so_far_reading: "get_so_far (reading pre post) = (Inr pre, reading pre post)"
  by (simp add: get_so_far_def py_monad rewind_def bio_read_def reading_def)

lemma get_remainder_reading: "get_remainder (reading pre post) = (Inr post, reading pre post)"
  by (simp add: get_remainder_def py_monad bio_read_def reading_def)

section \<open>What a reader and a writer promise each other\<close>

locale wire_codec =
  fixes enc :: "'a \<Rightarrow> bytes"
    and get :: "(message, 'a) py"
    and valid :: "'a \<Rightarrow> bool"
  assumes get_enc:
    "valid x \<Longrightarrow> get (reading pre (enc x @ post)) = (Inr x, reading (pre @ enc x) post)"
begin

lemma enc_prefix_free:
  assumes "valid x" "valid y" "enc x @ r = enc y @ r'"
  shows "x = y \<and> r = r'"
proof -
  have "get (reading [] (enc x @ r)) = (Inr x, reading ([] @ enc x) r)"
    using assms(1) by (rule get_enc)
  moreover have "get (reading [] (enc y @ r')) = (Inr y, reading ([] @ enc y) r')"
    using assms(2) by (rule get_enc)
  ultimately have "x = y" using assms(3) by simp
  with assms(3) show ?thesis by simp
qed

lemma enc_inj: "valid x \<Longrightarrow> valid y \<Longrightarrow> enc x = enc y \<Longrightarrow> x = y"
  using enc_prefix_free [of x y "[]" "[]"] by simp

end

locale wire_writer = wire_codec enc get valid
  for enc :: "'a \<Rightarrow> bytes" and get and valid +
  fixes add :: "'a \<Rightarrow> (message, unit) py"
  assumes add_enc: "valid x \<Longrightarrow> add x (built b) = (Inr (), built (b @ enc x))"
begin

lemma write_then_read:
  assumes "valid x"
  shows "pbind (add x) (\<lambda>_. pbind rewind (\<lambda>_. get)) (Message_init None) = (Inr x, reading (enc x) [])"
proof -
  have "add x (Message_init None) = (Inr (), built (enc x))"
    using add_enc [OF assms, of "[]"] by (simp add: Message_init_built)
  moreover have "get (reading [] (enc x)) = (Inr x, reading (enc x) [])"
    using get_enc [OF assms, of "[]" "[]"] by simp
  ultimately show ?thesis by (simp add: pbind_def rewind_built)
qed

end

section \<open>The codecs of the class\<close>

definition u32_ok :: "int \<Rightarrow> bool" where "u32_ok n \<longleftrightarrow> 0 \<le> n \<and> n < 2 ^ 32"

definition u64_ok :: "int \<Rightarrow> bool" where "u64_ok n \<longleftrightarrow> 0 \<le> n \<and> n < 2 ^ 64"

definition string_ok :: "bytes \<Rightarrow> bool" where "string_ok s \<longleftrightarrow> length s < 2 ^ 32"

definition enc_boolean :: "bool \<Rightarrow> bytes" where
  [wire_simps]: "enc_boolean b = [if b then 1 else 0]"

definition enc_string :: "bytes \<Rightarrow> bytes" where
  [wire_simps]: "enc_string s = be_enc 4 (int (length s)) @ s"

definition enc_mpint :: "int \<Rightarrow> bytes" where
  [wire_simps]: "enc_mpint z = enc_string (deflate_long z True)"

definition enc_adaptive :: "int \<Rightarrow> bytes" where
  [wire_simps]: "enc_adaptive n = (if n \<ge> big_int then 0xFF # enc_mpint n else be_enc 4 n)"

definition enc_list :: "pystr list \<Rightarrow> bytes" where
  [wire_simps]: "enc_list l = enc_string (join_with [comma] l)"

definition mpint_ok :: "int \<Rightarrow> bool" where
  "mpint_ok z \<longleftrightarrow> string_ok (deflate_long z True)"

definition text_ok :: "pystr \<Rightarrow> bool" where
  "text_ok s \<longleftrightarrow> string_ok s \<and> utf8_valid s"

definition list_ok :: "pystr list \<Rightarrow> bool" where
  "list_ok l \<longleftrightarrow> l \<noteq> [] \<and> (\<forall>w \<in> set l. comma \<notin> set w) \<and> text_ok (join_with [comma] l)"

lemma struct_pack_ok: "0 \<le> n \<Longrightarrow> n < 256 ^ k \<Longrightarrow> struct_pack k n = Inr (be_enc k n)"
  by (simp add: struct_pack_def)

lemma get_int_exact:
  "u32_ok n \<Longrightarrow> get_int (reading pre (be_enc 4 n @ post)) = (Inr n, reading (pre @ be_enc 4 n) post)"
  by (simp add: get_int_def pbind_def get_bytes_exact plift_def struct_unpack_def u32_ok_def)

lemma get_string_exact:
  "string_ok s \<Longrightarrow> get_string (reading pre (enc_string s @ post)) = (Inr s, reading (pre @ enc_string s) post)"
  using get_int_exact [of "int (length s)" pre "s @ post"]
    get_bytes_exact [of s "int (length s)" "pre @ be_enc 4 (int (length s))" post]
  by (simp add: get_string_def pbind_def enc_string_def u32_ok_def string_ok_def)

lemma get_binary_string: "get_binary = get_string"
  by (simp add: get_binary_def get_string_def)

lemma add_string_built: "string_ok s \<Longrightarrow> add_string s (built b) = (Inr (), built (b @ enc_string s))"
  by (simp add: add_string_def add_int_def pbind_def plift_def struct_pack_def string_ok_def enc_string_def)

interpretation int_codec: wire_writer "be_enc 4" get_int u32_ok add_int
  by unfold_locales
    (simp_all add: get_int_exact add_int_def pbind_def plift_def struct_pack_def u32_ok_def)

interpretation int64_codec: wire_writer "be_enc 8" get_int64 u64_ok add_int64
  by unfold_locales
    (simp_all add: get_int64_def add_int64_def pbind_def plift_def struct_pack_def struct_unpack_def
      get_bytes_exact u64_ok_def)

interpretation boolean_codec: wire_writer enc_boolean get_boolean "\<lambda>_. True" add_boolean
proof unfold_locales
  fix x pre post
  show "get_boolean (reading pre (enc_boolean x @ post)) = (Inr x, reading (pre @ enc_boolean x) post)"
    using get_bytes_exact [of "enc_boolean x" 1 pre post]
    by (simp add: get_boolean_def pbind_def pret_def enc_boolean_def)
qed (simp add: add_boolean_def enc_boolean_def)

interpretation string_codec: wire_writer enc_string get_string string_ok add_string
  by unfold_locales (simp_all add: get_string_exact add_string_built)

interpretation mpint_codec: wire_writer enc_mpint get_mpint mpint_ok add_mpint
  by unfold_locales
    (simp_all add: get_mpint_def get_binary_string pbind_def pret_def enc_mpint_def mpint_ok_def
      get_string_exact inflate_deflate_long add_mpint_def add_string_built)

interpretation text_codec: wire_writer enc_string get_text text_ok add_string
  by unfold_locales
    (simp_all add: get_text_def text_ok_def pbind_def plift_def utf8_decode_def get_string_exact
      add_string_built)


subsection \<open>Adaptive integers\<close>

definition adaptive_ok :: "int \<Rightarrow> bool" where
  "adaptive_ok n \<longleftrightarrow> 0 \<le> n \<and> mpint_ok n"

lemma be_enc_4: "be_enc 4 n = word_of_int (n div 2 ^ 24) # be_enc 3 n"
proof -
  have "n div 256 div 256 div 256 = n div 2 ^ 24"
    by (simp add: zdiv_zmult2_eq [symmetric])
  then show ?thesis by (simp add: eval_nat_numeral)
qed

lemma be_enc_4_small:
  assumes "0 \<le> n" "n < big_int"
  shows "(word_of_int (n div 2 ^ 24) :: byte) \<noteq> 0xFF"
proof -
  have "0 \<le> n div 2 ^ 24" "n div 2 ^ 24 < 255" using assms by (simp_all add: big_int_def)
  then have "uint (word_of_int (n div 2 ^ 24) :: byte) = n div 2 ^ 24"
    by (simp add: uint_word_of_int)
  with \<open>n div 2 ^ 24 < 255\<close> show ?thesis by (metis order_less_irrefl uint_numeral_FF)
qed

lemma get_adaptive_exact:
  assumes "adaptive_ok n"
  shows "get_adaptive_int (reading pre (enc_adaptive n @ post)) = (Inr n, reading (pre @ enc_adaptive n) post)"
proof (cases "n \<ge> big_int")
  case True
  have "get_bytes 1 (reading pre ([0xFF] @ enc_mpint n @ post)) = (Inr [0xFF], reading (pre @ [0xFF]) (enc_mpint n @ post))"
    by (rule get_bytes_exact) simp_all
  moreover have "get_binary (reading (pre @ [0xFF]) (enc_mpint n @ post))
      = (Inr (deflate_long n True), reading ((pre @ [0xFF]) @ enc_mpint n) post)"
    unfolding get_binary_string enc_mpint_def
    using assms by (intro get_string_exact) (simp add: adaptive_ok_def mpint_ok_def)
  ultimately show ?thesis
    using True by (simp add: get_adaptive_int_def pbind_def pret_def enc_adaptive_def inflate_deflate_long)
next
  case False
  define b where "b = (word_of_int (n div 2 ^ 24) :: byte)"
  have enc: "enc_adaptive n = b # be_enc 3 n" and b: "b \<noteq> 0xFF"
    using False assms be_enc_4_small [of n]
    by (simp_all add: enc_adaptive_def be_enc_4 b_def adaptive_ok_def)
  have "get_bytes 1 (reading pre ([b] @ be_enc 3 n @ post)) = (Inr [b], reading (pre @ [b]) (be_enc 3 n @ post))"
    by (rule get_bytes_exact) simp_all
  moreover have "get_bytes 3 (reading (pre @ [b]) (be_enc 3 n @ post))
      = (Inr (be_enc 3 n), reading ((pre @ [b]) @ be_enc 3 n) post)"
    by (rule get_bytes_exact) simp_all
  moreover have "be_dec (b # be_enc 3 n) = n"
    unfolding b_def be_enc_4 [symmetric]
    using False assms by (intro be_dec_be_enc_id) (simp_all add: adaptive_ok_def big_int_def)
  ultimately show ?thesis
    using b by (simp add: get_adaptive_int_def pbind_def plift_def struct_unpack_def enc)
qed

interpretation adaptive_codec: wire_writer enc_adaptive get_adaptive_int adaptive_ok add_adaptive_int
proof unfold_locales
  fix n b assume "adaptive_ok n"
  then show "add_adaptive_int n (built b) = (Inr (), built (b @ enc_adaptive n))"
    by (auto simp: add_adaptive_int_def enc_adaptive_def adaptive_ok_def mpint_ok_def pbind_def
        plift_def struct_pack_def big_int_def enc_mpint_def add_string_built)
qed (rule get_adaptive_exact)

subsection \<open>Lists of names\<close>

lemma split_on_nonempty [simp]: "split_on c s \<noteq> []"
  by (cases s) (auto split: list.splits)

lemma split_on_word: "c \<notin> set w \<Longrightarrow> split_on c (w @ c # s) = w # split_on c s"
  by (induction w) auto

lemma split_on_single: "c \<notin> set w \<Longrightarrow> split_on c w = [w]"
  by (induction w) auto

lemma split_on_join:
  "l \<noteq> [] \<Longrightarrow> (\<And>w. w \<in> set l \<Longrightarrow> c \<notin> set w) \<Longrightarrow> split_on c (join_with [c] l) = l"
  by (induction l rule: induct_list012) (auto simp: split_on_word split_on_single)

lemma join_split_on: "join_with [c] (split_on c s) = s"
proof (induction s)
  case Nil
  show ?case by simp
next
  case (Cons b s)
  obtain w ws where "split_on c s = w # ws" using split_on_nonempty [of c s] by (cases "split_on c s") auto
  with Cons show ?case by (cases ws) auto
qed

interpretation list_codec: wire_writer enc_list get_list list_ok add_list
proof unfold_locales
  fix l pre post assume l: "list_ok l"
  then have "text_ok (join_with [comma] l)" by (simp add: list_ok_def)
  from text_codec.get_enc [OF this] l
  show "get_list (reading pre (enc_list l @ post)) = (Inr l, reading (pre @ enc_list l) post)"
    by (simp add: get_list_def pbind_def pret_def enc_list_def split_on_join list_ok_def)
next
  fix l b assume "list_ok l"
  then show "add_list l (built b) = (Inr (), built (b @ enc_list l))"
    by (simp add: add_list_def enc_list_def list_ok_def text_ok_def add_string_built)
qed


section \<open>Whole messages\<close>

text \<open>A message as the code describes it: a sequence of typed fields. \<open>add_field\<close> and
  \<open>get_like\<close> are the calls that write and read one field.\<close>

datatype field =
    FRaw bytes | FBool bool | FInt int | FInt64 int | FAdaptive int | FMpint int
  | FString bytes | FText pystr | FList "pystr list"

fun field_ok :: "field \<Rightarrow> bool" where
  "field_ok (FRaw b) = True"
| "field_ok (FBool b) = True"
| "field_ok (FInt n) = u32_ok n"
| "field_ok (FInt64 n) = u64_ok n"
| "field_ok (FAdaptive n) = adaptive_ok n"
| "field_ok (FMpint n) = mpint_ok n"
| "field_ok (FString s) = string_ok s"
| "field_ok (FText s) = text_ok s"
| "field_ok (FList l) = list_ok l"

fun enc_field :: "field \<Rightarrow> bytes" where
  "enc_field (FRaw b) = b"
| "enc_field (FBool b) = enc_boolean b"
| "enc_field (FInt n) = be_enc 4 n"
| "enc_field (FInt64 n) = be_enc 8 n"
| "enc_field (FAdaptive n) = enc_adaptive n"
| "enc_field (FMpint n) = enc_mpint n"
| "enc_field (FString s) = enc_string s"
| "enc_field (FText s) = enc_string s"
| "enc_field (FList l) = enc_list l"

fun add_field :: "field \<Rightarrow> (message, unit) py" where
  "add_field (FRaw b) = add_bytes b"
| "add_field (FBool b) = add_boolean b"
| "add_field (FInt n) = add_int n"
| "add_field (FInt64 n) = add_int64 n"
| "add_field (FAdaptive n) = add_adaptive_int n"
| "add_field (FMpint n) = add_mpint n"
| "add_field (FString s) = add_string s"
| "add_field (FText s) = add_string s"
| "add_field (FList l) = add_list l"

fun get_like :: "field \<Rightarrow> (message, field) py" where
  "get_like (FRaw b) = pbind (get_bytes (int (length b))) (\<lambda>x. pret (FRaw x))"
| "get_like (FBool b) = pbind get_boolean (\<lambda>x. pret (FBool x))"
| "get_like (FInt n) = pbind get_int (\<lambda>x. pret (FInt x))"
| "get_like (FInt64 n) = pbind get_int64 (\<lambda>x. pret (FInt64 x))"
| "get_like (FAdaptive n) = pbind get_adaptive_int (\<lambda>x. pret (FAdaptive x))"
| "get_like (FMpint n) = pbind get_mpint (\<lambda>x. pret (FMpint x))"
| "get_like (FString s) = pbind get_string (\<lambda>x. pret (FString x))"
| "get_like (FText s) = pbind get_text (\<lambda>x. pret (FText x))"
| "get_like (FList l) = pbind get_list (\<lambda>x. pret (FList x))"

fun add_fields :: "field list \<Rightarrow> (message, unit) py" where
  "add_fields [] = pret ()"
| "add_fields (f # fs) = pbind (add_field f) (\<lambda>_. add_fields fs)"

fun get_fields_like :: "field list \<Rightarrow> (message, field list) py" where
  "get_fields_like [] = pret []"
| "get_fields_like (f # fs) =
     pbind (get_like f) (\<lambda>x. pbind (get_fields_like fs) (\<lambda>xs. pret (x # xs)))"

definition enc_fields :: "field list \<Rightarrow> bytes" where
  "enc_fields fs = concat (map enc_field fs)"

lemma add_field_built: "field_ok f \<Longrightarrow> add_field f (built b) = (Inr (), built (b @ enc_field f))"
  by (cases f)
    (simp_all add: add_bytes_def boolean_codec.add_enc int_codec.add_enc int64_codec.add_enc
      adaptive_codec.add_enc mpint_codec.add_enc string_codec.add_enc text_codec.add_enc
      list_codec.add_enc)

lemma get_like_reading:
  "field_ok f \<Longrightarrow> get_like f (reading pre (enc_field f @ post)) = (Inr f, reading (pre @ enc_field f) post)"
  by (cases f)
    (simp_all add: pbind_def pret_def get_bytes_exact boolean_codec.get_enc int_codec.get_enc
      int64_codec.get_enc adaptive_codec.get_enc mpint_codec.get_enc string_codec.get_enc
      text_codec.get_enc list_codec.get_enc)

lemma add_fields_built:
  "list_all field_ok fs \<Longrightarrow> add_fields fs (built b) = (Inr (), built (b @ enc_fields fs))"
  by (induction fs arbitrary: b) (simp_all add: pret_def pbind_def add_field_built enc_fields_def)

lemma get_fields_reading:
  "list_all field_ok fs \<Longrightarrow>
   get_fields_like fs (reading pre (enc_fields fs @ post)) = (Inr fs, reading (pre @ enc_fields fs) post)"
  by (induction fs arbitrary: pre) (simp_all add: pret_def pbind_def get_like_reading enc_fields_def)

interpretation fields_codec:
  wire_writer enc_fields "get_fields_like fs" "\<lambda>gs. gs = fs \<and> list_all field_ok fs" add_fields for fs
  by unfold_locales (auto simp: get_fields_reading add_fields_built)

text \<open>C33: any message, written field by field with the writers and read back with the
  matching readers, gives exactly the fields that were written and leaves nothing unread.\<close>

theorem message_roundtrip:
  assumes "list_all field_ok fs"
  shows "pbind (add_fields fs) (\<lambda>_. pbind rewind (\<lambda>_. get_fields_like fs)) (Message_init None)
    = (Inr fs, reading (enc_fields fs) [])"
  using fields_codec.write_then_read [of fs fs] assms by simp

theorem message_roundtrip_witness:
  "pbind (add_fields [FRaw [20], FInt 7, FMpint (- 300), FString [1, 2], FBool True])
     (\<lambda>_. pbind rewind (\<lambda>_. get_fields_like [FRaw [20], FInt 7, FMpint (- 300), FString [1, 2], FBool True]))
     (Message_init None)
   = (Inr [FRaw [20], FInt 7, FMpint (- 300), FString [1, 2], FBool True],
      reading (enc_fields [FRaw [20], FInt 7, FMpint (- 300), FString [1, 2], FBool True]) [])"
proof (rule message_roundtrip)
  have "deflate_long (- 300) True = [254, 212]" by code_simp
  then show "list_all field_ok [FRaw [20], FInt 7, FMpint (- 300), FString [1, 2], FBool True]"
    by (simp add: u32_ok_def string_ok_def mpint_ok_def)
qed

section \<open>Reading never fails on arbitrary input\<close>

text \<open>A reader is safe when it leaves the buffer alone and moves the position forward, but
  never past the end.\<close>

definition reader_safe :: "(message, 'a) py \<Rightarrow> bool" where
  "reader_safe r \<longleftrightarrow> (\<forall>m. msg_wf m \<longrightarrow>
     msg_packet (snd (r m)) = msg_packet m \<and> msg_position m \<le> msg_position (snd (r m)) \<and> msg_wf (snd (r m)))"

lemma reader_safe_pret [simp]: "reader_safe (pret x)"
  by (simp add: reader_safe_def pret_def)

lemma reader_safe_plift [simp]: "reader_safe (plift x)"
  by (simp add: reader_safe_def plift_def)

lemma reader_safe_pbind:
  assumes "reader_safe r" "\<And>x. reader_safe (f x)"
  shows "reader_safe (pbind r f)"
  unfolding reader_safe_def
proof (intro allI impI)
  fix m assume m: "msg_wf m"
  obtain res m' where r: "r m = (res, m')" by force
  have m': "msg_packet m' = msg_packet m" "msg_position m \<le> msg_position m'" "msg_wf m'"
    using assms(1) m r by (force simp: reader_safe_def)+
  show "msg_packet (snd (pbind r f m)) = msg_packet m \<and> msg_position m \<le> msg_position (snd (pbind r f m))
      \<and> msg_wf (snd (pbind r f m))"
  proof (cases res)
    case (Inl e)
    with r m' show ?thesis by (simp add: pbind_def)
  next
    case (Inr x)
    with assms(2) [of x] m' have "msg_packet (snd (f x m')) = msg_packet m'
        \<and> msg_position m' \<le> msg_position (snd (f x m')) \<and> msg_wf (snd (f x m'))"
      by (simp add: reader_safe_def)
    with r m' Inr show ?thesis by (simp add: pbind_def)
  qed
qed

lemma reader_safe_get_bytes: "reader_safe (get_bytes n)"
  unfolding get_bytes_def
  by (rule reader_safe_pbind) (auto simp: reader_safe_def bio_read_def msg_wf_def Let_def pret_def)

lemmas reader_defs = get_byte_def get_boolean_def get_int_def get_int64_def get_string_def
  get_binary_def get_adaptive_int_def get_mpint_def get_text_def get_list_def

lemma get_bytes_small:
  assumes "0 \<le> n" "n < 2 ^ 20"
  shows "\<exists>b m'. get_bytes n m = (Inr b, m') \<and> length b = nat n"
  using assms by (auto simp: get_bytes_def pbind_def bio_read_def Let_def pret_def)

lemma get_int_u32: "\<exists>n m'. get_int m = (Inr n, m') \<and> u32_ok n"
proof -
  obtain b m' where b: "get_bytes 4 m = (Inr b, m')" "length b = 4"
    using get_bytes_small [of 4 m] by auto
  have "u32_ok (be_dec b)" using be_dec_bounds [of b] b(2) by (simp add: u32_ok_def)
  with b show ?thesis by (simp add: get_int_def pbind_def plift_def struct_unpack_def)
qed

text \<open>On arbitrary bytes, however short, \<open>get_int\<close> returns an unsigned 32-bit value.\<close>

theorem get_int_total: "\<exists>n m'. get_int m = (Inr n, m') \<and> u32_ok n"
  by (rule get_int_u32)

text \<open>Every reader of the class leaves the bytes of the message unchanged and keeps its
  position inside the buffer, whatever the bytes are and whether or not it raises.\<close>

theorem readers_safe:
  "reader_safe get_byte \<and> reader_safe get_boolean \<and> reader_safe get_int \<and> reader_safe get_int64
   \<and> reader_safe get_string \<and> reader_safe get_binary \<and> reader_safe get_adaptive_int
   \<and> reader_safe get_mpint \<and> reader_safe get_text \<and> reader_safe get_list"
  by (auto simp: reader_defs intro!: reader_safe_pbind reader_safe_get_bytes)

text \<open>What has been read and what remains make up the original content, at every point
  of parsing.\<close>

theorem so_far_and_remainder:
  assumes "msg_wf m"
  shows "\<exists>a b. get_so_far m = (Inr a, m) \<and> get_remainder m = (Inr b, m) \<and> a @ b = msg_asbytes m"
proof -
  obtain pre post where m: "m = reading pre post" using msg_wf_reading [OF assms] by blast
  have "pre @ post = msg_asbytes m" by (simp add: m msg_asbytes_def reading_def)
  then show ?thesis
    unfolding m using get_so_far_reading get_remainder_reading by metis
qed

theorem so_far_and_remainder_witness:
  "\<exists>a b. get_so_far (reading [1, 2] [3]) = (Inr a, reading [1, 2] [3])
     \<and> get_remainder (reading [1, 2] [3]) = (Inr b, reading [1, 2] [3]) \<and> a @ b = [1, 2, 3]"
  using so_far_and_remainder [of "reading [1, 2] [3]"] by (simp add: msg_wf_def reading_def msg_asbytes_def)

end
