(* ===== verification/Buffered_Pipe.thy ===== *)
theory Buffered_Pipe
  imports Py_Prelude Complex_Main
begin

text \<open>
  \<^verbatim>\<open>paramiko/buffered_pipe.py\<close>: the buffer between the transport thread, which feeds it, and
  the threads that read it. Every method runs with the lock held, so it is one step on
  the state; the only place where the lock is released is the \<^verbatim>\<open>wait\<close> of \<^verbatim>\<open>read\<close>, where the
  other threads' steps (and the time that passed) are an explicit argument, the
  interleaving. The interface \<open>fifo\<close> says that what goes in comes out, in order.
\<close>

section \<open>State and operations\<close>

text \<open>\<open>event\<close> is the event object set with \<^verbatim>\<open>set_event\<close>, if any, as its flag.\<close>

record pipe =
  event :: "bool option"
  buffer :: bytes
  closed :: bool

definition BufferedPipe_init :: pipe where
  "BufferedPipe_init = \<lparr>event = None, buffer = [], closed = False\<rparr>"

definition set_event :: "pipe \<Rightarrow> pipe" where
  "set_event s = s\<lparr>event := Some (closed s \<or> length (buffer s) > 0)\<rparr>"

definition feed :: "bytes \<Rightarrow> pipe \<Rightarrow> pipe" where
  "feed data s = s\<lparr>event := map_option (\<lambda>_. True) (event s), buffer := buffer s @ data\<rparr>"

definition read_ready :: "pipe \<Rightarrow> bool" where
  "read_ready s = (if length (buffer s) = 0 then False else True)"

text \<open>The end of \<^verbatim>\<open>read\<close>, once there is something in the buffer or the pipe is closed.\<close>

definition take_out :: "int \<Rightarrow> pipe \<Rightarrow> bytes \<times> pipe" where
  "take_out nbytes s =
     (if int (length (buffer s)) \<le> nbytes
      then (buffer s, s\<lparr>buffer := [],
              event := (if event s \<noteq> None \<and> \<not> closed s then Some False else event s)\<rparr>)
      else (slice_to nbytes (buffer s), s\<lparr>buffer := slice_from nbytes (buffer s)\<rparr>))"

definition empty_pipe :: "pipe \<Rightarrow> bytes \<times> pipe" where
  "empty_pipe s =
     (buffer s, s\<lparr>buffer := [],
        event := (if event s \<noteq> None \<and> \<not> closed s then Some False else event s)\<rparr>)"

definition close_pipe :: "pipe \<Rightarrow> pipe" where
  "close_pipe s = s\<lparr>closed := True, event := map_option (\<lambda>_. True) (event s)\<rparr>"

definition pipe_len :: "pipe \<Rightarrow> nat" where
  "pipe_len s = length (buffer s)"

text \<open>The steps other threads can take while a reader waits.\<close>

datatype pipe_op = OFeed bytes | OTake int | OEmpty | OClose | OSetEvent

fun pipe_step :: "pipe \<Rightarrow> pipe_op \<Rightarrow> pipe" where
  "pipe_step s (OFeed d) = feed d s"
| "pipe_step s (OTake n) = snd (take_out n s)"
| "pipe_step s OEmpty = snd (empty_pipe s)"
| "pipe_step s OClose = close_pipe s"
| "pipe_step s OSetEvent = set_event s"

text \<open>Waiting on a condition variable in a loop, as \<^verbatim>\<open>read\<close> does (and \<^verbatim>\<open>Channel\<close>, on its own
  condition): while \<open>blocked\<close> holds, the lock is released; each wake-up takes the time that
  passed and the steps of the other threads from the interleaving \<open>env\<close>. With a timeout, its
  rest is what is left after each wake-up, and \<open>exn\<close> is raised when nothing is left.\<close>

type_synonym 'op env = "(rat \<times> 'op list) list"

fun wait_loop ::
  "('s \<Rightarrow> bool) \<Rightarrow> ('s \<Rightarrow> 'op \<Rightarrow> 's) \<Rightarrow> py_error \<Rightarrow> rat option \<Rightarrow> 'op env \<Rightarrow> 's \<Rightarrow> unit blocking \<times> 's" where
  "wait_loop blocked step exn timeout [] s =
     (if blocked s then (Waiting, s) else (Done (Inr ()), s))"
| "wait_loop blocked step exn timeout ((elapsed, ops) # env) s =
     (if blocked s then
        (let s' = foldl step s ops in
         case timeout of
           None \<Rightarrow> wait_loop blocked step exn None env s'
         | Some t \<Rightarrow>
             (let t' = t - elapsed in
              if t' \<le> 0 then (Done (Inl exn), s') else wait_loop blocked step exn (Some t') env s'))
      else (Done (Inr ()), s))"

text \<open>\<^verbatim>\<open>read\<close>, for a pipe that is the part \<open>get\<close> of a state on which other threads take the
  steps \<open>step\<close> meanwhile.\<close>

definition read_in ::
  "('s \<Rightarrow> pipe) \<Rightarrow> (pipe \<Rightarrow> 's \<Rightarrow> 's) \<Rightarrow> ('s \<Rightarrow> 'op \<Rightarrow> 's) \<Rightarrow> int \<Rightarrow> rat option \<Rightarrow> 'op env \<Rightarrow> 's
   \<Rightarrow> bytes blocking \<times> 's" where
  "read_in get put step nbytes timeout env s =
     (if length (buffer (get s)) = 0 \<and> closed (get s) then (Done (Inr []), s)
      else if length (buffer (get s)) = 0 \<and> timeout = Some 0 then (Done (Inl PipeTimeout), s)
      else case wait_loop (\<lambda>s. length (buffer (get s)) = 0 \<and> \<not> closed (get s)) step PipeTimeout timeout env s of
        (Waiting, s') \<Rightarrow> (Waiting, s')
      | (Done (Inl e), s') \<Rightarrow> (Done (Inl e), s')
      | (Done (Inr _), s') \<Rightarrow> (let (out, p) = take_out nbytes (get s') in (Done (Inr out), put p s')))"

definition pipe_read :: "int \<Rightarrow> rat option \<Rightarrow> pipe_op env \<Rightarrow> pipe \<Rightarrow> bytes blocking \<times> pipe" where
  "pipe_read nbytes timeout env s = read_in (\<lambda>s. s) (\<lambda>p _. p) pipe_step nbytes timeout env s"

section \<open>First in, first out\<close>

primrec outputs :: "('p \<Rightarrow> 'op \<Rightarrow> 'p) \<Rightarrow> ('p \<Rightarrow> 'op \<Rightarrow> bytes) \<Rightarrow> 'p \<Rightarrow> 'op list \<Rightarrow> bytes" where
  "outputs step got p [] = []"
| "outputs step got p (x # xs) = got p x @ outputs step got (step p x) xs"

locale fifo =
  fixes content :: "'p \<Rightarrow> bytes"
    and step :: "'p \<Rightarrow> 'op \<Rightarrow> 'p"
    and fed :: "'p \<Rightarrow> 'op \<Rightarrow> bytes"
    and got :: "'p \<Rightarrow> 'op \<Rightarrow> bytes"
  assumes conserve: "got p x @ content (step p x) = content p @ fed p x"
begin

lemma stream:
  "outputs step got p xs @ content (foldl step p xs) = content p @ outputs step fed p xs"
proof (induction xs arbitrary: p)
  case Nil
  show ?case by simp
next
  case (Cons x xs)
  have "outputs step got p (x # xs) @ content (foldl step p (x # xs))
      = got p x @ content (step p x) @ outputs step fed (step p x) xs"
    using Cons.IH [of "step p x"] by simp
  also have "\<dots> = content p @ outputs step fed p (x # xs)"
    using conserve [of p x] by simp
  finally show ?case .
qed

lemma output_prefix:
  "content p = [] \<Longrightarrow> \<exists>r. outputs step fed p xs = outputs step got p xs @ r"
  using stream [of p xs] by (metis append_Nil)

end

fun op_fed :: "pipe \<Rightarrow> pipe_op \<Rightarrow> bytes" where
  "op_fed s (OFeed d) = d"
| "op_fed s _ = []"

fun op_got :: "pipe \<Rightarrow> pipe_op \<Rightarrow> bytes" where
  "op_got s (OTake n) = fst (take_out n s)"
| "op_got s OEmpty = fst (empty_pipe s)"
| "op_got s _ = []"

lemma take_out_conserve: "fst (take_out n s) @ buffer (snd (take_out n s)) = buffer s"
  by (simp add: take_out_def slice_to_from)

interpretation pipe_fifo: fifo buffer pipe_step op_fed op_got
proof unfold_locales
  fix p x
  show "op_got p x @ buffer (pipe_step p x) = buffer p @ op_fed p x"
    by (cases x) (simp_all add: feed_def take_out_conserve empty_pipe_def close_pipe_def set_event_def)
qed

text \<open>C35: over every sequence of feeds, reads, clears and closes by any threads, the bytes
  handed out followed by the bytes still buffered are exactly the bytes fed, in order.\<close>

theorem pipe_stream:
  "outputs pipe_step op_got BufferedPipe_init ops @ buffer (foldl pipe_step BufferedPipe_init ops)
   = outputs pipe_step op_fed BufferedPipe_init ops"
  using pipe_fifo.stream [of BufferedPipe_init ops] by (simp add: BufferedPipe_init_def)

section \<open>Reading\<close>

lemma take_out_bounded: "0 \<le> n \<Longrightarrow> int (length (fst (take_out n s))) \<le> n"
  by (auto simp: take_out_def)

lemma take_out_empty: "0 < n \<Longrightarrow> fst (take_out n s) = [] \<Longrightarrow> buffer s = []"
  by (auto simp: take_out_def split: if_splits)

lemma take_out_closed [simp]: "closed (snd (take_out n s)) = closed s"
  by (simp add: take_out_def)

lemma wait_loop_Done:
  "wait_loop blocked step exn timeout env s = (Done (Inr ()), s') \<Longrightarrow> \<not> blocked s'"
  by (induction blocked step exn timeout env s rule: wait_loop.induct)
    (auto simp: Let_def split: if_splits option.splits)

lemma wait_loop_errors:
  "wait_loop blocked step exn timeout env s = (Done (Inl e), s') \<Longrightarrow> e = exn \<and> timeout \<noteq> None"
  by (induction blocked step exn timeout env s rule: wait_loop.induct)
    (auto simp: Let_def split: if_splits option.splits)

lemma wait_loop_inv:
  assumes "\<And>s x. P s \<Longrightarrow> P (step s x)" "P s"
  shows "P (snd (wait_loop blocked step exn timeout env s))"
proof -
  show ?thesis
    using assms
  proof (induction blocked step exn timeout env s rule: wait_loop.induct)
    case (2 blocked step exn timeout elapsed ops env s)
    have "P (foldl step s ops)" using "2.prems" by (induction ops arbitrary: s) simp_all
    then show ?case using 2 by (auto simp: Let_def split: option.splits)
  qed simp
qed

text \<open>After some of the interleaving the condition no longer holds.\<close>

definition wakes :: "('s \<Rightarrow> bool) \<Rightarrow> ('s \<Rightarrow> 'op \<Rightarrow> 's) \<Rightarrow> 'op env \<Rightarrow> 's \<Rightarrow> bool" where
  "wakes blocked step env s \<longleftrightarrow>
     (\<exists>k \<in> {..length env}. \<not> blocked (foldl (\<lambda>p eo. foldl step p (snd eo)) s (take k env)))"

lemma wakes_Cons: "blocked s \<Longrightarrow> wakes blocked step (eo # env) s \<Longrightarrow> wakes blocked step env (foldl step s (snd eo))"
proof -
  assume b: "blocked s" and "wakes blocked step (eo # env) s"
  then obtain k where k: "k \<le> length (eo # env)"
    "\<not> blocked (foldl (\<lambda>p eo. foldl step p (snd eo)) s (take k (eo # env)))"
    by (auto simp: wakes_def)
  with b obtain j where "k = Suc j" by (cases k) auto
  with k show ?thesis by (auto simp: wakes_def)
qed

lemma wait_loop_wakes:
  "wakes blocked step env s \<Longrightarrow>
   \<exists>s'. wait_loop blocked step exn None env s = (Done (Inr ()), s') \<and> \<not> blocked s'"
proof (induction env arbitrary: s)
  case Nil
  then show ?case by (simp add: wakes_def)
next
  case (Cons eo env)
  show ?case
  proof (cases "blocked s")
    case True
    from Cons.IH [OF wakes_Cons [where blocked = blocked, OF this Cons.prems]] True show ?thesis
      by (cases eo) (simp add: Let_def)
  qed (cases eo, simp)
qed

text \<open>An empty result means end of stream: the pipe is closed and nothing is left.
  A result is never longer than asked for, and the only exception is the timeout, raised
  only when one was given.\<close>

theorem pipe_read_result:
  assumes "0 < n" "pipe_read n timeout env s = (Done r, s')"
  shows "case r of
      Inr out \<Rightarrow> int (length out) \<le> n \<and> (out = [] \<longrightarrow> closed s' \<and> buffer s' = [])
    | Inl e \<Rightarrow> e = PipeTimeout \<and> timeout \<noteq> None"
proof (cases "wait_loop (\<lambda>s. length (buffer s) = 0 \<and> \<not> closed s) pipe_step PipeTimeout timeout env s")
  case (Pair w t)
  obtain out u where tk: "take_out n t = (out, u)" by force
  have "int (length (fst (take_out n t))) \<le> n" using assms(1) take_out_bounded by simp
  moreover have "fst (take_out n t) = [] \<Longrightarrow> buffer (snd (take_out n t)) = [] \<and> buffer t = []"
    using take_out_empty [OF assms(1), of t] take_out_conserve [of n t] by auto
  moreover have "w = Done (Inr ()) \<Longrightarrow> \<not> (length (buffer t) = 0 \<and> \<not> closed t)"
    using wait_loop_Done [of "\<lambda>s. length (buffer s) = 0 \<and> \<not> closed s" pipe_step PipeTimeout timeout env s t] Pair
    by simp
  moreover have "w = Done (Inl e) \<Longrightarrow> e = PipeTimeout \<and> timeout \<noteq> None" for e
    using wait_loop_errors Pair by metis
  moreover have "closed u = closed t" using take_out_closed [of n t] tk by simp
  ultimately show ?thesis
    using assms Pair tk
    by (auto simp: pipe_read_def read_in_def split: if_splits blocking.splits sum.splits prod.splits)
qed

theorem pipe_read_result_witness:
  "int (length [1, 2 :: byte]) \<le> 2
   \<and> pipe_read 2 (Some 1) [(1 / 2, [OFeed [1, 2, 3]])] BufferedPipe_init
      = (Done (Inr [1, 2]), \<lparr>event = None, buffer = [3], closed = False\<rparr>)"
proof -
  have "pipe_read 2 (Some 1) [(1 / 2, [OFeed [1, 2, 3]])] BufferedPipe_init
      = (Done (Inr [1, 2]), \<lparr>event = None, buffer = [3], closed = False\<rparr>)"
    by (simp add: pipe_read_def read_in_def BufferedPipe_init_def feed_def take_out_def)
  with pipe_read_result [OF _ this] show ?thesis by simp
qed

text \<open>The data is there, or the pipe is closed.\<close>

definition readable :: "pipe \<Rightarrow> bool" where
  "readable s \<longleftrightarrow> buffer s \<noteq> [] \<or> closed s"

text \<open>A reader without a timeout is never left waiting once a feed or a close made the
  pipe readable: if the pipe is readable after some wake-up, \<^verbatim>\<open>read\<close> returns.\<close>

theorem pipe_read_returns:
  assumes "wakes (\<lambda>s. \<not> readable s) pipe_step env s"
  shows "\<exists>out s'. pipe_read n None env s = (Done (Inr out), s')"
proof -
  have "wakes (\<lambda>s. length (buffer s) = 0 \<and> \<not> closed s) pipe_step env s"
    using assms by (simp add: readable_def)
  from wait_loop_wakes [OF this, of PipeTimeout] show ?thesis
    by (auto simp: pipe_read_def read_in_def Let_def split: prod.splits)
qed

theorem pipe_read_returns_witness:
  "\<exists>out s'. pipe_read 10 None [(3, [OFeed [], OTake 1]), (1, [OClose])] BufferedPipe_init = (Done (Inr out), s')"
  by (rule pipe_read_returns)
    (auto simp: wakes_def readable_def BufferedPipe_init_def feed_def take_out_def close_pipe_def atMost_Suc)

section \<open>The attached event\<close>

text \<open>A set event is what \<^verbatim>\<open>select\<close> sees through \<^verbatim>\<open>Channel.fileno\<close>: it must be set
  whenever a read would not block.\<close>

definition event_inv :: "pipe \<Rightarrow> bool" where
  "event_inv s \<longleftrightarrow> (\<forall>b. event s = Some b \<longrightarrow> readable s \<longrightarrow> b)"

lemma event_inv_init: "event_inv BufferedPipe_init"
  by (simp add: event_inv_def BufferedPipe_init_def)

lemma event_inv_step: "event_inv s \<Longrightarrow> event_inv (pipe_step s x)"
  by (cases x)
    (auto simp: event_inv_def readable_def feed_def take_out_def empty_pipe_def close_pipe_def
      set_event_def split: if_splits)

text \<open>After every sequence of operations the event is set if data is buffered or the
  pipe is closed, so no wake-up is lost.\<close>

theorem event_never_missed: "event_inv (foldl pipe_step BufferedPipe_init ops)"
proof -
  have "event_inv s \<Longrightarrow> event_inv (foldl pipe_step s ops)" for s
    by (induction ops arbitrary: s) (simp_all add: event_inv_step)
  then show ?thesis using event_inv_init .
qed

text \<open>The converse does not hold: feeding an empty string sets the event although a read
  would still wait.\<close>

theorem empty_feed_sets_event:
  "let s = feed [] (set_event BufferedPipe_init) in event s = Some True \<and> \<not> readable s
     \<and> pipe_read n None [] s = (Waiting, s)"
  by (simp add: Let_def feed_def set_event_def BufferedPipe_init_def readable_def pipe_read_def read_in_def)

end
