(* ===== verification/Packetizer.thy ===== *)
theory Packetizer
  imports Ssh_Message
begin

text \<open>
  \<^verbatim>\<open>paramiko/packet.py\<close>: the class \<^verbatim>\<open>Packetizer\<close>, which frames, encrypts, authenticates and
  numbers packets, and counts them for re-keying. The ciphers, the AEAD, the HMAC and the
  compressors are code outside the repository: they are the record \<open>crypto\<close>, an argument
  of the operations that use them. The socket is part of the state: what \<^verbatim>\<open>recv\<close> will
  return is the list \<open>sock_in\<close> of events, how \<^verbatim>\<open>send\<close> will behave the list \<open>sock_script\<close>,
  and what was written to it is \<open>sock_out\<close>. Hex dumps and logging are not modelled.
\<close>

section \<open>State\<close>

text \<open>What the socket (and the threads that change flags of the packetizer meanwhile) do
  while the reader waits. Timeouts carry the time that \<^verbatim>\<open>time.time()\<close> then reads.\<close>

datatype recv_event =
    RData bytes | RTimeout int | REagain int | RError | RTimerFires | RClosedByOther | RRekeyByOther

datatype send_event =
    SSent nat | STimeout | SEagain | SError | SProxyFailure | SOther | SClosedByOther

record ('e, 'z, 'd) crypto =
  cipher_update :: "'e \<Rightarrow> bytes \<Rightarrow> bytes \<times> 'e"
  aead_encrypt :: "'e \<Rightarrow> bytes \<Rightarrow> bytes \<Rightarrow> bytes \<Rightarrow> bytes"
  aead_decrypt :: "'e \<Rightarrow> bytes \<Rightarrow> bytes \<Rightarrow> bytes \<Rightarrow> py_error + bytes"
  hmac :: "bytes \<Rightarrow> bytes \<Rightarrow> 'd \<Rightarrow> bytes"
  compressor :: "'z \<Rightarrow> bytes \<Rightarrow> bytes \<times> 'z"

record ('e, 'z, 'd) packetizer =
  sock_in :: "recv_event list"
  sock_script :: "send_event list"
  sock_out :: bytes
  clock :: int
  pk_closed :: bool
  pk_need_rekey :: bool
  init_count :: int
  remainder :: bytes
  pk_initial_kex_done :: bool
  sent_bytes :: int
  sent_packets :: int
  received_bytes :: int
  received_packets :: int
  received_bytes_overflow :: int
  received_packets_overflow :: int
  block_size_out :: int
  block_size_in :: int
  mac_size_out :: int
  mac_size_in :: int
  block_engine_out :: "'e option"
  block_engine_in :: "'e option"
  sdctr_out :: bool
  mac_engine_out :: "'d option"
  mac_engine_in :: "'d option"
  mac_key_out :: "bytes option"
  mac_key_in :: "bytes option"
  compress_engine_out :: "'z option"
  compress_engine_in :: "'z option"
  sequence_number_out :: int
  sequence_number_in :: int
  etm_out :: bool
  etm_in :: bool
  aead_out :: bool
  aead_in :: bool
  iv_out :: "bytes option"
  iv_in :: "bytes option"
  keepalive_interval :: int
  keepalive_last :: int
  keepalive_calls :: "int list"
  timer :: bool
  handshake_complete :: bool
  timer_expired :: bool

definition REKEY_PACKETS :: int where "REKEY_PACKETS = 2 ^ 29"
definition REKEY_BYTES :: int where "REKEY_BYTES = 2 ^ 29"
definition REKEY_PACKETS_OVERFLOW_MAX :: int where "REKEY_PACKETS_OVERFLOW_MAX = 2 ^ 29"
definition REKEY_BYTES_OVERFLOW_MAX :: int where "REKEY_BYTES_OVERFLOW_MAX = 2 ^ 29"

definition Packetizer_init ::
  "recv_event list \<Rightarrow> send_event list \<Rightarrow> int \<Rightarrow> ('e, 'z, 'd) packetizer" where
  "Packetizer_init rs ss now =
     \<lparr>sock_in = rs, sock_script = ss, sock_out = [], clock = now,
      pk_closed = False, pk_need_rekey = False, init_count = 0, remainder = [],
      pk_initial_kex_done = False,
      sent_bytes = 0, sent_packets = 0, received_bytes = 0, received_packets = 0,
      received_bytes_overflow = 0, received_packets_overflow = 0,
      block_size_out = 8, block_size_in = 8, mac_size_out = 0, mac_size_in = 0,
      block_engine_out = None, block_engine_in = None, sdctr_out = False,
      mac_engine_out = None, mac_engine_in = None, mac_key_out = Some [], mac_key_in = Some [],
      compress_engine_out = None, compress_engine_in = None,
      sequence_number_out = 0, sequence_number_in = 0,
      etm_out = False, etm_in = False, aead_out = False, aead_in = False,
      iv_out = None, iv_in = None,
      keepalive_interval = 0, keepalive_last = now, keepalive_calls = [],
      timer = False, handshake_complete = False, timer_expired = False\<rparr>"

section \<open>Setters\<close>

definition reset_seqno_out :: "('e, 'z, 'd) packetizer \<Rightarrow> ('e, 'z, 'd) packetizer" where
  "reset_seqno_out s = s\<lparr>sequence_number_out := 0\<rparr>"

definition reset_seqno_in :: "('e, 'z, 'd) packetizer \<Rightarrow> ('e, 'z, 'd) packetizer" where
  "reset_seqno_in s = s\<lparr>sequence_number_in := 0\<rparr>"

text \<open>The end of both cipher setters: the rekey flag is cleared when both directions have
  been switched.\<close>

definition note_switched :: "int \<Rightarrow> ('e, 'z, 'd) packetizer \<Rightarrow> ('e, 'z, 'd) packetizer" where
  "note_switched flag s =
     (let s = s\<lparr>init_count := init_count s OR flag\<rparr>
      in if init_count s = 3 then s\<lparr>init_count := 0, pk_need_rekey := False\<rparr> else s)"

definition set_outbound_cipher ::
  "'e \<Rightarrow> int \<Rightarrow> 'd option \<Rightarrow> int \<Rightarrow> bytes option \<Rightarrow> bool \<Rightarrow> bool \<Rightarrow> bool \<Rightarrow> bytes option
   \<Rightarrow> ('e, 'z, 'd) packetizer \<Rightarrow> ('e, 'z, 'd) packetizer" where
  "set_outbound_cipher block_engine block_size mac_engine mac_size mac_key sdctr etm aead iv s =
     note_switched 1 (s\<lparr>block_engine_out := Some block_engine, sdctr_out := sdctr,
       block_size_out := block_size, mac_engine_out := mac_engine, mac_size_out := mac_size,
       mac_key_out := mac_key, sent_bytes := 0, sent_packets := 0,
       etm_out := etm, aead_out := aead, iv_out := iv\<rparr>)"

definition set_inbound_cipher ::
  "'e \<Rightarrow> int \<Rightarrow> 'd option \<Rightarrow> int \<Rightarrow> bytes option \<Rightarrow> bool \<Rightarrow> bool \<Rightarrow> bytes option
   \<Rightarrow> ('e, 'z, 'd) packetizer \<Rightarrow> ('e, 'z, 'd) packetizer" where
  "set_inbound_cipher block_engine block_size mac_engine mac_size mac_key etm aead iv s =
     note_switched 2 (s\<lparr>block_engine_in := Some block_engine, block_size_in := block_size,
       mac_engine_in := mac_engine, mac_size_in := mac_size, mac_key_in := mac_key,
       received_bytes := 0, received_packets := 0,
       received_bytes_overflow := 0, received_packets_overflow := 0,
       etm_in := etm, aead_in := aead, iv_in := iv\<rparr>)"

definition set_outbound_compressor :: "'z \<Rightarrow> ('e, 'z, 'd) packetizer \<Rightarrow> ('e, 'z, 'd) packetizer" where
  "set_outbound_compressor z s = s\<lparr>compress_engine_out := Some z\<rparr>"

definition set_inbound_compressor :: "'z \<Rightarrow> ('e, 'z, 'd) packetizer \<Rightarrow> ('e, 'z, 'd) packetizer" where
  "set_inbound_compressor z s = s\<lparr>compress_engine_in := Some z\<rparr>"

definition close_packetizer :: "('e, 'z, 'd) packetizer \<Rightarrow> ('e, 'z, 'd) packetizer" where
  "close_packetizer s = s\<lparr>pk_closed := True\<rparr>"

definition need_rekey :: "('e, 'z, 'd) packetizer \<Rightarrow> bool" where
  "need_rekey s = pk_need_rekey s"

definition set_keepalive :: "int \<Rightarrow> ('e, 'z, 'd) packetizer \<Rightarrow> ('e, 'z, 'd) packetizer" where
  "set_keepalive interval s = s\<lparr>keepalive_interval := interval, keepalive_last := clock s\<rparr>"

definition read_timer :: "('e, 'z, 'd) packetizer \<Rightarrow> ('e, 'z, 'd) packetizer" where
  "read_timer s = s\<lparr>timer_expired := True\<rparr>"

definition start_handshake :: "('e, 'z, 'd) packetizer \<Rightarrow> ('e, 'z, 'd) packetizer" where
  "start_handshake s = (if \<not> timer s then s\<lparr>timer := True\<rparr> else s)"

definition handshake_timed_out :: "('e, 'z, 'd) packetizer \<Rightarrow> bool" where
  "handshake_timed_out s =
     (if \<not> timer s then False else if handshake_complete s then False else timer_expired s)"

definition complete_handshake :: "('e, 'z, 'd) packetizer \<Rightarrow> ('e, 'z, 'd) packetizer" where
  "complete_handshake s =
     (if timer s then s\<lparr>timer_expired := False, handshake_complete := True\<rparr> else s)"

definition trigger_rekey :: "('e, 'z, 'd) packetizer \<Rightarrow> ('e, 'z, 'd) packetizer" where
  "trigger_rekey s = s\<lparr>pk_need_rekey := True\<rparr>"

section \<open>The socket\<close>

text \<open>\<^verbatim>\<open>_check_keepalive\<close>; the callback's calls are recorded with their time.\<close>

definition check_keepalive :: "int \<Rightarrow> ('e, 'z, 'd) packetizer \<Rightarrow> ('e, 'z, 'd) packetizer" where
  "check_keepalive now s =
     (if keepalive_interval s = 0 \<or> block_engine_out s = None \<or> pk_need_rekey s then s
      else if now > keepalive_last s + keepalive_interval s
      then s\<lparr>keepalive_calls := keepalive_calls s @ [now], keepalive_last := now\<rparr> else s)"

text \<open>The part of the loop of \<^verbatim>\<open>read_all\<close> after a timeout: an exception, or the state to go on
  from.\<close>

definition after_timeout ::
  "bool \<Rightarrow> bytes \<Rightarrow> int \<Rightarrow> ('e, 'z, 'd) packetizer \<Rightarrow> py_error + ('e, 'z, 'd) packetizer" where
  "after_timeout check_rekey out now s =
     (if pk_closed s then Inl EOFError
      else if check_rekey \<and> length out = 0 \<and> pk_need_rekey s then Inl NeedRekeyException
      else Inr (check_keepalive now (s\<lparr>clock := now\<rparr>)))"

text \<open>The loop of \<^verbatim>\<open>read_all\<close>. \<^verbatim>\<open>recv(n)\<close> returns at most \<open>n\<close> bytes and leaves the rest of
  a larger chunk in the socket.\<close>

fun read_loop ::
  "bool \<Rightarrow> int \<Rightarrow> bytes \<Rightarrow> recv_event list \<Rightarrow> ('e, 'z, 'd) packetizer
   \<Rightarrow> bytes blocking \<times> ('e, 'z, 'd) packetizer" where
  "read_loop check_rekey n out [] s =
     (if n \<le> 0 then (Done (Inr out), s\<lparr>sock_in := []\<rparr>)
      else if handshake_timed_out s then (Done (Inl EOFError), s\<lparr>sock_in := []\<rparr>)
      else (Waiting, s\<lparr>sock_in := []\<rparr>))"
| "read_loop check_rekey n out (ev # evs) s =
     (if n \<le> 0 then (Done (Inr out), s\<lparr>sock_in := ev # evs\<rparr>)
      else if handshake_timed_out s then (Done (Inl EOFError), s\<lparr>sock_in := ev # evs\<rparr>)
      else case ev of
        RData x \<Rightarrow>
          (if length x = 0 then (Done (Inl EOFError), s\<lparr>sock_in := evs\<rparr>)
           else if int (length x) \<le> n then read_loop check_rekey (n - int (length x)) (out @ x) evs s
           else (Done (Inr (out @ take (nat n) x)), s\<lparr>sock_in := RData (drop (nat n) x) # evs\<rparr>))
      | RTimeout now \<Rightarrow>
          (case after_timeout check_rekey out now s of
             Inl e \<Rightarrow> (Done (Inl e), s\<lparr>sock_in := evs\<rparr>)
           | Inr s' \<Rightarrow> read_loop check_rekey n out evs s')
      | REagain now \<Rightarrow>
          (case after_timeout check_rekey out now s of
             Inl e \<Rightarrow> (Done (Inl e), s\<lparr>sock_in := evs\<rparr>)
           | Inr s' \<Rightarrow> read_loop check_rekey n out evs s')
      | RError \<Rightarrow>
          (if pk_closed s then (Done (Inl EOFError), s\<lparr>sock_in := evs\<rparr>)
           else (Done (Inl (SocketError ''recv'')), s\<lparr>sock_in := evs\<rparr>))
      | RTimerFires \<Rightarrow> read_loop check_rekey n out evs (read_timer s)
      | RClosedByOther \<Rightarrow> read_loop check_rekey n out evs (close_packetizer s)
      | RRekeyByOther \<Rightarrow> read_loop check_rekey n out evs (trigger_rekey s))"

definition read_all :: "int \<Rightarrow> bool \<Rightarrow> (('e, 'z, 'd) packetizer, bytes) bpy" where
  "read_all n check_rekey s =
     (if length (remainder s) > 0 then
        (let out = slice_to n (remainder s);
             s' = s\<lparr>remainder := slice_from n (remainder s)\<rparr>
         in read_loop check_rekey (n - int (length out)) out (sock_in s') s')
      else read_loop check_rekey n [] (sock_in s) s)"

text \<open>The loop of \<^verbatim>\<open>write_all\<close>; \<open>iteration\<close> is the counter
  \<^verbatim>\<open>iteration_with_zero_as_return_value\<close>, which every send that is not retried advances.\<close>

fun write_loop ::
  "bytes \<Rightarrow> nat \<Rightarrow> send_event list \<Rightarrow> ('e, 'z, 'd) packetizer \<Rightarrow> unit blocking \<times> ('e, 'z, 'd) packetizer" where
  "write_loop out iteration [] s =
     (if length out > 0 then (Waiting, s\<lparr>sock_script := []\<rparr>)
      else (Done (Inr ()), s\<lparr>sock_script := []\<rparr>))"
| "write_loop out iteration (ev # evs) s =
     (if length out > 0 then
        (case ev of
           SSent n \<Rightarrow>
             (if n = 0 \<and> iteration > 10 then (Done (Inl EOFError), s\<lparr>sock_script := evs\<rparr>)
              else (let s' = s\<lparr>sock_out := sock_out s @ take n out\<rparr> in
                    if n = length out then (Done (Inr ()), s'\<lparr>sock_script := evs\<rparr>)
                    else write_loop (drop n out) (Suc iteration) evs s'))
         | STimeout \<Rightarrow>
             (if pk_closed s then (Done (Inl EOFError), s\<lparr>sock_script := evs\<rparr>)
              else write_loop out iteration evs s)
         | SEagain \<Rightarrow>
             (if pk_closed s then (Done (Inl EOFError), s\<lparr>sock_script := evs\<rparr>)
              else write_loop out iteration evs s)
         | SError \<Rightarrow> (Done (Inl EOFError), s\<lparr>sock_script := evs\<rparr>)
         | SProxyFailure \<Rightarrow> (Done (Inl ProxyCommandFailure), s\<lparr>sock_script := evs\<rparr>)
         | SOther \<Rightarrow> (Done (Inl EOFError), s\<lparr>sock_script := evs\<rparr>)
         | SClosedByOther \<Rightarrow> write_loop out iteration evs (close_packetizer s))
      else (Done (Inr ()), s\<lparr>sock_script := ev # evs\<rparr>))"

definition write_all :: "bytes \<Rightarrow> (('e, 'z, 'd) packetizer, unit) bpy" where
  "write_all out s = write_loop out 0 (sock_script s) (s\<lparr>keepalive_last := clock s\<rparr>)"

text \<open>\<^verbatim>\<open>_read_timeout\<close>: one \<^verbatim>\<open>recv(128)\<close>, retried until \<open>timeout\<close> after \<open>start\<close>.\<close>

fun read_timeout_loop ::
  "int \<Rightarrow> int \<Rightarrow> recv_event list \<Rightarrow> ('e, 'z, 'd) packetizer
   \<Rightarrow> bytes blocking \<times> ('e, 'z, 'd) packetizer" where
  "read_timeout_loop start timeout [] s = (Waiting, s\<lparr>sock_in := []\<rparr>)"
| "read_timeout_loop start timeout (ev # evs) s =
     (case ev of
        RData x \<Rightarrow>
          (if length x = 0 then (Done (Inl EOFError), s\<lparr>sock_in := evs\<rparr>)
           else if length x \<le> 128 then (Done (Inr x), s\<lparr>sock_in := evs\<rparr>)
           else (Done (Inr (take 128 x)), s\<lparr>sock_in := RData (drop 128 x) # evs\<rparr>))
      | RTimeout now \<Rightarrow>
          (if pk_closed s then (Done (Inl EOFError), s\<lparr>sock_in := evs, clock := now\<rparr>)
           else if now - start \<ge> timeout then (Done (Inl SocketTimeout), s\<lparr>sock_in := evs, clock := now\<rparr>)
           else read_timeout_loop start timeout evs (s\<lparr>clock := now\<rparr>))
      | REagain now \<Rightarrow> (Done (Inl (SocketError ''EAGAIN'')), s\<lparr>sock_in := evs, clock := now\<rparr>)
      | RError \<Rightarrow> (Done (Inl (SocketError ''recv'')), s\<lparr>sock_in := evs\<rparr>)
      | RTimerFires \<Rightarrow> read_timeout_loop start timeout evs (read_timer s)
      | RClosedByOther \<Rightarrow> read_timeout_loop start timeout evs (close_packetizer s)
      | RRekeyByOther \<Rightarrow> read_timeout_loop start timeout evs (trigger_rekey s))"

definition read_timeout :: "int \<Rightarrow> (('e, 'z, 'd) packetizer, bytes) bpy" where
  "read_timeout timeout s = read_timeout_loop (clock s) timeout (sock_in s) s"

text \<open>What is left in the socket: the measure of the loop of \<^verbatim>\<open>readline\<close>.\<close>

fun event_size :: "recv_event \<Rightarrow> nat" where
  "event_size (RData x) = Suc (length x)"
| "event_size _ = 1"

definition sock_size :: "('e, 'z, 'd) packetizer \<Rightarrow> nat" where
  "sock_size s = sum_list (map event_size (sock_in s))"

lemma read_timeout_loop_size:
  "read_timeout_loop start timeout evs s = (Done (Inr x), s') \<Longrightarrow>
   sock_size s' < sum_list (map event_size evs)"
proof (induction start timeout evs s rule: read_timeout_loop.induct)
  case (1 start timeout s)
  then show ?case by simp
next
  case (2 start timeout ev evs s)
  then show ?case
    by (cases ev) (auto simp: sock_size_def split: if_splits)
qed

text \<open>The loop of \<^verbatim>\<open>readline\<close>: it reads until there is a line feed in the buffer.\<close>

function readline_loop :: "int \<Rightarrow> bytes \<Rightarrow> (('e, 'z, 'd) packetizer, bytes) bpy" where
  "readline_loop timeout buf s =
     (if 10 \<in> set buf then (Done (Inr buf), s)
      else case read_timeout timeout s of
        (Waiting, s') \<Rightarrow> (Waiting, s')
      | (Done (Inl e), s') \<Rightarrow> (Done (Inl e), s')
      | (Done (Inr x), s') \<Rightarrow> readline_loop timeout (buf @ x) s')"
  by pat_completeness auto
termination
proof (relation "measure (\<lambda>(timeout, buf, s). sock_size s)", simp, goal_cases)
  case (1 timeout buf s y s' r x)
  then have "read_timeout_loop (clock s) timeout (sock_in s) s = (Done (Inr x), s')"
    by (metis read_timeout_def)
  from read_timeout_loop_size [OF this] show ?case by (simp add: sock_size_def)
qed

declare readline_loop.simps [simp del]

definition readline :: "int \<Rightarrow> (('e, 'z, 'd) packetizer, pystr) bpy" where
  "readline timeout =
     bbind (bget remainder) (\<lambda>r.
     bbind (readline_loop timeout r) (\<lambda>buf.
     let n = length (takeWhile (\<lambda>b. b \<noteq> 10) buf) in
     bbind (bmodify (\<lambda>s. s\<lparr>remainder := drop (Suc n) buf\<rparr>)) (\<lambda>_.
     let buf = take n buf;
         buf = (if length buf > 0 \<and> last buf = 13 then butlast buf else buf)
     in blift (utf8_decode buf))))"

section \<open>Packets\<close>

definition compute_hmac ::
  "('e, 'z, 'd) crypto \<Rightarrow> bytes option \<Rightarrow> bytes \<Rightarrow> 'd option \<Rightarrow> py_error + bytes" where
  "compute_hmac c key msg digest_class =
     (case (key, digest_class) of (Some k, Some d) \<Rightarrow> Inr (hmac c k msg d) | _ \<Rightarrow> Inl TypeError)"

text \<open>\<^verbatim>\<open>iv[4:]\<close> as a number, plus one; \<^verbatim>\<open>to_bytes(8)\<close> raises when it does not fit.\<close>

definition inc_iv_counter :: "bytes \<Rightarrow> py_error + bytes" where
  "inc_iv_counter iv =
     (let inc_iv_counter = be_dec (slice_from 4 iv) + 1
      in if inc_iv_counter < 256 ^ 8 then Inr (slice 0 4 iv @ be_enc 8 inc_iv_counter)
         else Inl OverflowError)"

definition inc_iv_opt :: "bytes option \<Rightarrow> py_error + bytes option" where
  "inc_iv_opt iv = (case iv of
     None \<Rightarrow> Inl TypeError
   | Some v \<Rightarrow> rbind (inc_iv_counter v) (\<lambda>v'. Inr (Some v')))"

text \<open>\<open>rnd n\<close> is what \<^verbatim>\<open>os.urandom(n)\<close> returns.\<close>

definition build_packet ::
  "(nat \<Rightarrow> bytes) \<Rightarrow> bytes \<Rightarrow> ('e, 'z, 'd) packetizer \<Rightarrow> py_error + bytes" where
  "build_packet rnd payload s =
     (let bsize = block_size_out s;
          addlen = (if etm_out s \<or> aead_out s then 4 else 8);
          padding = 3 + bsize - ((int (length payload) + addlen) mod bsize)
      in rbind (struct_pack 4 (int (length payload) + padding + 1)) (\<lambda>len.
         rbind (struct_pack 1 padding) (\<lambda>pad.
         Inr (len @ pad @ payload @
              (if sdctr_out s \<or> block_engine_out s = None then replicate (nat padding) 0
               else rnd (nat padding))))))"

subsection \<open>Sending\<close>

definition compress_out :: "('e, 'z, 'd) crypto \<Rightarrow> bytes \<Rightarrow> (('e, 'z, 'd) packetizer, bytes) bpy" where
  "compress_out c data =
     bbind (bget compress_engine_out) (\<lambda>z. case z of
       None \<Rightarrow> bret data
     | Some z \<Rightarrow>
         (let (data', z') = compressor c z data in
          bbind (bmodify (\<lambda>s. s\<lparr>compress_engine_out := Some z'\<rparr>)) (\<lambda>_. bret data')))"

definition encrypt_packet :: "('e, 'z, 'd) crypto \<Rightarrow> bytes \<Rightarrow> (('e, 'z, 'd) packetizer, bytes) bpy" where
  "encrypt_packet c packet s =
     (case block_engine_out s of
        None \<Rightarrow> bret packet s
      | Some e \<Rightarrow>
          if etm_out s then
            (let (ct, e') = cipher_update c e (slice_from 4 packet)
             in bret (slice 0 4 packet @ ct) (s\<lparr>block_engine_out := Some e'\<rparr>))
          else if aead_out s then
            (case iv_out s of
               None \<Rightarrow> braise TypeError s
             | Some iv \<Rightarrow>
                 (let out = slice 0 4 packet @ aead_encrypt c e iv (slice_from 4 packet) (slice 0 4 packet)
                  in bbind (blift (inc_iv_counter iv)) (\<lambda>iv'.
                     bbind (bmodify (\<lambda>s. s\<lparr>iv_out := Some iv'\<rparr>)) (\<lambda>_.
                     bret out)) s))
          else
            (let (ct, e') = cipher_update c e packet
             in bret ct (s\<lparr>block_engine_out := Some e'\<rparr>)))"

definition append_mac ::
  "('e, 'z, 'd) crypto \<Rightarrow> bytes \<Rightarrow> bytes \<Rightarrow> (('e, 'z, 'd) packetizer, bytes) bpy" where
  "append_mac c packet out s =
     (if block_engine_out s \<noteq> None \<and> \<not> aead_out s then
        bbind (blift (struct_pack 4 (sequence_number_out s))) (\<lambda>packed.
        bbind (blift (compute_hmac c (mac_key_out s)
                       (packed @ (if etm_out s then out else packet)) (mac_engine_out s))) (\<lambda>mac.
        bret (out @ slice_to (mac_size_out s) mac))) s
      else bret out s)"

definition next_seqno :: "int \<Rightarrow> int" where
  "next_seqno n = (n + 1) AND 0xFFFFFFFF"

definition advance_seqno_out :: "(('e, 'z, 'd) packetizer, unit) bpy" where
  "advance_seqno_out s =
     (let next_seq = next_seqno (sequence_number_out s) in
      if next_seq = 0 \<and> \<not> pk_initial_kex_done s
      then braise (SSHException ''Sequence number rolled over during initial kex!'') s
      else bret () (s\<lparr>sequence_number_out := next_seq\<rparr>))"

definition count_sent :: "int \<Rightarrow> (('e, 'z, 'd) packetizer, unit) bpy" where
  "count_sent n s =
     (let s = s\<lparr>sent_bytes := sent_bytes s + n, sent_packets := sent_packets s + 1\<rparr>;
          sent_too_much = (sent_packets s \<ge> REKEY_PACKETS \<or> sent_bytes s \<ge> REKEY_BYTES)
      in bret () (if sent_too_much \<and> \<not> pk_need_rekey s
                  then trigger_rekey (s\<lparr>received_bytes_overflow := 0, received_packets_overflow := 0\<rparr>)
                  else s))"

definition send_message ::
  "('e, 'z, 'd) crypto \<Rightarrow> (nat \<Rightarrow> bytes) \<Rightarrow> bytes \<Rightarrow> (('e, 'z, 'd) packetizer, unit) bpy" where
  "send_message c rnd data =
     (if data = [] then braise IndexError
      else
        bbind (compress_out c data) (\<lambda>data.
        bbind (\<lambda>s. blift (build_packet rnd data s) s) (\<lambda>packet.
        bbind (encrypt_packet c packet) (\<lambda>out.
        bbind (append_mac c packet out) (\<lambda>out.
        bbind advance_seqno_out (\<lambda>_.
        bbind (write_all out) (\<lambda>_.
        count_sent (int (length out)))))))))"

subsection \<open>Receiving\<close>

definition check_mac ::
  "('e, 'z, 'd) crypto \<Rightarrow> int \<Rightarrow> bytes \<Rightarrow> bytes \<Rightarrow> (('e, 'z, 'd) packetizer, unit) bpy" where
  "check_mac c packet_size packet mac s =
     bbind (blift (rbind (struct_pack 4 (sequence_number_in s)) (\<lambda>a.
                   rbind (struct_pack 4 packet_size) (\<lambda>b. Inr (a @ b @ packet))))) (\<lambda>mac_payload.
     bbind (blift (compute_hmac c (mac_key_in s) mac_payload (mac_engine_in s))) (\<lambda>my_mac.
     if \<not> constant_time_bytes_eq (slice_to (mac_size_in s) my_mac) mac
     then braise (SSHException ''Mismatched MAC'') else bret ())) s"

text \<open>Each of the following takes \<^verbatim>\<open>header\<close> and \<^verbatim>\<open>packet_size\<close> as the preceding part of
  \<^verbatim>\<open>read_message\<close> left them.\<close>

definition read_etm ::
  "('e, 'z, 'd) crypto \<Rightarrow> bytes \<Rightarrow> (('e, 'z, 'd) packetizer, bytes \<times> int) bpy" where
  "read_etm c header s =
     (if etm_in s then
        bbind (blift (struct_unpack 4 (slice_to 4 header))) (\<lambda>packet_size.
        bbind (read_all (packet_size - block_size_in s + 4) False) (\<lambda>rest.
        let packet = slice_from 4 header @ rest in
        bbind (read_all (mac_size_in s) False) (\<lambda>mac.
        bbind (check_mac c packet_size packet mac) (\<lambda>_.
        bret (packet, packet_size))))) s
      else bret (header, 0) s)"

definition read_aead ::
  "('e, 'z, 'd) crypto \<Rightarrow> bytes \<times> int \<Rightarrow> (('e, 'z, 'd) packetizer, bytes \<times> int) bpy" where
  "read_aead c hp s =
     (let header = fst hp in
      if aead_in s then
        bbind (blift (struct_unpack 4 (slice_to 4 header))) (\<lambda>packet_size.
        let aad = slice_to 4 header in
        bbind (read_all (packet_size - block_size_in s + 4 + mac_size_in s) False) (\<lambda>rest.
        let packet = slice_from 4 header @ rest in
        bbind (blift (case (block_engine_in s, iv_in s) of
                        (Some e, Some iv) \<Rightarrow> aead_decrypt c e iv packet aad
                      | _ \<Rightarrow> Inl TypeError)) (\<lambda>header.
        bbind (blift (inc_iv_opt (iv_in s))) (\<lambda>iv'.
        bbind (bmodify (\<lambda>s. s\<lparr>iv_in := iv'\<rparr>)) (\<lambda>_.
        bret (header, packet_size)))))) s
      else bret hp s)"

definition decrypt_in :: "('e, 'z, 'd) crypto \<Rightarrow> bytes \<Rightarrow> (('e, 'z, 'd) packetizer, bytes) bpy" where
  "decrypt_in c data s =
     (case block_engine_in s of
        None \<Rightarrow> bret data s
      | Some e \<Rightarrow> (let (pt, e') = cipher_update c e data in bret pt (s\<lparr>block_engine_in := Some e'\<rparr>)))"

definition decrypt_header ::
  "('e, 'z, 'd) crypto \<Rightarrow> bytes \<Rightarrow> (('e, 'z, 'd) packetizer, bytes) bpy" where
  "decrypt_header c header s = (if \<not> aead_in s then decrypt_in c header s else bret header s)"

text \<open>\<^verbatim>\<open>the older non-ETM logic\<close>, then the MAC check of that mode: the packet, its size.\<close>

definition read_rest ::
  "('e, 'z, 'd) crypto \<Rightarrow> bytes \<Rightarrow> int \<Rightarrow> (('e, 'z, 'd) packetizer, bytes \<times> int) bpy" where
  "read_rest c header packet_size s =
     (if etm_in s \<or> aead_in s then bret (header, packet_size) s
      else
        bbind (blift (struct_unpack 4 (slice_to 4 header))) (\<lambda>packet_size.
        let leftover = slice_from 4 header;
            left = packet_size - int (length leftover) in
        if left mod block_size_in s \<noteq> 0 then braise (SSHException ''Invalid packet blocking'')
        else
          bbind (read_all (packet_size + mac_size_in s - int (length leftover)) False) (\<lambda>buf.
          let post_packet = slice_from left buf in
          bbind (decrypt_in c (slice_to left buf)) (\<lambda>packet.
          let packet = leftover @ packet in
          bbind (if mac_size_in s > 0
                 then check_mac c packet_size packet (slice_to (mac_size_in s) post_packet)
                 else bret ()) (\<lambda>_.
          bret (packet, packet_size))))) s)"

definition decompress_in :: "('e, 'z, 'd) crypto \<Rightarrow> bytes \<Rightarrow> (('e, 'z, 'd) packetizer, bytes) bpy" where
  "decompress_in c payload =
     bbind (bget compress_engine_in) (\<lambda>z. case z of
       None \<Rightarrow> bret payload
     | Some z \<Rightarrow>
         (let (p, z') = compressor c z payload in
          bbind (bmodify (\<lambda>s. s\<lparr>compress_engine_in := Some z'\<rparr>)) (\<lambda>_. bret p)))"

definition advance_seqno_in :: "(('e, 'z, 'd) packetizer, unit) bpy" where
  "advance_seqno_in s =
     (let next_seq = next_seqno (sequence_number_in s) in
      if next_seq = 0 \<and> \<not> pk_initial_kex_done s
      then braise (SSHException ''Sequence number rolled over during initial kex!'') s
      else bret () (s\<lparr>sequence_number_in := next_seq\<rparr>))"

definition count_received :: "int \<Rightarrow> (('e, 'z, 'd) packetizer, unit) bpy" where
  "count_received raw_packet_size s =
     (let s = s\<lparr>received_bytes := received_bytes s + raw_packet_size,
               received_packets := received_packets s + 1\<rparr>
      in if pk_need_rekey s then
           (let s = s\<lparr>received_bytes_overflow := received_bytes_overflow s + raw_packet_size,
                     received_packets_overflow := received_packets_overflow s + 1\<rparr>
            in if received_packets_overflow s \<ge> REKEY_PACKETS_OVERFLOW_MAX
                 \<or> received_bytes_overflow s \<ge> REKEY_BYTES_OVERFLOW_MAX
               then braise (SSHException ''Remote transport is ignoring rekey requests'') s
               else bret () s)
         else if received_packets s \<ge> REKEY_PACKETS \<or> received_bytes s \<ge> REKEY_BYTES
         then bret () (trigger_rekey (s\<lparr>received_bytes_overflow := 0, received_packets_overflow := 0\<rparr>))
         else bret () s)"

text \<open>\<^verbatim>\<open>read_message\<close> up to the MAC check: the packet without its length field, and its
  size.\<close>

definition read_packet ::
  "('e, 'z, 'd) crypto \<Rightarrow> (('e, 'z, 'd) packetizer, bytes \<times> int) bpy" where
  "read_packet c =
     bbind (\<lambda>s. read_all (block_size_in s) True s) (\<lambda>header.
     bbind (read_etm c header) (\<lambda>hp.
     bbind (read_aead c hp) (\<lambda>hp.
     bbind (decrypt_header c (fst hp)) (\<lambda>header.
     read_rest c header (snd hp)))))"

text \<open>The result: the command byte, the content of the \<^verbatim>\<open>Message\<close>, and its \<^verbatim>\<open>seqno\<close>.\<close>

definition read_message ::
  "('e, 'z, 'd) crypto \<Rightarrow> (('e, 'z, 'd) packetizer, byte \<times> bytes \<times> int) bpy" where
  "read_message c =
     bbind (read_packet c) (\<lambda>pp.
     let packet = fst pp; packet_size = snd pp in
     if packet = [] then braise IndexError
     else
       let padding = uint (hd packet);
           payload = slice 1 (packet_size - padding) packet in
       bbind (decompress_in c payload) (\<lambda>payload.
       bbind (bget sequence_number_in) (\<lambda>seqno.
       bbind advance_seqno_in (\<lambda>_.
       bbind (\<lambda>s. count_received (packet_size + mac_size_in s + 4) s) (\<lambda>_.
       if payload = [] then braise IndexError
       else bret (hd payload, slice_from 1 payload, seqno))))))"

section \<open>The byte stream\<close>

fun ev_data :: "recv_event \<Rightarrow> bytes" where
  "ev_data (RData x) = x"
| "ev_data _ = []"

definition stream :: "recv_event list \<Rightarrow> bytes" where
  "stream evs = concat (map ev_data evs)"

text \<open>The bytes that a reader will see: those kept over from reading the banner, then those
  in the socket.\<close>

definition incoming :: "('e, 'z, 'd) packetizer \<Rightarrow> bytes" where
  "incoming s = remainder s @ stream (sock_in s)"

text \<open>The socket delivers data in arbitrary chunks, with any number of timeouts between
  them, and neither ends nor fails.\<close>

fun calm_event :: "recv_event \<Rightarrow> bool" where
  "calm_event (RData x) = (x \<noteq> [])"
| "calm_event (RTimeout n) = True"
| "calm_event (REagain n) = True"
| "calm_event _ = False"

definition calm :: "('e, 'z, 'd) packetizer \<Rightarrow> bool" where
  "calm s \<longleftrightarrow> list_all calm_event (sock_in s) \<and> \<not> pk_closed s \<and> \<not> handshake_timed_out s"

text \<open>What a successful read may change: the socket, the kept bytes, the clock and the
  keepalive bookkeeping.\<close>

definition no_io :: "('e, 'z, 'd) packetizer \<Rightarrow> ('e, 'z, 'd) packetizer" where
  "no_io s = s\<lparr>sock_in := [], remainder := [], clock := 0, keepalive_last := 0, keepalive_calls := []\<rparr>"

definition same_link :: "('e, 'z, 'd) packetizer \<Rightarrow> ('e, 'z, 'd) packetizer \<Rightarrow> bool" where
  "same_link s s' \<longleftrightarrow> no_io s' = no_io s"

lemma same_link_refl [simp]: "same_link s s"
  by (simp add: same_link_def)

lemma same_link_trans: "same_link s t \<Longrightarrow> same_link t u \<Longrightarrow> same_link s u"
  by (simp add: same_link_def)

lemma no_io_update:
  "no_io (s\<lparr>sock_in := a\<rparr>) = no_io s" "no_io (s\<lparr>remainder := b\<rparr>) = no_io s"
  "no_io (s\<lparr>clock := n\<rparr>) = no_io s"
  "no_io (s\<lparr>keepalive_calls := l, keepalive_last := n\<rparr>) = no_io s"
  by (simp_all add: no_io_def)

lemma same_link_fields:
  assumes "same_link s s'"
  shows "pk_closed s' = pk_closed s" "pk_need_rekey s' = pk_need_rekey s"
    "pk_initial_kex_done s' = pk_initial_kex_done s"
    "block_size_in s' = block_size_in s" "mac_size_in s' = mac_size_in s"
    "block_engine_in s' = block_engine_in s" "mac_engine_in s' = mac_engine_in s"
    "mac_key_in s' = mac_key_in s" "compress_engine_in s' = compress_engine_in s"
    "sequence_number_in s' = sequence_number_in s" "etm_in s' = etm_in s"
    "aead_in s' = aead_in s" "iv_in s' = iv_in s" "timer s' = timer s"
    "handshake_complete s' = handshake_complete s" "timer_expired s' = timer_expired s"
proof -
  have eq: "no_io s' = no_io s" using assms by (simp add: same_link_def)
  show "pk_closed s' = pk_closed s" "pk_need_rekey s' = pk_need_rekey s"
    "pk_initial_kex_done s' = pk_initial_kex_done s"
    "block_size_in s' = block_size_in s" "mac_size_in s' = mac_size_in s"
    "block_engine_in s' = block_engine_in s" "mac_engine_in s' = mac_engine_in s"
    "mac_key_in s' = mac_key_in s" "compress_engine_in s' = compress_engine_in s"
    "sequence_number_in s' = sequence_number_in s" "etm_in s' = etm_in s"
    "aead_in s' = aead_in s" "iv_in s' = iv_in s" "timer s' = timer s"
    "handshake_complete s' = handshake_complete s" "timer_expired s' = timer_expired s"
    using arg_cong [OF eq, of pk_closed] arg_cong [OF eq, of pk_need_rekey]
      arg_cong [OF eq, of pk_initial_kex_done] arg_cong [OF eq, of block_size_in]
      arg_cong [OF eq, of mac_size_in] arg_cong [OF eq, of block_engine_in]
      arg_cong [OF eq, of mac_engine_in] arg_cong [OF eq, of mac_key_in]
      arg_cong [OF eq, of compress_engine_in] arg_cong [OF eq, of sequence_number_in]
      arg_cong [OF eq, of etm_in] arg_cong [OF eq, of aead_in] arg_cong [OF eq, of iv_in]
      arg_cong [OF eq, of timer] arg_cong [OF eq, of handshake_complete]
      arg_cong [OF eq, of timer_expired]
    by (simp_all add: no_io_def)
qed

lemma check_keepalive_no_io: "no_io (check_keepalive now s) = no_io s"
  by (simp add: check_keepalive_def no_io_update)

lemma check_keepalive_sock [simp]:
  "sock_in (check_keepalive now s) = sock_in s" "remainder (check_keepalive now s) = remainder s"
  by (simp_all add: check_keepalive_def)

lemma timed_out_same_link: "same_link s s' \<Longrightarrow> handshake_timed_out s' = handshake_timed_out s"
  by (simp add: handshake_timed_out_def same_link_fields)

lemma stream_simps [simp]:
  "stream [] = []" "stream (RData x # evs) = x @ stream evs"
  "stream (RTimeout n # evs) = stream evs" "stream (REagain n # evs) = stream evs"
  by (simp_all add: stream_def)

lemma after_timeout_calm:
  assumes "\<not> pk_closed s" "\<not> (check_rekey \<and> pk_need_rekey s)"
  shows "\<exists>s'. after_timeout check_rekey out now s = Inr s' \<and> same_link s s' \<and> remainder s' = remainder s"
  using assms by (simp add: after_timeout_def same_link_def check_keepalive_no_io no_io_update)

lemma read_loop_calm:
  assumes "list_all calm_event evs" "\<not> pk_closed s" "\<not> handshake_timed_out s"
    "\<not> (check_rekey \<and> pk_need_rekey s)" "0 \<le> n" "n \<le> int (length (stream evs))"
  shows "\<exists>s'. read_loop check_rekey n out evs s = (Done (Inr (out @ take (nat n) (stream evs))), s')
    \<and> same_link s s' \<and> remainder s' = remainder s
    \<and> list_all calm_event (sock_in s') \<and> stream (sock_in s') = drop (nat n) (stream evs)"
  using assms
proof (induction evs arbitrary: n out s)
  case Nil
  then show ?case by (simp add: same_link_def no_io_update)
next
  case (Cons ev evs)
  show ?case
  proof (cases "n = 0")
    case True
    then show ?thesis using Cons.prems by (simp add: same_link_def no_io_update)
  next
    case False
    then have n: "0 < n" using Cons.prems by simp
    have wait: ?thesis if ev: "ev = RTimeout now \<or> ev = REagain now" for now
    proof -
      obtain s1 where s1: "after_timeout check_rekey out now s = Inr s1" "same_link s s1"
        "remainder s1 = remainder s" using after_timeout_calm Cons.prems by blast
      have "\<not> pk_closed s1" "\<not> handshake_timed_out s1" "\<not> (check_rekey \<and> pk_need_rekey s1)"
        using Cons.prems s1(2) by (auto simp: timed_out_same_link same_link_fields)
      moreover have "list_all calm_event evs" "stream (ev # evs) = stream evs"
        using Cons.prems ev by auto
      ultimately obtain s' where
        "read_loop check_rekey n out evs s1 = (Done (Inr (out @ take (nat n) (stream evs))), s')"
        "same_link s1 s'" "remainder s' = remainder s1" "list_all calm_event (sock_in s')"
        "stream (sock_in s') = drop (nat n) (stream evs)"
        using Cons.IH [of s1 n out] Cons.prems by auto
      with s1 ev n Cons.prems(3) \<open>stream (ev # evs) = stream evs\<close> show ?thesis
        by (auto intro: same_link_trans)
    qed
    show ?thesis
    proof (cases ev)
      case (RData x)
      show ?thesis
      proof (cases "int (length x) \<le> n")
        case True
        with Cons.prems RData have "\<exists>s'. read_loop check_rekey (n - int (length x)) (out @ x) evs s
            = (Done (Inr ((out @ x) @ take (nat (n - int (length x))) (stream evs))), s')
          \<and> same_link s s' \<and> remainder s' = remainder s \<and> list_all calm_event (sock_in s')
          \<and> stream (sock_in s') = drop (nat (n - int (length x))) (stream evs)"
          by (intro Cons.IH) auto
        moreover have "nat (n - int (length x)) = nat n - length x" "length x \<le> nat n"
          using True by auto
        ultimately show ?thesis
          using RData n True Cons.prems by auto
      next
        case False
        then show ?thesis
          using RData n Cons.prems by (auto simp: same_link_def no_io_update)
      qed
    qed (use wait Cons.prems in auto)
  qed
qed

lemma remainder_update_id: "remainder s = r \<Longrightarrow> s\<lparr>remainder := r\<rparr> = s"
  by (cases s) simp

lemma read_all_calm:
  assumes "calm s" "\<not> (check_rekey \<and> pk_need_rekey s)" "0 \<le> n" "n \<le> int (length (incoming s))"
  shows "\<exists>s'. read_all n check_rekey s = (Done (Inr (take (nat n) (incoming s))), s')
    \<and> incoming s' = drop (nat n) (incoming s) \<and> calm s' \<and> same_link s s'"
proof -
  let ?r = "remainder s"
  let ?out = "take (nat n) ?r"
  let ?s = "s\<lparr>remainder := drop (nat n) ?r\<rparr>"
  have eq: "read_all n check_rekey s = read_loop check_rekey (n - int (length ?out)) ?out (sock_in s) ?s"
    using assms(3) by (cases "?r = []") (simp_all add: read_all_def Let_def remainder_update_id)
  have k: "nat (n - int (length ?out)) = nat n - length ?r" by auto
  obtain s' where s': "read_loop check_rekey (n - int (length ?out)) ?out (sock_in s) ?s
      = (Done (Inr (?out @ take (nat (n - int (length ?out))) (stream (sock_in s)))), s')"
    "same_link ?s s'" "remainder s' = remainder ?s" "list_all calm_event (sock_in s')"
    "stream (sock_in s') = drop (nat (n - int (length ?out))) (stream (sock_in s))"
  proof -
    have "same_link s ?s" by (simp add: same_link_def no_io_update)
    then have "\<not> handshake_timed_out ?s"
      using assms(1) timed_out_same_link by (auto simp: calm_def)
    moreover have "0 \<le> n - int (length ?out)" "n - int (length ?out) \<le> int (length (stream (sock_in s)))"
      using assms(3,4) by (simp_all add: incoming_def)
    ultimately show ?thesis
      using read_loop_calm [of "sock_in s" ?s check_rekey "n - int (length ?out)" ?out] assms(1,2) that
      by (simp add: calm_def) blast
  qed
  have "same_link s s'"
    using s'(2) by (simp add: same_link_def no_io_update)
  moreover from this have "calm s'"
    using assms(1) s'(4) by (simp add: calm_def timed_out_same_link same_link_fields)
  moreover have "incoming s' = drop (nat n) (incoming s)"
    using s'(3,5) k by (simp add: incoming_def)
  ultimately show ?thesis
    using eq s'(1) k by (simp add: incoming_def)
qed

text \<open>However the network cuts the stream into pieces and however many timeouts there
  are in between, \<^verbatim>\<open>read_all\<close> returns exactly the next \<open>n\<close> bytes and leaves the rest.\<close>

theorem read_all_exact:
  assumes "calm s" "\<not> (check_rekey \<and> pk_need_rekey s)" "0 \<le> n" "n \<le> int (length (incoming s))"
  shows "\<exists>s'. read_all n check_rekey s = (Done (Inr (take (nat n) (incoming s))), s')
    \<and> incoming s' = drop (nat n) (incoming s) \<and> calm s' \<and> same_link s s'"
  using assms by (rule read_all_calm)

theorem read_all_exact_witness:
  "\<exists>s'. read_all 3 True (Packetizer_init [RData [1, 2], RTimeout 5, RData [3, 4]] [] 0 :: (byte, unit, unit) packetizer)
     = (Done (Inr [1, 2, 3]), s') \<and> incoming s' = [4]"
  using read_all_exact [of "Packetizer_init [RData [1, 2], RTimeout 5, RData [3, 4]] [] 0 :: (byte, unit, unit) packetizer" True 3]
  by (auto simp: calm_def handshake_timed_out_def incoming_def Packetizer_init_def numeral_eq_Suc)

section \<open>Writing\<close>

lemma write_loop_written:
  "write_loop out i evs s = (Done (Inr ()), s') \<Longrightarrow>
   \<exists>sc cl. s' = s\<lparr>sock_script := sc, sock_out := sock_out s @ out, pk_closed := cl\<rparr>"
proof (induction out i evs s rule: write_loop.induct)
  case (1 out iteration s)
  then show ?case
    by (intro exI [of _ "[]"] exI [of _ "pk_closed s"]) (auto split: if_splits)
next
  case (2 out iteration ev evs s)
  show ?case
  proof (cases "out = []")
    case True
    with "2.prems" show ?thesis
      by (intro exI [of _ "ev # evs"] exI [of _ "pk_closed s"]) auto
  next
    case False
    show ?thesis
    proof (cases ev)
      case (SSent n)
      show ?thesis
      proof (cases "n = length out")
        case True
        with "2.prems" False SSent show ?thesis
          by (intro exI [of _ evs] exI [of _ "pk_closed s"]) (auto split: if_splits)
      next
        case n: False
        have "\<not> (n = 0 \<and> iteration > 10)" using "2.prems" False SSent by auto
        moreover have "take n out @ drop n out = out" by simp
        ultimately show ?thesis
          using "2.IH"(1) [of n "s\<lparr>sock_out := sock_out s @ take n out\<rparr>"] "2.prems" False SSent n
          by (auto simp: Let_def)
      qed
    next
      case STimeout
      with 2 False show ?thesis by (auto split: if_splits)
    next
      case SEagain
      with 2 False show ?thesis by (auto split: if_splits)
    next
      case SClosedByOther
      with "2.prems" False "2.IH"(4) show ?thesis by (auto simp: close_packetizer_def)
    qed (use "2.prems" False in auto)
  qed
qed

text \<open>When \<^verbatim>\<open>write_all\<close> returns, the socket has taken every byte, in order, and nothing
  else, however many partial sends, timeouts and retries it took.\<close>

theorem write_all_complete:
  assumes "write_all out s = (Done (Inr ()), s')"
  shows "sock_out s' = sock_out s @ out"
  using write_loop_written [OF assms [unfolded write_all_def]] by auto

theorem write_all_complete_witness:
  "sock_out (snd (write_all [1, 2, 3] (Packetizer_init [] [SSent 2, STimeout, SSent 1] 0 :: (byte, unit, unit) packetizer)))
     = [1, 2, 3]"
proof -
  let ?s = "Packetizer_init [] [SSent 2, STimeout, SSent 1] 0 :: (byte, unit, unit) packetizer"
  have "fst (write_all [1, 2, 3] ?s) = Done (Inr ())" by code_simp
  then have "write_all [1, 2, 3] ?s = (Done (Inr ()), snd (write_all [1, 2, 3] ?s))" by (metis prod.collapse)
  from write_all_complete [OF this] show ?thesis by (simp add: Packetizer_init_def)
qed

text \<open>The counter that is named for iterations with zero as return value counts every
  completed send: after eleven sends of one byte each, one zero result is taken for a dead
  connection.\<close>

theorem zero_send_after_progress:
  assumes "length out = 12" "\<not> pk_closed s" "sock_script s = replicate 11 (SSent 1) @ SSent 0 # SSent 1 # sc"
  shows "fst (write_all out s) = Done (Inl EOFError)"
proof -
  obtain a b c d e f g h i j k l where "out = [a, b, c, d, e, f, g, h, i, j, k, l]"
    using assms(1) by (auto simp: numeral_eq_Suc length_Suc_conv)
  then show ?thesis
    using assms(3) by (simp add: write_all_def eval_nat_numeral)
qed

theorem zero_send_after_progress_witness:
  "fst (write_all (replicate 12 7)
     (Packetizer_init [] (replicate 11 (SSent 1) @ [SSent 0, SSent 1]) 0 :: (byte, unit, unit) packetizer))
   = Done (Inl EOFError)"
  by (rule zero_send_after_progress [where sc = "[]"]) (simp_all add: Packetizer_init_def)

section \<open>Framing\<close>

lemma mod_pad:
  fixes n b :: int
  assumes "0 < b"
  shows "(n + (3 + b - (n + 4) mod b) + 1) mod b = 0" "4 \<le> 3 + b - (n + 4) mod b" "3 + b - (n + 4) mod b \<le> 3 + b"
proof -
  have "n + (3 + b - (n + 4) mod b) + 1 = b * ((n + 4) div b + 1)"
    by (simp add: minus_mod_eq_mult_div [symmetric] algebra_simps)
  then show "(n + (3 + b - (n + 4) mod b) + 1) mod b = 0" by simp
  show "4 \<le> 3 + b - (n + 4) mod b" using pos_mod_bound [OF assms, of "n + 4"] by simp
  show "3 + b - (n + 4) mod b \<le> 3 + b" using assms by simp
qed

text \<open>The shape of a packet.\<close>

definition is_frame :: "int \<Rightarrow> bytes \<Rightarrow> int \<Rightarrow> bytes \<Rightarrow> bool" where
  "is_frame len payload p pkt \<longleftrightarrow>
     (\<exists>pad. pkt = be_enc 4 len @ [word_of_int p] @ payload @ pad
        \<and> length pad = nat p \<and> len = int (length payload) + p + 1 \<and> 4 \<le> p \<and> p < 256 \<and> len < 2 ^ 32)"

lemma build_packet_is_frame:
  assumes "build_packet rnd payload s = Inr pkt" "0 < block_size_out s" "\<And>n. length (rnd n) = n"
  shows "\<exists>len p. is_frame len payload p pkt \<and> p \<le> block_size_out s + 3
    \<and> (if etm_out s \<or> aead_out s then len else len + 4) mod block_size_out s = 0"
proof -
  define b where "b = block_size_out s"
  define addlen :: int where "addlen = (if etm_out s \<or> aead_out s then 4 else 8)"
  define n where "n = int (length payload) + (addlen - 4)"
  define p where "p = 3 + b - (n + 4) mod b"
  have b: "0 < b" using assms(2) by (simp add: b_def)
  note pad = mod_pad [OF b, of n, folded p_def]
  have na: "int (length payload) + addlen = n + 4" by (simp add: n_def)
  have "pkt = be_enc 4 (int (length payload) + p + 1) @ be_enc 1 p @ payload @
      (if sdctr_out s \<or> block_engine_out s = None then replicate (nat p) 0 else rnd (nat p))"
    and "int (length payload) + p + 1 < 2 ^ 32" "p < 256"
    using assms(1) unfolding build_packet_def Let_def
    by (auto simp: b_def [symmetric] addlen_def [symmetric] na p_def [symmetric] rbind_def
        struct_pack_def split: if_splits)
  then have "is_frame (int (length payload) + p + 1) payload p pkt"
    unfolding is_frame_def using pad assms(3) by (auto simp: One_nat_def)
  moreover have "(if etm_out s \<or> aead_out s then int (length payload) + p + 1
      else int (length payload) + p + 1 + 4) mod b = 0"
    using pad(1) by (cases "etm_out s \<or> aead_out s") (auto simp: n_def addlen_def algebra_simps)
  ultimately show ?thesis
    unfolding b_def [symmetric] using pad(3)
    by (intro exI [of _ "int (length payload) + p + 1"] exI [of _ p]) simp
qed

text \<open>Every packet that is built carries its payload behind a correct length and padding
  length, has at least four bytes of padding, and (RFC 4253, section 6) a total length that
  is a multiple of the block size, not counting the length field when that is sent in the
  clear.\<close>

theorem build_packet_frame:
  assumes "build_packet rnd payload s = Inr pkt" "0 < block_size_out s" "\<And>n. length (rnd n) = n"
  shows "\<exists>len p. is_frame len payload p pkt \<and> p \<le> block_size_out s + 3
    \<and> (if etm_out s \<or> aead_out s then len else len + 4) mod block_size_out s = 0"
  using assms by (rule build_packet_is_frame)

theorem build_packet_frame_witness:
  "\<exists>len p. is_frame len [94, 1, 2] p ([0, 0, 0, 12, 8, 94, 1, 2] @ replicate 8 0) \<and> p \<le> 11 \<and> (len + 4) mod 8 = 0"
proof -
  let ?s = "Packetizer_init [] [] 0 :: (byte, unit, unit) packetizer"
  have "build_packet (\<lambda>n. replicate n 0) [94, 1, 2] ?s = Inr ([0, 0, 0, 12, 8, 94, 1, 2] @ replicate 8 0)"
    by code_simp
  from build_packet_frame [OF this] show ?thesis by (auto simp: Packetizer_init_def)
qed

section \<open>Two ends in step\<close>

text \<open>What the code relies on of the ciphers (\<open>R b eo ei\<close>: the encryptor \<open>eo\<close> and the
  decryptor \<open>ei\<close> of a cipher of block size \<open>b\<close> are in the same state) and of the
  compressors (\<open>Z\<close>, likewise): on whole blocks the decryptor inverts the encryptor and may
  be fed in pieces; an AEAD opens what it sealed under the same nonce and associated data,
  and adds a tag of 16 bytes; a decompressor inverts its compressor.\<close>

definition cipher_inverse :: "('e, 'z, 'd) crypto \<Rightarrow> (int \<Rightarrow> 'e \<Rightarrow> 'e \<Rightarrow> bool) \<Rightarrow> bool" where
  "cipher_inverse c R \<longleftrightarrow> (\<forall>b eo ei d. R b eo ei \<longrightarrow> b dvd int (length d) \<longrightarrow>
     (\<exists>ct eo' ei'. cipher_update c eo d = (ct, eo') \<and> cipher_update c ei ct = (d, ei')
        \<and> length ct = length d \<and> R b eo' ei'))"

definition cipher_streams :: "('e, 'z, 'd) crypto \<Rightarrow> (int \<Rightarrow> 'e \<Rightarrow> 'e \<Rightarrow> bool) \<Rightarrow> bool" where
  "cipher_streams c R \<longleftrightarrow> (\<forall>b eo ei x y. R b eo ei \<longrightarrow> b dvd int (length x) \<longrightarrow>
     cipher_update c ei (x @ y) =
       (let (u, e1) = cipher_update c ei x; (v, e2) = cipher_update c e1 y in (u @ v, e2))
     \<and> length (fst (cipher_update c ei x)) = length x)"

definition aead_inverse :: "('e, 'z, 'd) crypto \<Rightarrow> (int \<Rightarrow> 'e \<Rightarrow> 'e \<Rightarrow> bool) \<Rightarrow> bool" where
  "aead_inverse c R \<longleftrightarrow> (\<forall>b eo ei iv d aad. R b eo ei \<longrightarrow>
     aead_decrypt c ei iv (aead_encrypt c eo iv d aad) aad = Inr d
     \<and> length (aead_encrypt c eo iv d aad) = length d + 16)"

definition compress_inverse :: "('e, 'z, 'd) crypto \<Rightarrow> ('z \<Rightarrow> 'z \<Rightarrow> bool) \<Rightarrow> bool" where
  "compress_inverse c Z \<longleftrightarrow> (\<forall>zo zi d x zo'. Z zo zi \<longrightarrow> compressor c zo d = (x, zo') \<longrightarrow>
     (\<exists>zi'. compressor c zi x = (d, zi') \<and> Z zo' zi'))"

definition crypto_ok ::
  "('e, 'z, 'd) crypto \<Rightarrow> (int \<Rightarrow> 'e \<Rightarrow> 'e \<Rightarrow> bool) \<Rightarrow> ('z \<Rightarrow> 'z \<Rightarrow> bool) \<Rightarrow> bool" where
  "crypto_ok c R Z \<longleftrightarrow>
     cipher_inverse c R \<and> cipher_streams c R \<and> aead_inverse c R \<and> compress_inverse c Z"

text \<open>The outbound half of one end and the inbound half of the other agree.\<close>

definition in_step ::
  "('e, 'z, 'd) crypto \<Rightarrow> (int \<Rightarrow> 'e \<Rightarrow> 'e \<Rightarrow> bool) \<Rightarrow> ('z \<Rightarrow> 'z \<Rightarrow> bool)
   \<Rightarrow> ('e, 'z, 'd) packetizer \<Rightarrow> ('e, 'z, 'd) packetizer \<Rightarrow> bool" where
  "in_step c R Z so si \<longleftrightarrow>
     block_size_in si = block_size_out so \<and> 8 \<le> block_size_out so \<and> block_size_out so \<le> 252
   \<and> mac_size_in si = mac_size_out so \<and> 0 \<le> mac_size_out so
   \<and> etm_in si = etm_out so \<and> aead_in si = aead_out so \<and> \<not> (etm_out so \<and> aead_out so)
   \<and> sequence_number_in si = sequence_number_out so \<and> u32_ok (sequence_number_out so)
   \<and> pk_initial_kex_done si = pk_initial_kex_done so
   \<and> (case (block_engine_out so, block_engine_in si) of
        (None, None) \<Rightarrow> \<not> etm_out so \<and> \<not> aead_out so \<and> mac_size_out so = 0
      | (Some eo, Some ei) \<Rightarrow>
          R (block_size_out so) eo ei
          \<and> (if aead_out so then mac_size_out so = 16 \<and> iv_in si = iv_out so
             else mac_key_in si = mac_key_out so \<and> mac_engine_in si = mac_engine_out so
               \<and> (\<exists>k d. mac_key_out so = Some k \<and> mac_engine_out so = Some d
                    \<and> (\<forall>m. mac_size_out so \<le> int (length (hmac c k m d)))))
      | _ \<Rightarrow> False)
   \<and> (case (compress_engine_out so, compress_engine_in si) of
        (None, None) \<Rightarrow> True | (Some zo, Some zi) \<Rightarrow> Z zo zi | _ \<Rightarrow> False)"

lemma crypto_ok_cipher:
  assumes "crypto_ok c R Z" "R b eo ei" "b dvd int (length d)"
  obtains ct eo' ei' where "cipher_update c eo d = (ct, eo')" "cipher_update c ei ct = (d, ei')"
    "length ct = length d" "R b eo' ei'"
  using assms unfolding crypto_ok_def cipher_inverse_def by metis

lemma crypto_ok_split:
  assumes "crypto_ok c R Z" "R b eo ei" "b dvd int (length x)"
  shows "cipher_update c ei (x @ y) =
      (let (u, e1) = cipher_update c ei x; (v, e2) = cipher_update c e1 y in (u @ v, e2))"
    "length (fst (cipher_update c ei x)) = length x"
  using assms unfolding crypto_ok_def cipher_streams_def by blast+

lemma crypto_ok_aead:
  assumes "crypto_ok c R Z" "R b eo ei"
  shows "aead_decrypt c ei iv (aead_encrypt c eo iv d aad) aad = Inr d"
    "length (aead_encrypt c eo iv d aad) = length d + 16"
  using assms unfolding crypto_ok_def aead_inverse_def by blast+

lemma crypto_ok_compress:
  assumes "crypto_ok c R Z" "Z zo zi" "compressor c zo d = (x, zo')"
  obtains zi' where "compressor c zi x = (d, zi')" "Z zo' zi'"
  using assms unfolding crypto_ok_def compress_inverse_def by metis

text \<open>Decrypting a ciphertext block by block from the front.\<close>

lemma decrypt_in_pieces:
  assumes ok: "crypto_ok c R Z" and R: "R b eo ei" and d: "b dvd int (length d)" and b: "0 \<le> b"
    and e: "cipher_update c eo d = (ct, eo')" and l: "nat b \<le> length d"
  obtains e1 ei' where "cipher_update c ei (take (nat b) ct) = (take (nat b) d, e1)"
    "cipher_update c e1 (drop (nat b) ct) = (drop (nat b) d, ei')" "R b eo' ei'" "length ct = length d"
proof -
  obtain ei' where ct: "cipher_update c ei ct = (d, ei')" "length ct = length d" "R b eo' ei'"
    using crypto_ok_cipher [OF ok R d] e by auto
  obtain u e1 where u: "cipher_update c ei (take (nat b) ct) = (u, e1)" by force
  obtain v e2 where v: "cipher_update c e1 (drop (nat b) ct) = (v, e2)" by force
  have bd: "b dvd int (length (take (nat b) ct))" using b l ct(2) by simp
  have "cipher_update c ei (take (nat b) ct @ drop (nat b) ct) = (u @ v, e2)"
    unfolding crypto_ok_split(1) [OF ok R bd] by (simp add: u v)
  with ct(1) have uv: "u @ v = d" "e2 = ei'" by simp_all
  have "length u = nat b"
    using crypto_ok_split(2) [OF ok R bd] u l ct(2) by simp
  with uv have "u = take (nat b) d" "v = drop (nat b) d" by auto
  with u v uv ct that show ?thesis by simp
qed

text \<open>Optional engines: no engine leaves the bytes alone.\<close>

definition upd_opt :: "('e, 'z, 'd) crypto \<Rightarrow> 'e option \<Rightarrow> bytes \<Rightarrow> bytes \<times> 'e option" where
  "upd_opt c eo d = (case eo of
     None \<Rightarrow> (d, None) | Some e \<Rightarrow> (let (x, e') = cipher_update c e d in (x, Some e')))"

definition R_opt :: "(int \<Rightarrow> 'e \<Rightarrow> 'e \<Rightarrow> bool) \<Rightarrow> int \<Rightarrow> 'e option \<Rightarrow> 'e option \<Rightarrow> bool" where
  "R_opt R b eo ei \<longleftrightarrow> (case (eo, ei) of
     (None, None) \<Rightarrow> True | (Some e, Some f) \<Rightarrow> R b e f | _ \<Rightarrow> False)"

lemma upd_opt_pieces:
  assumes ok: "crypto_ok c R Z" and R: "R_opt R b eo ei" and d: "b dvd int (length d)" and b: "0 \<le> b"
    and e: "upd_opt c eo d = (ct, eo')" and l: "nat b \<le> length d"
  obtains e1 ei' where "upd_opt c ei (take (nat b) ct) = (take (nat b) d, e1)"
    "upd_opt c e1 (drop (nat b) ct) = (drop (nat b) d, ei')" "R_opt R b eo' ei'" "length ct = length d"
proof (cases eo)
  case None
  with R have "ei = None" by (cases ei) (simp_all add: R_opt_def)
  moreover have "ct = d" "eo' = None" using None e by (simp_all add: upd_opt_def)
  ultimately show ?thesis
    by (intro that [of None None]) (simp_all add: R_opt_def upd_opt_def)
next
  case (Some e0)
  with R obtain f0 where f0: "ei = Some f0" "R b e0 f0" by (auto simp: R_opt_def split: option.splits)
  from e Some obtain e0' where e0': "cipher_update c e0 d = (ct, e0')" "eo' = Some e0'"
    by (auto simp: upd_opt_def split: prod.splits)
  from decrypt_in_pieces [OF ok f0(2) d b e0'(1) l] obtain e1 ei' where
    "cipher_update c f0 (take (nat b) ct) = (take (nat b) d, e1)"
    "cipher_update c e1 (drop (nat b) ct) = (drop (nat b) d, ei')" "R b e0' ei'" "length ct = length d" .
  with f0 e0' show ?thesis
    by (intro that [of "Some e1" "Some ei'"]) (simp_all add: upd_opt_def R_opt_def)
qed

lemma block_engine_in_update_id: "block_engine_in s = e \<Longrightarrow> s\<lparr>block_engine_in := e\<rparr> = s"
  by (cases s) simp

lemma decrypt_in_upd:
  "upd_opt c (block_engine_in s) d = (x, e') \<Longrightarrow> decrypt_in c d s = (Done (Inr x), s\<lparr>block_engine_in := e'\<rparr>)"
proof (cases "block_engine_in s")
  case None
  moreover assume "upd_opt c (block_engine_in s) d = (x, e')"
  ultimately show ?thesis
    using block_engine_in_update_id [OF None] by (simp add: decrypt_in_def upd_opt_def bret_def)
next
  case (Some e)
  moreover assume "upd_opt c (block_engine_in s) d = (x, e')"
  ultimately show ?thesis
    by (cases "cipher_update c e d") (auto simp: decrypt_in_def upd_opt_def bret_def)
qed

lemma frame_parse:
  assumes "is_frame len payload p pkt"
  shows "drop 4 pkt \<noteq> []" "uint (hd (drop 4 pkt)) = p" "slice 1 (len - p) (drop 4 pkt) = payload"
    "take 4 pkt = be_enc 4 len" "int (length pkt) = len + 4" "u32_ok len" "5 \<le> len"
proof -
  from assms obtain pad where pkt: "pkt = be_enc 4 len @ [word_of_int p] @ payload @ pad"
    and l: "length pad = nat p" "len = int (length payload) + p + 1" "4 \<le> p" "p < 256" "len < 2 ^ 32"
    by (auto simp: is_frame_def)
  have d: "drop 4 pkt = word_of_int p # payload @ pad" by (simp add: pkt)
  show "drop 4 pkt \<noteq> []" by (simp add: d)
  show "uint (hd (drop 4 pkt)) = p" using l by (simp add: d uint_word_of_int)
  show "slice 1 (len - p) (drop 4 pkt) = payload" using l by (simp add: d slice_nonneg)
  show "take 4 pkt = be_enc 4 len" by (simp add: pkt)
  show "int (length pkt) = len + 4" using l by (simp add: pkt)
  show "u32_ok len" using l by (simp add: u32_ok_def)
  show "5 \<le> len" using l by simp
qed

lemma unpack_be_enc: "u32_ok n \<Longrightarrow> struct_unpack 4 (be_enc 4 n) = Inr n"
  by (simp add: struct_unpack_def u32_ok_def)

lemma pack_u32: "u32_ok n \<Longrightarrow> struct_pack 4 n = Inr (be_enc 4 n)"
  by (simp add: struct_pack_def u32_ok_def)

text \<open>The MAC check succeeds on the MAC of the sender.\<close>

lemma check_mac_accepts:
  assumes "mac_key_in s = Some k" "mac_engine_in s = Some d" "0 \<le> mac_size_in s"
    "u32_ok (sequence_number_in s)" "u32_ok len"
    "mac = take (nat (mac_size_in s)) (hmac c k (be_enc 4 (sequence_number_in s) @ be_enc 4 len @ body) d)"
  shows "check_mac c len body mac s = (Done (Inr ()), s)"
  using assms
  by (simp add: check_mac_def pack_u32 compute_hmac_def constant_time_bytes_eq_iff bret_def)


subsection \<open>Reading back one packet\<close>

lemma mod_frame:
  fixes b n :: int
  assumes "n mod b = 0" "0 < n" "0 < b"
  shows "b dvd n" "b \<le> n" "(n - b) mod b = 0"
  using assms by (auto simp: zdvd_imp_le)

lemma incoming_engine_update [simp]:
  "incoming (s\<lparr>block_engine_in := e\<rparr>) = incoming s" "incoming (s\<lparr>iv_in := v\<rparr>) = incoming s"
  "calm (s\<lparr>block_engine_in := e\<rparr>) = calm s" "calm (s\<lparr>iv_in := v\<rparr>) = calm s"
  by (simp_all add: incoming_def calm_def handshake_timed_out_def)

lemma no_io_engine:
  "no_io (u\<lparr>block_engine_in := e\<rparr>) = (no_io u)\<lparr>block_engine_in := e\<rparr>"
  "no_io (u\<lparr>iv_in := v\<rparr>) = (no_io u)\<lparr>iv_in := v\<rparr>"
  by (simp_all add: no_io_def)

lemma same_link_engine:
  "same_link s t \<Longrightarrow> same_link (s\<lparr>block_engine_in := e\<rparr>) (t\<lparr>block_engine_in := e\<rparr>)"
  "same_link s t \<Longrightarrow> same_link (s\<lparr>iv_in := v\<rparr>) (t\<lparr>iv_in := v\<rparr>)"
  by (simp_all add: same_link_def no_io_engine)

lemma read_all_prefix:
  assumes "calm s" "\<not> (check_rekey \<and> pk_need_rekey s)" "incoming s = x @ y" "n = int (length x)"
  shows "\<exists>s'. read_all n check_rekey s = (Done (Inr x), s') \<and> incoming s' = y \<and> calm s' \<and> same_link s s'"
  using read_all_calm [OF assms(1,2), of n] assms(3,4) by simp

lemma read_packet_plain:
  assumes ok: "crypto_ok c R Z" and mode: "\<not> etm_in si" "\<not> aead_in si"
    and b: "block_size_in si = b" "8 \<le> b" and msz: "0 \<le> mac_size_in si"
    and seq: "u32_ok (sequence_number_in si)"
    and fr: "is_frame len payload p pkt" "(len + 4) mod b = 0"
    and R: "R_opt R b eo (block_engine_in si)" and enc: "upd_opt c eo pkt = (ct, eo')"
    and mac: "length mac = nat (mac_size_in si)"
      "0 < mac_size_in si \<Longrightarrow> \<exists>k d. mac_key_in si = Some k \<and> mac_engine_in si = Some d
         \<and> mac = take (nat (mac_size_in si)) (hmac c k (be_enc 4 (sequence_number_in si) @ pkt) d)"
    and inc: "incoming si = ct @ mac @ rest" and calm: "calm si" and nr: "\<not> pk_need_rekey si"
  shows "\<exists>s' ei'. read_packet c si = (Done (Inr (drop 4 pkt, len)), s') \<and> incoming s' = rest \<and> calm s'
    \<and> same_link (si\<lparr>block_engine_in := ei'\<rparr>) s' \<and> R_opt R b eo' ei'"
proof -
  note fp = frame_parse [OF fr(1)]
  have len: "int (length pkt) = len + 4" "0 < len + 4" using fp by simp_all
  note md = mod_frame [OF fr(2) len(2)] 
  have bl: "b dvd int (length pkt)" "nat b \<le> length pkt" "0 \<le> b"
    using md b len by simp_all
  obtain e1 ei' where dec: "upd_opt c (block_engine_in si) (take (nat b) ct) = (take (nat b) pkt, e1)"
    "upd_opt c e1 (drop (nat b) ct) = (drop (nat b) pkt, ei')" "R_opt R b eo' ei'" "length ct = length pkt"
    using upd_opt_pieces [OF ok R bl(1,3) enc bl(2)] by metis
  obtain s1 where s1: "read_all b True si = (Done (Inr (take (nat b) ct)), s1)"
    "incoming s1 = drop (nat b) ct @ mac @ rest" "calm s1" "same_link si s1"
    using read_all_prefix [OF calm, of True "take (nat b) ct" "drop (nat b) ct @ mac @ rest" b]
      nr b bl(2) dec(4) append_take_drop_id [of "nat b" ct] inc by auto
  note f1 = same_link_fields [OF s1(4)]
  define s2 where "s2 = s1\<lparr>block_engine_in := e1\<rparr>"
  have hdr: "decrypt_header c (take (nat b) ct) s1 = (Done (Inr (take (nat b) pkt)), s2)"
    using mode decrypt_in_upd [of c s1 "take (nat b) ct"] dec(1) f1
    by (simp add: decrypt_header_def s2_def)
  define left where "left = len + 4 - b"
  have left: "0 \<le> left" "left mod b = 0" "nat left = length pkt - nat b"
    using md b len by (auto simp: left_def)
  have "int (length (drop (nat b) ct @ mac)) = left + mac_size_in si"
    using left(1) msz mac(1) dec(4) bl(2,3) len(1) by (simp add: left_def)
  then obtain s3 where s3: "read_all (left + mac_size_in si) False s2 = (Done (Inr (drop (nat b) ct @ mac)), s3)"
    "incoming s3 = rest" "calm s3" "same_link s2 s3"
    using read_all_prefix [of s2 False "drop (nat b) ct @ mac" rest "left + mac_size_in si"] s1
    by (auto simp: s2_def)
  have f3: "block_engine_in s3 = e1" "mac_key_in s3 = mac_key_in si" "mac_engine_in s3 = mac_engine_in si"
    "mac_size_in s3 = mac_size_in si" "sequence_number_in s3 = sequence_number_in si"
    using same_link_fields [OF s3(4)] f1 by (simp_all add: s2_def)
  define s4 where "s4 = s3\<lparr>block_engine_in := ei'\<rparr>"
  have d2: "decrypt_in c (drop (nat b) ct) s3 = (Done (Inr (drop (nat b) pkt)), s4)"
    using decrypt_in_upd [of c s3] dec(2) f3 by (simp add: s4_def)
  have body: "drop 4 (take (nat b) pkt) @ drop (nat b) pkt = drop 4 pkt"
    using b(2) by (intro drop_take_drop) simp
  have chk: "(if mac_size_in si > 0 then check_mac c len (drop 4 pkt) mac else bret ()) s4 = (Done (Inr ()), s4)"
  proof (cases "0 < mac_size_in si")
    case True
    from mac(2) [OF this] obtain k d where "mac_key_in si = Some k" "mac_engine_in si = Some d"
      "mac = take (nat (mac_size_in si)) (hmac c k (be_enc 4 (sequence_number_in si) @ pkt) d)" by blast
    moreover have "be_enc 4 len @ drop 4 pkt = pkt" using fp(4) append_take_drop_id [of 4 pkt] by simp
    ultimately show ?thesis
      using True msz seq fp(6) f3 check_mac_accepts [of s4 k d len mac c "drop 4 pkt"] by (simp add: s4_def)
  qed (simp add: bret_def)
  define h where "h = take (nat b) pkt"
  define h4 where "h4 = drop 4 h"
  have "4 \<le> nat b" using b(2) by simp
  then have un: "slice_to 4 h = be_enc 4 len" "slice_from 4 h = h4" "h4 @ drop (nat b) pkt = drop 4 pkt"
    using fp(4) body by (simp_all add: h_def h4_def min_def)
  have lo: "int (length h4) = b - 4" using b(2) bl(2) by (simp add: h4_def h_def)
  have "read_rest c h 0 s2 = (Done (Inr (drop 4 pkt, len)), s4)"
  proof -
    have m2: "\<not> etm_in s2" "\<not> aead_in s2" "block_size_in s2 = b" "mac_size_in s2 = mac_size_in si"
      using mode f1 b by (simp_all add: s2_def)
    have r: "len - (b - 4) = left" "len + mac_size_in si - (b - 4) = left + mac_size_in si"
      by (simp_all add: left_def)
    have sp: "slice_to left (drop (nat b) ct @ mac) = drop (nat b) ct"
      "slice_from left (drop (nat b) ct @ mac) = mac" "slice_to (mac_size_in si) mac = mac"
      using left dec(4) mac(1) msz by simp_all
    show ?thesis
      using chk unfolding read_rest_def Let_def
      by (cases "0 < mac_size_in si")
        (simp_all add: m2 un unpack_be_enc [OF fp(6)] lo r left(2) sp bbind_def s3(1) d2 blift_def bret_def
          del: slice_to_nonneg slice_from_nonneg)
  qed
  then have "read_packet c si = (Done (Inr (drop 4 pkt, len)), s4)"
    using mode f1 b hdr [folded h_def] s1(1)
    by (simp add: read_packet_def read_etm_def read_aead_def bbind_def bret_def)
  moreover have "same_link (si\<lparr>block_engine_in := ei'\<rparr>) s4"
    using same_link_engine(1) [OF s1(4), of ei'] same_link_engine(1) [OF s3(4), of ei']
    by (auto simp: s2_def s4_def intro: same_link_trans)
  ultimately show ?thesis using s3 dec(3) by (intro exI [of _ s4] exI [of _ ei']) (simp add: s4_def)
qed


text \<open>The first read of a packet whose length field is in the clear.\<close>

lemma read_clear_length:
  assumes b: "block_size_in s = b" "8 \<le> b" and fr: "is_frame len payload p pkt"
    and inc: "incoming s = take 4 pkt @ x @ rest" and l: "b - 4 \<le> int (length x)"
    and calm: "calm s" and nr: "\<not> pk_need_rekey s"
  obtains s1 where "read_all b True s = (Done (Inr (be_enc 4 len @ take (nat b - 4) x)), s1)"
    "incoming s1 = drop (nat b - 4) x @ rest" "calm s1" "same_link s s1"
proof -
  note fp = frame_parse [OF fr]
  have "incoming s = (be_enc 4 len @ take (nat b - 4) x) @ drop (nat b - 4) x @ rest"
    using inc fp(4) by simp
  moreover have "b = int (length (be_enc 4 len @ take (nat b - 4) x))" using b(2) l by simp
  ultimately show ?thesis using read_all_prefix [OF calm, of True] nr that by blast
qed

lemma read_packet_etm:
  assumes ok: "crypto_ok c R Z" and mode: "etm_in si" "\<not> aead_in si"
    and b: "block_size_in si = b" "8 \<le> b" and msz: "0 \<le> mac_size_in si"
    and seq: "u32_ok (sequence_number_in si)"
    and fr: "is_frame len payload p pkt" "len mod b = 0"
    and R: "R_opt R b eo (block_engine_in si)" and enc: "upd_opt c eo (drop 4 pkt) = (ct, eo')"
    and key: "mac_key_in si = Some k" "mac_engine_in si = Some d" "length mac = nat (mac_size_in si)"
      "mac = take (nat (mac_size_in si)) (hmac c k (be_enc 4 (sequence_number_in si) @ take 4 pkt @ ct) d)"
    and inc: "incoming si = take 4 pkt @ ct @ mac @ rest" and calm: "calm si" and nr: "\<not> pk_need_rekey si"
  shows "\<exists>s' ei'. read_packet c si = (Done (Inr (drop 4 pkt, len)), s') \<and> incoming s' = rest \<and> calm s'
    \<and> same_link (si\<lparr>block_engine_in := ei'\<rparr>) s' \<and> R_opt R b eo' ei'"
proof -
  note fp = frame_parse [OF fr(1)]
  have len: "int (length (drop 4 pkt)) = len" "0 < len" using fp by simp_all
  note md = mod_frame [OF fr(2) len(2)]
  have bl: "b dvd int (length (drop 4 pkt))" "nat b \<le> length (drop 4 pkt)" "0 \<le> b"
    using md b len by simp_all
  obtain ei' where dec: "upd_opt c (block_engine_in si) ct = (drop 4 pkt, ei')" "R_opt R b eo' ei'"
    "length ct = length (drop 4 pkt)"
  proof (cases eo)
    case None
    with R have "block_engine_in si = None" by (cases "block_engine_in si") (simp_all add: R_opt_def)
    with None enc show ?thesis by (intro that [of None]) (simp_all add: upd_opt_def R_opt_def)
  next
    case (Some e0)
    with R obtain f0 where f0: "block_engine_in si = Some f0" "R b e0 f0"
      by (cases "block_engine_in si") (simp_all add: R_opt_def)
    from enc Some obtain e0' where e0': "cipher_update c e0 (drop 4 pkt) = (ct, e0')" "eo' = Some e0'"
      by (auto simp: upd_opt_def split: prod.splits)
    from crypto_ok_cipher [OF ok f0(2) bl(1)] obtain f0' where
      "cipher_update c f0 ct = (drop 4 pkt, f0')" "length ct = length (drop 4 pkt)" "R b e0' f0'"
      using e0'(1) by (metis Pair_inject)
    with e0'(2) f0 show ?thesis by (intro that [of "Some f0'"]) (simp_all add: upd_opt_def R_opt_def)
  qed
  obtain s1 where s1: "read_all b True si = (Done (Inr (be_enc 4 len @ take (nat b - 4) ct)), s1)"
    "incoming s1 = drop (nat b - 4) ct @ mac @ rest" "calm s1" "same_link si s1"
    using read_clear_length [OF b fr(1) inc _ calm nr] md b len dec(3) by auto
  note f1 = same_link_fields [OF s1(4)]
  have "len - b + 4 = int (length (drop (nat b - 4) ct))" using md b dec(3) len by simp
  then obtain s2 where s2: "read_all (len - b + 4) False s1 = (Done (Inr (drop (nat b - 4) ct)), s2)"
    "incoming s2 = mac @ rest" "calm s2" "same_link s1 s2"
    using read_all_prefix [OF s1(3) _ s1(2), of False] by auto
  have "mac_size_in si = int (length mac)" using msz key(3) by simp
  then obtain s3 where s3: "read_all (mac_size_in si) False s2 = (Done (Inr mac), s3)"
    "incoming s3 = rest" "calm s3" "same_link s2 s3"
    using read_all_prefix [OF s2(3) _ s2(2), of False] by auto
  have sl: "same_link si s3" using s1(4) s2(4) s3(4) same_link_trans by blast
  note f3 = same_link_fields [OF sl]
  have "check_mac c len ct mac s3 = (Done (Inr ()), s3)"
    using key msz seq fp(4,6) f3 by (intro check_mac_accepts [of _ k d]) simp_all
  then have "read_etm c (be_enc 4 len @ take (nat b - 4) ct) s1 = (Done (Inr (ct, len)), s3)"
    using mode f1 b fp(6)
    by (simp add: read_etm_def unpack_be_enc Let_def bbind_def s2(1) s3(1) blift_def bret_def)
  moreover have "decrypt_header c ct s3 = (Done (Inr (drop 4 pkt)), s3\<lparr>block_engine_in := ei'\<rparr>)"
    using mode f3 decrypt_in_upd [of c s3 ct] dec(1) by (simp add: decrypt_header_def)
  ultimately have "read_packet c si = (Done (Inr (drop 4 pkt, len)), s3\<lparr>block_engine_in := ei'\<rparr>)"
    using mode f3 b s1(1)
    by (simp add: read_packet_def read_aead_def read_rest_def bbind_def bret_def)
  then show ?thesis using s3 dec(2) same_link_engine(1) [OF sl, of ei'] by auto
qed

lemma read_packet_aead:
  assumes ok: "crypto_ok c R Z" and mode: "\<not> etm_in si" "aead_in si"
    and b: "block_size_in si = b" "8 \<le> b" and msz: "mac_size_in si = 16"
    and fr: "is_frame len payload p pkt" "len mod b = 0"
    and R: "block_engine_in si = Some ei" "R b eo ei"
    and iv: "iv_in si = Some iv" "inc_iv_counter iv = Inr iv'"
    and inc: "incoming si = take 4 pkt @ aead_encrypt c eo iv (drop 4 pkt) (take 4 pkt) @ rest"
    and calm: "calm si" and nr: "\<not> pk_need_rekey si"
  shows "\<exists>s'. read_packet c si = (Done (Inr (drop 4 pkt, len)), s') \<and> incoming s' = rest \<and> calm s'
    \<and> same_link (si\<lparr>iv_in := Some iv'\<rparr>) s'"
proof -
  note fp = frame_parse [OF fr(1)]
  define x where "x = aead_encrypt c eo iv (drop 4 pkt) (take 4 pkt)"
  have len: "0 < len" using fp by simp
  note md = mod_frame [OF fr(2) len]
  have x: "int (length x) = len + 16" "aead_decrypt c ei iv x (take 4 pkt) = Inr (drop 4 pkt)"
    using crypto_ok_aead [OF ok R(2)] fp(5) len by (simp_all add: x_def)
  obtain s1 where s1: "read_all b True si = (Done (Inr (be_enc 4 len @ take (nat b - 4) x)), s1)"
    "incoming s1 = drop (nat b - 4) x @ rest" "calm s1" "same_link si s1"
    using read_clear_length [OF b fr(1) inc [folded x_def] _ calm nr] md b x(1) by auto
  note f1 = same_link_fields [OF s1(4)]
  have "len - b + 4 + 16 = int (length (drop (nat b - 4) x))" using md b x(1) by simp
  then obtain s2 where s2: "read_all (len - b + 4 + 16) False s1 = (Done (Inr (drop (nat b - 4) x)), s2)"
    "incoming s2 = rest" "calm s2" "same_link s1 s2"
    using read_all_prefix [OF s1(3) _ s1(2), of False] by auto
  have sl: "same_link si s2" using s1(4) s2(4) same_link_trans by blast
  note f2 = same_link_fields [OF sl]
  have "read_aead c (be_enc 4 len @ take (nat b - 4) x, 0) s1 = (Done (Inr (drop 4 pkt, len)), s2\<lparr>iv_in := Some iv'\<rparr>)"
    using mode f1 b msz R iv fp(4,6) x(2) s2(1)
    by (simp add: read_aead_def unpack_be_enc Let_def bbind_def blift_def bmodify_def inc_iv_opt_def bret_def)
  then have "read_packet c si = (Done (Inr (drop 4 pkt, len)), s2\<lparr>iv_in := Some iv'\<rparr>)"
    using mode f1 f2 b s1(1)
    by (simp add: read_packet_def read_etm_def read_rest_def decrypt_header_def bbind_def bret_def)
  then show ?thesis using s2 same_link_engine(2) [OF sl, of "Some iv'"] by auto
qed

end
