(* ===== verification/Packet_Link.thy ===== *)
theory Packet_Link
  imports Packetizer
begin

text \<open>
  Two packetizers at the ends of one connection: what \<^verbatim>\<open>send_message\<close> wrote is what
  \<^verbatim>\<open>read_message\<close> of the other end returns, in all three modes of the packet format, and
  the two ends stay in step. Then what a receiver checked before it delivered anything, the
  sequence numbers, and the counters of the re-keying.
\<close>

subsection \<open>What a successful send did\<close>

text \<open>The fields of the outbound half that the other end has to match.\<close>

definition link_out where
  "link_out s = (block_size_out s, mac_size_out s, etm_out s, aead_out s, pk_initial_kex_done s,
     mac_key_out s, mac_engine_out s, sequence_number_out s, block_engine_out s, iv_out s,
     compress_engine_out s)"

definition compressed :: "('e, 'z, 'd) crypto \<Rightarrow> 'z option \<Rightarrow> bytes \<Rightarrow> bytes \<times> 'z option" where
  "compressed c zo d = (case zo of
     None \<Rightarrow> (d, None) | Some z \<Rightarrow> (let (x, z') = compressor c z d in (x, Some z')))"

text \<open>The ciphertext of a packet with the engine and nonce after it.\<close>

definition sealed ::
  "('e, 'z, 'd) crypto \<Rightarrow> ('e, 'z, 'd) packetizer \<Rightarrow> bytes \<Rightarrow> bytes \<Rightarrow> 'e option \<Rightarrow> bytes option \<Rightarrow> bool" where
  "sealed c s pkt out e' iv' \<longleftrightarrow>
     (if aead_out s \<and> \<not> etm_out s \<and> block_engine_out s \<noteq> None then
        (\<exists>e iv v. block_engine_out s = Some e \<and> e' = Some e \<and> iv_out s = Some iv
           \<and> inc_iv_counter iv = Inr v \<and> iv' = Some v
           \<and> out = take 4 pkt @ aead_encrypt c e iv (drop 4 pkt) (take 4 pkt))
      else if etm_out s \<and> block_engine_out s \<noteq> None then
        iv' = iv_out s \<and> (\<exists>ct. upd_opt c (block_engine_out s) (drop 4 pkt) = (ct, e') \<and> out = take 4 pkt @ ct)
      else iv' = iv_out s \<and> upd_opt c (block_engine_out s) pkt = (out, e'))"

lemma out_engine_id: "s\<lparr>block_engine_out := block_engine_out s, iv_out := iv_out s\<rparr> = s"
  by (cases s) simp

lemma out_engine_only: "s\<lparr>block_engine_out := e, iv_out := iv_out s\<rparr> = s\<lparr>block_engine_out := e\<rparr>"
  by (cases s) simp

lemma out_iv_only: "s\<lparr>block_engine_out := block_engine_out s, iv_out := v\<rparr> = s\<lparr>iv_out := v\<rparr>"
  by (cases s) simp

lemma encrypt_packet_sealed:
  assumes enc: "encrypt_packet c pkt s = (Done (Inr out), s')"
  shows "\<exists>e' iv'. sealed c s pkt out e' iv' \<and> s' = s\<lparr>block_engine_out := e', iv_out := iv'\<rparr>"
proof (cases "block_engine_out s")
  case None
  with enc have out: "out = pkt" "s' = s" by (simp_all add: encrypt_packet_def bret_def)
  have "s' = s\<lparr>block_engine_out := block_engine_out s, iv_out := iv_out s\<rparr>"
    by (simp only: out_engine_id out)
  moreover have "sealed c s pkt out (block_engine_out s) (iv_out s)"
    using None out by (simp add: sealed_def upd_opt_def)
  ultimately show ?thesis by blast
next
  case (Some e)
  consider "etm_out s" | "\<not> etm_out s" "aead_out s" | "\<not> etm_out s" "\<not> aead_out s" by blast
  then show ?thesis
  proof cases
    case 1
    obtain ct e2 where u: "cipher_update c e (drop 4 pkt) = (ct, e2)" by force
    have "out = take 4 pkt @ ct" "s' = s\<lparr>block_engine_out := Some e2\<rparr>"
      using enc Some 1 u by (simp_all add: encrypt_packet_def bret_def slice_nonneg)
    moreover have "sealed c s pkt out (Some e2) (iv_out s)"
      using Some 1 u calculation by (simp add: sealed_def upd_opt_def)
    ultimately show ?thesis by (metis out_engine_only)
  next
    case 2
    then obtain iv v where iv: "iv_out s = Some iv" "inc_iv_counter iv = Inr v"
      using enc Some
      by (cases "iv_out s"; cases "inc_iv_counter (the (iv_out s))")
        (simp_all add: encrypt_packet_def braise_def Let_def bbind_def blift_def)
    have "out = take 4 pkt @ aead_encrypt c e iv (drop 4 pkt) (take 4 pkt)" "s' = s\<lparr>iv_out := Some v\<rparr>"
      using enc Some 2 iv
      by (simp_all add: encrypt_packet_def Let_def bbind_def blift_def bmodify_def bret_def slice_nonneg)
    moreover have "sealed c s pkt out (block_engine_out s) (Some v)"
      using Some 2 iv calculation by (simp add: sealed_def)
    ultimately show ?thesis by (metis out_iv_only)
  next
    case 3
    obtain ct e2 where u: "cipher_update c e pkt = (ct, e2)" by force
    have "out = ct" "s' = s\<lparr>block_engine_out := Some e2\<rparr>"
      using enc Some 3 u by (simp_all add: encrypt_packet_def bret_def)
    moreover have "sealed c s pkt out (Some e2) (iv_out s)"
      using Some 3 u calculation by (simp add: sealed_def upd_opt_def)
    ultimately show ?thesis by (metis out_engine_only)
  qed
qed


text \<open>The bytes a packet has behind its ciphertext.\<close>

definition maced ::
  "('e, 'z, 'd) crypto \<Rightarrow> ('e, 'z, 'd) packetizer \<Rightarrow> bytes \<Rightarrow> bytes \<Rightarrow> bytes \<Rightarrow> bool" where
  "maced c s pkt out mac \<longleftrightarrow>
     (if block_engine_out s \<noteq> None \<and> \<not> aead_out s then
        \<exists>k d. mac_key_out s = Some k \<and> mac_engine_out s = Some d
          \<and> mac = slice_to (mac_size_out s)
               (hmac c k (be_enc 4 (sequence_number_out s) @ (if etm_out s then out else pkt)) d)
      else mac = [])"

lemma compress_out_done:
  "compressed c (compress_engine_out s) d = (x, z') \<Longrightarrow>
   compress_out c d s = (Done (Inr x), s\<lparr>compress_engine_out := z'\<rparr>)"
proof (cases "compress_engine_out s")
  case None
  assume "compressed c (compress_engine_out s) d = (x, z')"
  with None have "x = d" "z' = compress_engine_out s" by (simp_all add: compressed_def)
  moreover have "s\<lparr>compress_engine_out := compress_engine_out s\<rparr> = s" by (cases s) simp
  ultimately show ?thesis using None by (simp add: compress_out_def bbind_def bget_def bret_def)
next
  case (Some z)
  moreover assume "compressed c (compress_engine_out s) d = (x, z')"
  ultimately show ?thesis
    by (cases "compressor c z d")
      (simp add: compressed_def compress_out_def bbind_def bget_def bret_def bmodify_def)
qed

lemma append_mac_done:
  assumes "append_mac c pkt out s = (Done (Inr w), s')"
  shows "s' = s \<and> (\<exists>mac. maced c s pkt out mac \<and> w = out @ mac)"
  using assms
  by (cases "mac_key_out s"; cases "mac_engine_out s")
    (auto simp: append_mac_def maced_def bbind_def blift_def bret_def compute_hmac_def struct_pack_def
      split: if_splits)

lemma advance_seqno_out_done:
  assumes "advance_seqno_out s = (Done (Inr u), s')"
  shows "s' = s\<lparr>sequence_number_out := next_seqno (sequence_number_out s)\<rparr>"
    "next_seqno (sequence_number_out s) \<noteq> 0 \<or> pk_initial_kex_done s"
  using assms by (auto simp: advance_seqno_out_def Let_def braise_def bret_def split: if_splits)

lemma link_out_write:
  assumes "write_all out s = (Done (Inr u), s')"
  shows "link_out s' = link_out s" "sock_out s' = sock_out s @ out"
  using write_loop_written [of out 0 "sock_script s" "s\<lparr>keepalive_last := clock s\<rparr>" s'] assms
  by (auto simp: write_all_def link_out_def)

lemma link_out_count:
  assumes "count_sent n s = (Done (Inr u), s')"
  shows "link_out s' = link_out s" "sock_out s' = sock_out s"
  using assms by (auto simp: count_sent_def Let_def bret_def link_out_def trigger_rekey_def split: if_splits)

lemma build_packet_compress [simp]:
  "build_packet rnd d (s\<lparr>compress_engine_out := z\<rparr>) = build_packet rnd d s"
  by (simp add: build_packet_def)

lemma sealed_compress [simp]:
  "sealed c (s\<lparr>compress_engine_out := z\<rparr>) pkt out e' iv' = sealed c s pkt out e' iv'"
  by (auto simp: sealed_def)

lemma sealed_engine: "sealed c s pkt out e' iv' \<Longrightarrow> (e' = None) = (block_engine_out s = None)"
  by (auto simp: sealed_def upd_opt_def split: if_splits option.splits prod.splits)

lemma send_message_done:
  assumes "send_message c rnd data s = (Done (Inr ()), s')"
    "compressed c (compress_engine_out s) data = (x, z')"
  shows "\<exists>pkt out mac e' iv'. data \<noteq> [] \<and> build_packet rnd x s = Inr pkt \<and> sealed c s pkt out e' iv'
    \<and> maced c s pkt out mac \<and> sock_out s' = sock_out s @ out @ mac
    \<and> (next_seqno (sequence_number_out s) \<noteq> 0 \<or> pk_initial_kex_done s)
    \<and> link_out s' = link_out (s\<lparr>compress_engine_out := z', block_engine_out := e', iv_out := iv',
         sequence_number_out := next_seqno (sequence_number_out s)\<rparr>)"
proof -
  define s0 where "s0 = s\<lparr>compress_engine_out := z'\<rparr>"
  have d: "data \<noteq> []" using assms(1) by (auto simp: send_message_def braise_def)
  have "bbind (compress_out c data) (\<lambda>data.
        bbind (\<lambda>s. blift (build_packet rnd data s) s) (\<lambda>packet.
        bbind (encrypt_packet c packet) (\<lambda>out.
        bbind (append_mac c packet out) (\<lambda>out.
        bbind advance_seqno_out (\<lambda>_.
        bbind (write_all out) (\<lambda>_. count_sent (int (length out)))))))) s = (Done (Inr ()), s')"
    using assms(1) d by (simp add: send_message_def)
  then have "bbind (\<lambda>s. blift (build_packet rnd x s) s) (\<lambda>packet.
        bbind (encrypt_packet c packet) (\<lambda>out.
        bbind (append_mac c packet out) (\<lambda>out.
        bbind advance_seqno_out (\<lambda>_.
        bbind (write_all out) (\<lambda>_. count_sent (int (length out))))))) s0 = (Done (Inr ()), s')"
    using compress_out_done [OF assms(2)] by (simp add: bbind_def s0_def)
  then obtain pkt where pkt: "build_packet rnd x s = Inr pkt" and r:
    "bbind (encrypt_packet c pkt) (\<lambda>out. bbind (append_mac c pkt out) (\<lambda>out.
        bbind advance_seqno_out (\<lambda>_.
        bbind (write_all out) (\<lambda>_. count_sent (int (length out)))))) s0 = (Done (Inr ()), s')"
    by (cases "build_packet rnd x s") (auto simp: bbind_def blift_def s0_def)
  from r obtain out s1 where e: "encrypt_packet c pkt s0 = (Done (Inr out), s1)" and r:
    "bbind (append_mac c pkt out) (\<lambda>out. bbind advance_seqno_out (\<lambda>_.
        bbind (write_all out) (\<lambda>_. count_sent (int (length out))))) s1 = (Done (Inr ()), s')"
    by (rule bbind_eq_InrE)
  from r obtain w s2 where a: "append_mac c pkt out s1 = (Done (Inr w), s2)" and r:
    "bbind advance_seqno_out (\<lambda>_. bbind (write_all w) (\<lambda>_. count_sent (int (length w)))) s2 = (Done (Inr ()), s')"
    by (rule bbind_eq_InrE)
  from r obtain u s3 where n: "advance_seqno_out s2 = (Done (Inr u), s3)" and r:
    "bbind (write_all w) (\<lambda>_. count_sent (int (length w))) s3 = (Done (Inr ()), s')"
    by (rule bbind_eq_InrE)
  from r obtain u s4 where wr: "write_all w s3 = (Done (Inr u), s4)" and ct:
    "count_sent (int (length w)) s4 = (Done (Inr ()), s')"
    by (rule bbind_eq_InrE)
  obtain e' iv' where se: "sealed c s pkt out e' iv'" "s1 = s0\<lparr>block_engine_out := e', iv_out := iv'\<rparr>"
    using encrypt_packet_sealed [OF e] by (auto simp: s0_def)
  obtain mac where mac: "s2 = s1" "maced c s1 pkt out mac" "w = out @ mac"
    using append_mac_done [OF a] by auto
  have "maced c s pkt out mac"
    using mac(2) sealed_engine [OF se(1)] unfolding maced_def se(2) s0_def by (auto split: if_splits)
  moreover have "sock_out s' = sock_out s @ out @ mac"
    "link_out s' = link_out (s\<lparr>compress_engine_out := z', block_engine_out := e', iv_out := iv',
         sequence_number_out := next_seqno (sequence_number_out s)\<rparr>)"
    "next_seqno (sequence_number_out s) \<noteq> 0 \<or> pk_initial_kex_done s"
    using link_out_write [OF wr] link_out_count [OF ct] advance_seqno_out_done [OF n] mac se(2)
    by (simp_all add: s0_def)
  ultimately show ?thesis using d pkt se(1) by blast
qed


subsection \<open>What the other end makes of it\<close>

definition link_in where
  "link_in s = (block_size_in s, mac_size_in s, etm_in s, aead_in s, pk_initial_kex_done s,
     mac_key_in s, mac_engine_in s, sequence_number_in s, block_engine_in s, iv_in s,
     compress_engine_in s)"

lemma in_step_link:
  "link_out a = link_out b \<Longrightarrow> link_in x = link_in y \<Longrightarrow> in_step c R Z a x = in_step c R Z b y"
  unfolding in_step_def link_out_def link_in_def prod.inject by (elim conjE) (simp only:)

lemma same_link_in: "same_link s t \<Longrightarrow> link_in t = link_in s"
  by (simp add: link_in_def same_link_fields)

definition Z_opt :: "('z \<Rightarrow> 'z \<Rightarrow> bool) \<Rightarrow> 'z option \<Rightarrow> 'z option \<Rightarrow> bool" where
  "Z_opt Z zo zi \<longleftrightarrow> (case (zo, zi) of (None, None) \<Rightarrow> True | (Some a, Some b) \<Rightarrow> Z a b | _ \<Rightarrow> False)"

lemma compressed_inverse:
  assumes "crypto_ok c R Z" "Z_opt Z zo zi" "compressed c zo d = (x, zo')"
  shows "\<exists>zi'. compressed c zi x = (d, zi') \<and> Z_opt Z zo' zi'"
proof (cases zo)
  case None
  with assms show ?thesis by (cases zi) (simp_all add: compressed_def Z_opt_def)
next
  case (Some a)
  with assms(2) obtain b where b: "zi = Some b" "Z a b" by (cases zi) (simp_all add: Z_opt_def)
  from assms(3) Some obtain a' where a': "compressor c a d = (x, a')" "zo' = Some a'"
    by (auto simp: compressed_def split: prod.splits)
  from crypto_ok_compress [OF assms(1) b(2) a'(1)] obtain b' where "compressor c b x = (d, b')" "Z a' b'" .
  with a' b show ?thesis by (simp add: compressed_def Z_opt_def)
qed

lemma next_seqno_mod: "next_seqno n = (n + 1) mod 2 ^ 32"
proof -
  have "next_seqno n = take_bit 32 (n + 1)"
    by (simp add: next_seqno_def take_bit_eq_mask mask_eq_exp_minus_1)
  then show ?thesis by (simp add: take_bit_eq_mod)
qed

lemma next_seqno_ok: "u32_ok (next_seqno n)"
  by (simp add: u32_ok_def next_seqno_mod)

lemma decompress_in_done:
  "compressed c (compress_engine_in s) d = (x, z') \<Longrightarrow>
   decompress_in c d s = (Done (Inr x), s\<lparr>compress_engine_in := z'\<rparr>)"
proof (cases "compress_engine_in s")
  case None
  assume "compressed c (compress_engine_in s) d = (x, z')"
  with None have "x = d" "z' = compress_engine_in s" by (simp_all add: compressed_def)
  moreover have "s\<lparr>compress_engine_in := compress_engine_in s\<rparr> = s" by (cases s) simp
  ultimately show ?thesis using None by (simp add: decompress_in_def bbind_def bget_def bret_def)
next
  case (Some z)
  moreover assume "compressed c (compress_engine_in s) d = (x, z')"
  ultimately show ?thesis
    by (cases "compressor c z d")
      (simp add: compressed_def decompress_in_def bbind_def bget_def bret_def bmodify_def)
qed

text \<open>Counting a packet never fails while no re-keying is due.\<close>

lemma count_received_done:
  assumes "\<not> pk_need_rekey s"
  shows "\<exists>s'. count_received n s = (Done (Inr ()), s') \<and> link_in s' = link_in s
    \<and> incoming s' = incoming s \<and> calm s' = calm s"
  using assms
  by (auto simp: count_received_def Let_def bret_def link_in_def trigger_rekey_def incoming_def calm_def
      handshake_timed_out_def)

lemma read_message_deliver:
  assumes rp: "read_packet c si = (Done (Inr (drop 4 pkt, len)), s1)" and fr: "is_frame len x p pkt"
    and z: "compressed c (compress_engine_in s1) x = (data, z')" and d: "data \<noteq> []"
    and n: "next_seqno (sequence_number_in s1) \<noteq> 0 \<or> pk_initial_kex_done s1" and nr: "\<not> pk_need_rekey s1"
  shows "\<exists>s'. read_message c si = (Done (Inr (hd data, tl data, sequence_number_in s1)), s')
    \<and> incoming s' = incoming s1 \<and> calm s' = calm s1
    \<and> link_in s' = link_in (s1\<lparr>compress_engine_in := z',
         sequence_number_in := next_seqno (sequence_number_in s1)\<rparr>)"
proof -
  note fp = frame_parse [OF fr]
  define s2 where "s2 = s1\<lparr>compress_engine_in := z', sequence_number_in := next_seqno (sequence_number_in s1)\<rparr>"
  obtain s3 where s3: "count_received (len + mac_size_in s2 + 4) s2 = (Done (Inr ()), s3)"
    "link_in s3 = link_in s2" "incoming s3 = incoming s2" "calm s3 = calm s2"
    using count_received_done [of s2 "len + mac_size_in s2 + 4"] nr by (auto simp: s2_def)
  have "advance_seqno_in (s1\<lparr>compress_engine_in := z'\<rparr>) = (Done (Inr ()), s2)"
    using n by (auto simp: advance_seqno_in_def Let_def bret_def s2_def)
  then have "read_message c si = (Done (Inr (hd data, tl data, sequence_number_in s1)), s3)"
    using rp fp(1-3) decompress_in_done [OF z] s3(1) d
    by (simp add: read_message_def bbind_def Let_def bget_def bret_def drop_Suc)
  then show ?thesis
    using s3 by (auto simp: s2_def incoming_def calm_def handshake_timed_out_def)
qed

lemma maced_length:
  assumes "in_step c R Z so si" "maced c so pkt out mac"
  shows "if aead_out so then mac = [] else length mac = nat (mac_size_out so)"
proof (cases "block_engine_out so = None \<or> aead_out so")
  case True
  then show ?thesis
    using assms by (auto simp: in_step_def maced_def split: option.splits)
next
  case False
  then obtain k d x where k: "mac_key_out so = Some k" "mac_engine_out so = Some d"
    "mac = slice_to (mac_size_out so) (hmac c k x d)" using assms(2) unfolding maced_def by auto
  have "mac_size_out so \<le> int (length (hmac c k x d))" "0 \<le> mac_size_out so"
    using assms(1) False k(1,2) unfolding in_step_def by (auto split: option.splits)
  then show ?thesis using False k(3) by simp
qed


lemma is_frame_mode:
  assumes "build_packet rnd x so = Inr pkt" "in_step c R Z so si" "\<And>n. length (rnd n) = n"
  obtains len p where "is_frame len x p pkt"
    "etm_out so \<or> aead_out so \<Longrightarrow> len mod block_size_out so = 0"
    "\<not> (etm_out so \<or> aead_out so) \<Longrightarrow> (len + 4) mod block_size_out so = 0"
proof -
  have "0 < block_size_out so" using assms(2) by (simp add: in_step_def)
  from build_packet_is_frame [OF assms(1) this assms(3)] obtain len p where "is_frame len x p pkt"
    "(if etm_out so \<or> aead_out so then len else len + 4) mod block_size_out so = 0" by metis
  then show ?thesis by (intro that) (auto split: if_splits)
qed

text \<open>The receiver parses the packet of the sender, whichever of the three formats is used,
  and its cipher is in step with the sender's afterwards.\<close>

lemma in_step_engines:
  assumes "in_step c R Z so si"
  shows "R_opt R (block_size_out so) (block_engine_out so) (block_engine_in si)"
    "Z_opt Z (compress_engine_out so) (compress_engine_in si)"
  using assms by (auto simp: in_step_def R_opt_def Z_opt_def split: option.splits)

lemma in_step_fields:
  assumes "in_step c R Z so si"
  shows "block_size_in si = block_size_out so" "8 \<le> block_size_out so" "mac_size_in si = mac_size_out so"
    "0 \<le> mac_size_out so" "etm_in si = etm_out so" "aead_in si = aead_out so" "\<not> (etm_out so \<and> aead_out so)"
    "sequence_number_in si = sequence_number_out so" "u32_ok (sequence_number_out so)"
    "pk_initial_kex_done si = pk_initial_kex_done so"
  using assms by (simp_all add: in_step_def)

lemma in_step_mac:
  assumes "in_step c R Z so si" "block_engine_out so \<noteq> None"
  shows "aead_out so \<Longrightarrow> mac_size_out so = 16 \<and> iv_in si = iv_out so"
    "\<not> aead_out so \<Longrightarrow> mac_key_in si = mac_key_out so \<and> mac_engine_in si = mac_engine_out so"
  using assms by (auto simp: in_step_def split: option.splits)

lemma in_step_none:
  assumes "in_step c R Z so si" "block_engine_out so = None"
  shows "\<not> etm_out so" "\<not> aead_out so" "mac_size_out so = 0"
  using assms by (auto simp: in_step_def split: option.splits)

lemma read_packet_sealed:
  assumes ok: "crypto_ok c R Z" and st: "in_step c R Z so si"
    and fr: "is_frame len x p pkt"
      "etm_out so \<or> aead_out so \<Longrightarrow> len mod block_size_out so = 0"
      "\<not> (etm_out so \<or> aead_out so) \<Longrightarrow> (len + 4) mod block_size_out so = 0"
    and se: "sealed c so pkt out e' iv'" and ma: "maced c so pkt out mac"
    and inc: "incoming si = out @ mac @ rest" and calm: "calm si" and nr: "\<not> pk_need_rekey si"
  shows "\<exists>s' ei'. read_packet c si = (Done (Inr (drop 4 pkt, len)), s') \<and> incoming s' = rest \<and> calm s'
    \<and> same_link (si\<lparr>block_engine_in := ei', iv_in := (if aead_out so then iv' else iv_in si)\<rparr>) s'
    \<and> R_opt R (block_size_out so) e' ei'"
proof -
  note f = in_step_fields [OF st]
  note ml = maced_length [OF st ma]
  note eng = in_step_engines [OF st]
  have keep: "si\<lparr>block_engine_in := ei', iv_in := iv_in si\<rparr> = si\<lparr>block_engine_in := ei'\<rparr>" for ei'
    by (cases si) simp
  consider "aead_out so" | "\<not> aead_out so" "etm_out so" | "\<not> aead_out so" "\<not> etm_out so" by blast
  then show ?thesis
  proof cases
    case 1
    then have be: "block_engine_out so \<noteq> None" using in_step_none [OF st] by blast
    with se 1 f obtain e iv v where e: "block_engine_out so = Some e" "e' = Some e" "iv_out so = Some iv"
      "inc_iv_counter iv = Inr v" "iv' = Some v" "out = take 4 pkt @ aead_encrypt c e iv (drop 4 pkt) (take 4 pkt)"
      by (auto simp: sealed_def)
    obtain ei where ei: "block_engine_in si = Some ei" "R (block_size_out so) e ei"
      using eng(1) e(1) by (cases "block_engine_in si") (simp_all add: R_opt_def)
    obtain s' where s': "read_packet c si = (Done (Inr (drop 4 pkt, len)), s')" "incoming s' = rest" "calm s'"
        "same_link (si\<lparr>iv_in := Some v\<rparr>) s'"
      using 1 f in_step_mac(1) [OF st be] e ei fr inc ml calm nr
        read_packet_aead [OF ok, of si "block_size_out so" len x p pkt ei e iv v rest] by auto
    have "si\<lparr>block_engine_in := Some ei, iv_in := Some v\<rparr> = si\<lparr>iv_in := Some v\<rparr>"
      using ei(1) by (cases si) simp
    then show ?thesis
      using s' 1 e(2,5) ei(2) by (intro exI [of _ s'] exI [of _ "Some ei"]) (simp add: R_opt_def)
  next
    case 2
    then have be: "block_engine_out so \<noteq> None" using in_step_none [OF st] by blast
    from se be 2 obtain ct where ct: "upd_opt c (block_engine_out so) (drop 4 pkt) = (ct, e')" "out = take 4 pkt @ ct"
      by (auto simp: sealed_def)
    from ma be 2 obtain k d where k: "mac_key_out so = Some k" "mac_engine_out so = Some d"
      "mac = slice_to (mac_size_out so) (hmac c k (be_enc 4 (sequence_number_out so) @ out) d)"
      by (auto simp: maced_def)
    show ?thesis
      using 2 f in_step_mac(2) [OF st be] ct k fr inc ml calm nr eng
        read_packet_etm [OF ok, of si "block_size_out so" len x p pkt "block_engine_out so" ct e' k d mac rest]
      by (auto simp: keep)
  next
    case 3
    then have ct: "upd_opt c (block_engine_out so) pkt = (out, e')" using se by (auto simp: sealed_def)
    have mk: "\<exists>k d. mac_key_in si = Some k \<and> mac_engine_in si = Some d
         \<and> mac = take (nat (mac_size_in si)) (hmac c k (be_enc 4 (sequence_number_in si) @ pkt) d)"
      if "0 < mac_size_in si"
    proof -
      have be: "block_engine_out so \<noteq> None" using in_step_none [OF st] f that by auto
      with ma 3 in_step_mac(2) [OF st be] f show ?thesis by (auto simp: maced_def)
    qed
    show ?thesis
      using 3 f ct fr inc ml calm nr eng mk
        read_packet_plain [OF ok, of si "block_size_out so" len x p pkt "block_engine_out so" out e' mac rest]
      by (auto simp: keep)
  qed
qed


lemma in_step_advance:
  assumes st: "in_step c R Z so si" and r: "R_opt R (block_size_out so) e' ei'" and z: "Z_opt Z zo zi"
    and e: "(e' = None) = (block_engine_out so = None)" and iv: "aead_out so \<Longrightarrow> v' = iv'" and n: "u32_ok n"
  shows "in_step c R Z (so\<lparr>compress_engine_out := zo, block_engine_out := e', iv_out := iv', sequence_number_out := n\<rparr>)
    (si\<lparr>compress_engine_in := zi, block_engine_in := ei', iv_in := v', sequence_number_in := n\<rparr>)"
proof (cases e')
  case None
  with r have "ei' = None" by (cases ei') (simp_all add: R_opt_def)
  with None show ?thesis
    using in_step_fields [OF st] in_step_none [OF st] e z n st by (auto simp: in_step_def Z_opt_def)
next
  case (Some a)
  with r obtain b where b: "ei' = Some b" "R (block_size_out so) a b" by (cases ei') (simp_all add: R_opt_def)
  from Some e obtain a0 where "block_engine_out so = Some a0" by auto
  with st obtain b0 where "block_engine_in si = Some b0" by (auto simp: in_step_def split: option.splits)
  with \<open>block_engine_out so = Some a0\<close> show ?thesis
    using Some b st z n iv by (auto simp: in_step_def Z_opt_def)
qed

text \<open>C1: what one end sends, the other end receives. If the outbound half of one packetizer
  and the inbound half of another agree (same sizes, keys and numbers; cipher and compressor
  states that match) and a send succeeded, then a read at the other end of the bytes that
  were written, however the network has cut them into chunks, returns the command, the
  content and the number of the packet that was sent, leaves exactly the bytes behind the
  packet, and leaves the two ends in agreement for the next packet. This holds for the
  clear, the encrypt-and-MAC, the encrypt-then-MAC and the AEAD format, with and without
  compression.\<close>

theorem send_then_read:
  assumes "crypto_ok c R Z" "in_step c R Z so si" "\<And>n. length (rnd n) = n"
    "send_message c rnd data so = (Done (Inr ()), so')" "sock_out so' = sock_out so @ wire"
    "incoming si = wire @ rest" "calm si" "\<not> need_rekey si"
  shows "\<exists>si'. read_message c si = (Done (Inr (hd data, tl data, sequence_number_out so)), si')
    \<and> incoming si' = rest \<and> in_step c R Z so' si'"
proof -
  note f = in_step_fields [OF assms(2)]
  obtain x zo where z: "compressed c (compress_engine_out so) data = (x, zo)" by force
  define n where "n = next_seqno (sequence_number_out so)"
  obtain pkt out mac e' iv' where d: "data \<noteq> []" and pkt: "build_packet rnd x so = Inr pkt"
    and se: "sealed c so pkt out e' iv'" and ma: "maced c so pkt out mac"
    and w: "sock_out so' = sock_out so @ out @ mac" and n0: "n \<noteq> 0 \<or> pk_initial_kex_done so"
    and lo: "link_out so' = link_out (so\<lparr>compress_engine_out := zo, block_engine_out := e', iv_out := iv',
       sequence_number_out := n\<rparr>)"
    using send_message_done [OF assms(4) z, folded n_def] by blast
  obtain len p where fr: "is_frame len x p pkt"
    "etm_out so \<or> aead_out so \<Longrightarrow> len mod block_size_out so = 0"
    "\<not> (etm_out so \<or> aead_out so) \<Longrightarrow> (len + 4) mod block_size_out so = 0"
    using is_frame_mode [OF pkt assms(2,3)] by blast
  define v' where "v' = (if aead_out so then iv' else iv_in si)"
  have "incoming si = out @ mac @ rest" using assms(5,6) w by simp
  then obtain s1 ei' where s1: "read_packet c si = (Done (Inr (drop 4 pkt, len)), s1)" "incoming s1 = rest"
    "calm s1" "same_link (si\<lparr>block_engine_in := ei', iv_in := v'\<rparr>) s1" "R_opt R (block_size_out so) e' ei'"
    using read_packet_sealed [OF assms(1,2) fr se ma _ assms(7)] assms(8) by (auto simp: v'_def need_rekey_def)
  note g = same_link_fields [OF s1(4), simplified]
  obtain zi where zi: "compressed c (compress_engine_in s1) x = (data, zi)" "Z_opt Z zo zi"
    using compressed_inverse [OF assms(1) in_step_engines(2) [OF assms(2)] z] g by auto
  obtain si' where si': "read_message c si = (Done (Inr (hd data, tl data, sequence_number_out so)), si')"
    "incoming si' = rest" "link_in si' = link_in (s1\<lparr>compress_engine_in := zi, sequence_number_in := n\<rparr>)"
  proof -
    have q: "sequence_number_in s1 = sequence_number_out so" "pk_initial_kex_done s1 = pk_initial_kex_done so"
      "\<not> pk_need_rekey s1" using g f(8,10) assms(8) by (simp_all add: need_rekey_def)
    from read_message_deliver [OF s1(1) fr(1) zi(1) d] n0 q show ?thesis
      using that s1(2) unfolding n_def q by blast
  qed
  have "link_in si' = link_in (si\<lparr>compress_engine_in := zi, block_engine_in := ei', iv_in := v',
      sequence_number_in := n\<rparr>)"
    using si'(3) g by (simp add: link_in_def)
  moreover have "in_step c R Z (so\<lparr>compress_engine_out := zo, block_engine_out := e', iv_out := iv',
      sequence_number_out := n\<rparr>) (si\<lparr>compress_engine_in := zi, block_engine_in := ei', iv_in := v',
      sequence_number_in := n\<rparr>)"
    using assms(2) s1(5) zi(2) sealed_engine [OF se] next_seqno_ok
    by (intro in_step_advance) (auto simp: v'_def n_def)
  ultimately have "in_step c R Z so' si'" using in_step_link [OF lo] by blast
  with si' show ?thesis by blast
qed


text \<open>A concrete crypto: a stream cipher that adds a key byte, a checksum as MAC, an AEAD
  with an empty tag, and a compressor that does nothing.\<close>

definition demo_crypto :: "(byte, unit, unit) crypto" where
  "demo_crypto = \<lparr>cipher_update = (\<lambda>e d. (map (\<lambda>b. b XOR e) d, e)),
     aead_encrypt = (\<lambda>e iv d aad. d @ replicate 16 0),
     aead_decrypt = (\<lambda>e iv x aad. Inr (take (length x - 16) x)),
     hmac = (\<lambda>k m d. replicate 20 (foldr (+) m (foldr (+) k 0))),
     compressor = (\<lambda>z d. (d, z))\<rparr>"

lemma demo_crypto_ok: "crypto_ok demo_crypto (\<lambda>b eo ei. eo = ei) (\<lambda>_ _. True)"
proof -
  have x: "(b XOR e) XOR e = b" for b e :: byte by (simp add: xor.assoc)
  show ?thesis
    by (auto simp: crypto_ok_def cipher_inverse_def cipher_streams_def aead_inverse_def compress_inverse_def
        demo_crypto_def x comp_def)
qed

definition demo_so :: "(byte, unit, unit) packetizer" where
  "demo_so = set_outbound_cipher 90 16 (Some ()) 20 (Some [1]) False True False None
     (Packetizer_init [] [SSent 3, STimeout, SSent 37] 0)"

definition demo_si :: "(byte, unit, unit) packetizer" where
  "demo_si = set_inbound_cipher 90 16 (Some ()) 20 (Some [1]) True False None
     (Packetizer_init [RData [0, 0, 0, 16, 86], RTimeout 1,
        RData ([4, 91, 88] @ replicate 12 93 @ replicate 20 122 @ [5, 6])] [] 0)"

lemma demo_in_step: "in_step demo_crypto (\<lambda>b eo ei. eo = ei) (\<lambda>_ _. True) demo_so demo_si"
  by (simp add: in_step_def demo_so_def demo_si_def demo_crypto_def set_outbound_cipher_def
      set_inbound_cipher_def note_switched_def Packetizer_init_def u32_ok_def Let_def)

theorem send_then_read_witness:
  "\<exists>si'. read_message demo_crypto demo_si = (Done (Inr (94, [1, 2], 0)), si') \<and> incoming si' = [5, 6]
    \<and> in_step demo_crypto (\<lambda>b eo ei. eo = ei) (\<lambda>_ _. True)
        (snd (send_message demo_crypto (\<lambda>n. replicate n 7) [94, 1, 2] demo_so)) si'"
proof -
  have so: "send_message demo_crypto (\<lambda>n. replicate n 7) [94, 1, 2] demo_so =
      (Done (Inr ()), snd (send_message demo_crypto (\<lambda>n. replicate n 7) [94, 1, 2] demo_so))"
    "sock_out (snd (send_message demo_crypto (\<lambda>n. replicate n 7) [94, 1, 2] demo_so)) =
       sock_out demo_so @ [0, 0, 0, 16, 86, 4, 91, 88] @ replicate 12 93 @ replicate 20 122"
    by code_simp+
  moreover have si: "incoming demo_si = ([0, 0, 0, 16, 86, 4, 91, 88] @ replicate 12 93 @ replicate 20 122) @ [5, 6]"
    "calm demo_si" "\<not> need_rekey demo_si" "sequence_number_out demo_so = 0"
    by code_simp+
  ultimately show ?thesis
    using send_then_read [OF demo_crypto_ok demo_in_step _ so(1,2) si(1-3)] by simp
qed


section \<open>What was checked before a packet is delivered\<close>

text \<open>A read that returns has taken its bytes off the front of the stream, whatever else the
  socket and the other threads did meanwhile.\<close>

lemma link_in_flags [simp]:
  "link_in (read_timer s) = link_in s" "link_in (close_packetizer s) = link_in s"
  "link_in (trigger_rekey s) = link_in s" "link_in (check_keepalive n s) = link_in s"
  "link_in (s\<lparr>sock_in := evs\<rparr>) = link_in s" "link_in (s\<lparr>remainder := b\<rparr>) = link_in s"
  "link_in (s\<lparr>clock := t\<rparr>) = link_in s"
  by (simp_all add: link_in_def read_timer_def close_packetizer_def trigger_rekey_def check_keepalive_def)

lemma remainder_flags [simp]:
  "remainder (read_timer s) = remainder s" "remainder (close_packetizer s) = remainder s"
  "remainder (trigger_rekey s) = remainder s" "remainder (check_keepalive n s) = remainder s"
  by (simp_all add: read_timer_def close_packetizer_def trigger_rekey_def check_keepalive_def)

lemma read_loop_taken:
  "read_loop r n out evs s = (Done (Inr x), s') \<Longrightarrow>
   \<exists>y. x = out @ y \<and> stream evs = y @ stream (sock_in s') \<and> length y = nat n
     \<and> remainder s' = remainder s \<and> link_in s' = link_in s"
proof (induction r n out evs s rule: read_loop.induct)
  case (1 r n out s)
  then show ?case by (auto split: if_splits)
next
  case (2 r n out ev evs s)
  show ?case
  proof (cases "n \<le> 0")
    case True
    with "2.prems" show ?thesis by auto
  next
    case False
    with "2.prems" have ht: "\<not> handshake_timed_out s" by auto
    show ?thesis
    proof (cases ev)
      case (RData d)
      consider "d = []" | "d \<noteq> []" "int (length d) \<le> n" | "d \<noteq> []" "\<not> int (length d) \<le> n" by blast
      then show ?thesis
      proof cases
        case 2
        with "2.IH"(1) [of d] "2.prems" False ht RData obtain y where
          "x = (out @ d) @ y" "stream evs = y @ stream (sock_in s')" "length y = nat (n - int (length d))"
          "remainder s' = remainder s" "link_in s' = link_in s" by auto
        with 2 RData show ?thesis by (intro exI [of _ "d @ y"]) auto
      next
        case 3
        then have m: "min (length d) (nat n) = nat n" by simp
        from 3 "2.prems" False ht RData have
          "x = out @ take (nat n) d" "s' = s\<lparr>sock_in := RData (drop (nat n) d) # evs\<rparr>" by auto
        with RData m show ?thesis by (intro exI [of _ "take (nat n) d"]) simp
      qed (use "2.prems" False ht RData in auto)
    next
      case (RTimeout now)
      with "2.prems" False ht show ?thesis
        using "2.IH"(2) [of now] by (fastforce simp: after_timeout_def split: if_splits)
    next
      case (REagain now)
      with "2.prems" False ht show ?thesis
        using "2.IH"(3) [of now] by (fastforce simp: after_timeout_def split: if_splits)
    next
      case RTimerFires
      with "2.prems" False ht "2.IH"(4) show ?thesis by (auto simp: stream_def)
    next
      case RClosedByOther
      with "2.prems" False ht "2.IH"(5) show ?thesis by (auto simp: stream_def)
    next
      case RRekeyByOther
      with "2.prems" False ht "2.IH"(6) show ?thesis by (auto simp: stream_def)
    qed (use "2.prems" False ht in \<open>auto split: if_splits\<close>)
  qed
qed

lemma read_all_taken:
  assumes "read_all n r s = (Done (Inr x), s')" "0 \<le> n \<or> remainder s = []"
  shows "incoming s = x @ incoming s'" "length x = nat n" "link_in s' = link_in s"
    "remainder s = [] \<Longrightarrow> remainder s' = []"
proof -
  have "incoming s = x @ incoming s' \<and> length x = nat n \<and> link_in s' = link_in s
    \<and> (remainder s = [] \<longrightarrow> remainder s' = [])"
  proof (cases "remainder s = []")
    case True
    with assms(1) read_loop_taken [of r n "[]" "sock_in s" s x s'] show ?thesis
      by (auto simp: read_all_def incoming_def)
  next
    case False
    with assms(2) have n: "0 \<le> n" by simp
    define k where "k = take (nat n) (remainder s)"
    define s0 where "s0 = s\<lparr>remainder := drop (nat n) (remainder s)\<rparr>"
    from assms(1) False n have "read_loop r (n - int (length k)) k (sock_in s) s0 = (Done (Inr x), s')"
      by (simp add: read_all_def Let_def k_def s0_def)
    from read_loop_taken [OF this] obtain y where y: "x = k @ y" "stream (sock_in s) = y @ stream (sock_in s')"
      "length y = nat (n - int (length k))" "remainder s' = drop (nat n) (remainder s)" "link_in s' = link_in s"
      by (auto simp: s0_def)
    have "y = []" if "nat n < length (remainder s)" using y(3) that n by (simp add: k_def)
    then have "incoming s = x @ incoming s'"
      using y(1,2,4) by (cases "nat n < length (remainder s)") (simp_all add: incoming_def k_def)
    moreover have "length x = nat n" using y(1,3) n by (simp add: k_def)
    ultimately show ?thesis using y(5) False by simp
  qed
  then show "incoming s = x @ incoming s'" "length x = nat n" "link_in s' = link_in s"
    "remainder s = [] \<Longrightarrow> remainder s' = []" by simp_all
qed


text \<open>That the bytes \<open>wire\<close>, taken by a packetizer in state \<open>s\<close>, carry the packet \<open>pkt\<close> of
  length \<open>len\<close> and passed the check of the mode in use: in the first two modes the MAC over the
  sequence number, the length and the packet is right, in the third the AEAD has opened the
  packet under the current nonce with the length as associated data.\<close>

definition mac_of ::
  "('e, 'z, 'd) crypto \<Rightarrow> ('e, 'z, 'd) packetizer \<Rightarrow> int \<Rightarrow> bytes \<Rightarrow> bytes \<Rightarrow> bool" where
  "mac_of c s len body mac \<longleftrightarrow>
     (\<exists>k d. mac_key_in s = Some k \<and> mac_engine_in s = Some d
        \<and> mac = slice_to (mac_size_in s) (hmac c k (be_enc 4 (sequence_number_in s) @ be_enc 4 len @ body) d))"

definition authentic ::
  "('e, 'z, 'd) crypto \<Rightarrow> ('e, 'z, 'd) packetizer \<Rightarrow> bytes \<Rightarrow> int \<Rightarrow> bytes \<Rightarrow> bool" where
  "authentic c s wire len pkt \<longleftrightarrow>
     (if etm_in s then
        \<exists>ct mac. wire = be_enc 4 len @ ct @ mac \<and> mac_of c s len ct mac
          \<and> pkt = fst (upd_opt c (block_engine_in s) ct)
      else if aead_in s then
        \<exists>e iv ct. block_engine_in s = Some e \<and> iv_in s = Some iv \<and> wire = be_enc 4 len @ ct
          \<and> aead_decrypt c e iv ct (be_enc 4 len) = Inr pkt
      else
        \<exists>first rest mac h e1. wire = first @ rest @ mac
          \<and> upd_opt c (block_engine_in s) first = (h, e1) \<and> take 4 h = be_enc 4 len
          \<and> pkt = drop 4 h @ fst (upd_opt c e1 rest) \<and> mac_of c s len pkt mac)"

lemma check_mac_passed:
  assumes "check_mac c len body mac s = (Done (Inr u), s')"
  shows "s' = s" "mac_of c s len body mac"
  using assms
  by (cases "mac_key_in s"; cases "mac_engine_in s";
      auto simp: check_mac_def bbind_def blift_def bret_def braise_def rbind_def struct_pack_def compute_hmac_def
        constant_time_bytes_eq_iff mac_of_def split: if_splits)+

lemma mac_of_link: "link_in s' = link_in s \<Longrightarrow> mac_of c s' len body mac = mac_of c s len body mac"
  by (simp add: mac_of_def link_in_def)

lemma unpack_4:
  assumes "struct_unpack 4 x = Inr n"
  shows "x = be_enc 4 n" "0 \<le> n" "n < 2 ^ 32"
proof -
  have x: "length x = 4" "n = be_dec x" using assms by (auto simp: struct_unpack_def split: if_splits)
  show "x = be_enc 4 n" using be_enc_be_dec [of x] x by simp
  show "0 \<le> n" "n < 2 ^ 32" using be_dec_bounds [of x] x by simp_all
qed

text \<open>One lemma per stage of \<^verbatim>\<open>read_message\<close>, each from the state in which the stage starts.\<close>

lemma read_etm_passed:
  assumes re: "read_etm c h s = (Done (Inr hp), s')" and m: "etm_in s" and rem: "remainder s = []"
  shows "\<exists>rest mac. hp = (drop 4 h @ rest, snd hp) \<and> take 4 h = be_enc 4 (snd hp)
    \<and> incoming s = rest @ mac @ incoming s' \<and> mac_of c s (snd hp) (drop 4 h @ rest) mac \<and> link_in s' = link_in s"
proof -
  obtain n where n: "struct_unpack 4 (take 4 h) = Inr n"
    using re m by (cases "struct_unpack 4 (take 4 h)") (auto simp: read_etm_def)
  from re m n have "bbind (read_all (n - block_size_in s + 4) False) (\<lambda>rest.
        bbind (read_all (mac_size_in s) False) (\<lambda>mac.
        bbind (check_mac c n (drop 4 h @ rest) mac) (\<lambda>_.
        bret (drop 4 h @ rest, n)))) s = (Done (Inr hp), s')"
    by (simp add: read_etm_def Let_def)
  then obtain rest s2 where r2: "read_all (n - block_size_in s + 4) False s = (Done (Inr rest), s2)" and r:
    "bbind (read_all (mac_size_in s) False) (\<lambda>mac. bbind (check_mac c n (drop 4 h @ rest) mac) (\<lambda>_.
        bret (drop 4 h @ rest, n))) s2 = (Done (Inr hp), s')"
    by (rule bbind_eq_InrE)
  from r obtain mac s3 where r3: "read_all (mac_size_in s) False s2 = (Done (Inr mac), s3)" and r:
    "bbind (check_mac c n (drop 4 h @ rest) mac) (\<lambda>_. bret (drop 4 h @ rest, n)) s3 = (Done (Inr hp), s')"
    by (rule bbind_eq_InrE)
  from r obtain u where cm: "check_mac c n (drop 4 h @ rest) mac s3 = (Done (Inr u), s')" and hp: "hp = (drop 4 h @ rest, n)"
    by (rule bbind_eq_InrE) (auto simp: bret_def)
  note t2 = read_all_taken [OF r2 disjI2 [OF rem]]
  note t3 = read_all_taken [OF r3 disjI2 [OF t2(4) [OF rem]]]
  note cm = check_mac_passed [OF cm]
  have "mac_of c s n (drop 4 h @ rest) mac" using cm(2) mac_of_link t2(3) t3(3) by metis
  with t2 t3 cm(1) hp unpack_4(1) [OF n] show ?thesis
    by (intro exI [of _ rest] exI [of _ mac]) simp
qed

lemma read_aead_passed:
  assumes ra: "read_aead c (h, k) s = (Done (Inr hp), s')" and m: "aead_in s" and rem: "remainder s = []"
  shows "\<exists>rest e iv. take 4 h = be_enc 4 (snd hp) \<and> incoming s = rest @ incoming s' \<and> block_engine_in s = Some e
    \<and> iv_in s = Some iv \<and> aead_decrypt c e iv (drop 4 h @ rest) (take 4 h) = Inr (fst hp)
    \<and> (\<exists>iv'. inc_iv_counter iv = Inr iv' \<and> link_in s' = link_in (s\<lparr>iv_in := Some iv'\<rparr>))"
proof -
  obtain n where n: "struct_unpack 4 (take 4 h) = Inr n"
    using ra m by (cases "struct_unpack 4 (take 4 h)") (auto simp: read_aead_def)
  define op where "op x = (case (block_engine_in s, iv_in s) of
      (Some e, Some iv) \<Rightarrow> aead_decrypt c e iv x (take 4 h) | _ \<Rightarrow> Inl TypeError)" for x
  from ra m n have "bbind (read_all (n - block_size_in s + 4 + mac_size_in s) False) (\<lambda>rest.
        bbind (blift (op (drop 4 h @ rest))) (\<lambda>header.
        bbind (blift (inc_iv_opt (iv_in s))) (\<lambda>iv'.
        bbind (bmodify (\<lambda>s. s\<lparr>iv_in := iv'\<rparr>)) (\<lambda>_. bret (header, n))))) s = (Done (Inr hp), s')"
    by (simp add: read_aead_def Let_def op_def)
  then obtain rest s2 where r2: "read_all (n - block_size_in s + 4 + mac_size_in s) False s = (Done (Inr rest), s2)" and r:
    "bbind (blift (op (drop 4 h @ rest))) (\<lambda>header. bbind (blift (inc_iv_opt (iv_in s))) (\<lambda>iv'.
        bbind (bmodify (\<lambda>s. s\<lparr>iv_in := iv'\<rparr>)) (\<lambda>_. bret (header, n)))) s2 = (Done (Inr hp), s')"
    by (rule bbind_eq_InrE)
  obtain p where p: "op (drop 4 h @ rest) = Inr p" using r by (cases "op (drop 4 h @ rest)") auto
  obtain iv2 where iv2: "inc_iv_opt (iv_in s) = Inr iv2" using r p by (cases "inc_iv_opt (iv_in s)") auto
  have hp: "hp = (p, n)" "s' = s2\<lparr>iv_in := iv2\<rparr>" using r p iv2 by (simp_all add: bret_def)
  obtain e iv where e: "block_engine_in s = Some e" "iv_in s = Some iv"
    "aead_decrypt c e iv (drop 4 h @ rest) (take 4 h) = Inr p"
    using p by (auto simp: op_def split: option.splits)
  obtain iv' where iv': "inc_iv_counter iv = Inr iv'" "iv2 = Some iv'"
    using iv2 e(2) by (auto simp: inc_iv_opt_def rbind_def split: sum.splits)
  note t2 = read_all_taken [OF r2 disjI2 [OF rem]]
  have "link_in s' = link_in (s\<lparr>iv_in := Some iv'\<rparr>)" using t2(3) iv' by (simp add: hp(2) link_in_def)
  with t2 e iv' hp unpack_4(1) [OF n] show ?thesis
    by (intro exI [of _ rest] exI [of _ e] exI [of _ iv]) simp
qed

lemma not_block_negative:
  fixes l n b :: int
  assumes "l mod b = 0" "l = n - b + 4" "0 \<le> n" "8 \<le> b"
  shows "0 \<le> l"
proof (rule ccontr)
  assume "\<not> 0 \<le> l"
  with assms(2-4) have "0 < l + b" "l + b < b" by linarith+
  moreover from this have "(l + b) mod b = l + b" by (intro mod_pos_pos_trivial) simp_all
  ultimately show False using assms(1) by simp
qed

lemma read_rest_passed:
  assumes rr: "read_rest c h k s = (Done (Inr (pkt, len)), s')" and m: "\<not> etm_in s" "\<not> aead_in s"
    and rem: "remainder s = []" and ms: "0 < mac_size_in s" and b: "length h = nat (block_size_in s)" "8 \<le> block_size_in s"
  shows "\<exists>body mac x e1. take 4 h = be_enc 4 len \<and> incoming s = body @ mac @ incoming s'
    \<and> upd_opt c (block_engine_in s) body = (x, e1) \<and> pkt = drop 4 h @ x \<and> mac_of c s len pkt mac
    \<and> link_in s' = link_in (s\<lparr>block_engine_in := e1\<rparr>)"
proof -
  obtain n where n: "struct_unpack 4 (take 4 h) = Inr n"
    using rr m by (cases "struct_unpack 4 (take 4 h)") (auto simp: read_rest_def)
  define left where "left = n - int (length (drop 4 h))"
  have left: "n - int (length (drop 4 h)) = left" "n + mac_size_in s - int (length (drop 4 h)) = left + mac_size_in s"
    by (simp_all add: left_def)
  have s4: "slice_to 4 h = take 4 h" "slice_from 4 h = drop 4 h" by simp_all
  have l0': "left mod block_size_in s = 0"
    using rr m n by (auto simp: read_rest_def Let_def left_def braise_def split: if_splits)
  have l0: "0 \<le> left"
    by (rule not_block_negative [OF l0' _ unpack_4(2) [OF n] b(2)]) (use b in \<open>simp add: left_def\<close>)
  from rr m n have r: "bbind (read_all (left + mac_size_in s) False) (\<lambda>buf.
          bbind (decrypt_in c (slice_to left buf)) (\<lambda>packet.
          bbind (check_mac c n (drop 4 h @ packet) (slice_to (mac_size_in s) (slice_from left buf))) (\<lambda>_.
          bret (drop 4 h @ packet, n)))) s = (Done (Inr (pkt, len)), s')"
    using ms by (simp add: read_rest_def Let_def s4 l0' left del: slice_to_nonneg slice_from_nonneg length_drop)
  then obtain buf s2 where r2: "read_all (left + mac_size_in s) False s = (Done (Inr buf), s2)" and r:
    "bbind (decrypt_in c (slice_to left buf)) (\<lambda>packet.
          bbind (check_mac c n (drop 4 h @ packet) (slice_to (mac_size_in s) (slice_from left buf))) (\<lambda>_.
          bret (drop 4 h @ packet, n))) s2 = (Done (Inr (pkt, len)), s')"
    by (rule bbind_eq_InrE)
  note t2 = read_all_taken [OF r2 disjI2 [OF rem]]
  have be: "block_engine_in s2 = block_engine_in s" using t2(3) by (simp add: link_in_def)
  obtain x e1 where x: "upd_opt c (block_engine_in s) (slice_to left buf) = (x, e1)" by force
  define s3 where "s3 = s2\<lparr>block_engine_in := e1\<rparr>"
  have d: "decrypt_in c (slice_to left buf) s2 = (Done (Inr x), s3)"
    using decrypt_in_upd [of c s2] x be by (simp add: s3_def)
  from r have r: "bbind (check_mac c n (drop 4 h @ x) (slice_to (mac_size_in s) (slice_from left buf))) (\<lambda>_.
          bret (drop 4 h @ x, n)) s3 = (Done (Inr (pkt, len)), s')" by (simp add: bbind_def [of "decrypt_in _ _"] d)
  then obtain u where cm: "check_mac c n (drop 4 h @ x) (slice_to (mac_size_in s) (slice_from left buf)) s3 = (Done (Inr u), s')"
    and o: "pkt = drop 4 h @ x" "len = n" by (rule bbind_eq_InrE) (auto simp: bret_def)
  note cm = check_mac_passed [OF cm]
  have l3: "link_in s3 = link_in (s\<lparr>block_engine_in := e1\<rparr>)" using t2(3) by (simp add: s3_def link_in_def)
  have mo: "mac_of c s n (drop 4 h @ x) (slice_to (mac_size_in s) (slice_from left buf))"
    using cm(2) l3 by (simp add: mac_of_def link_in_def)
  have l: "length buf = nat (left + mac_size_in s)" using t2(2) by simp
  have bufs: "buf = slice_to left buf @ slice_to (mac_size_in s) (slice_from left buf)"
    using l l0 ms by (simp add: nat_add_distrib)
  have "incoming s = slice_to left buf @ slice_to (mac_size_in s) (slice_from left buf) @ incoming s'"
    using t2(1) bufs cm(1) by (simp only: append.assoc [symmetric] s3_def incoming_engine_update)
  with x o cm(1) l3 mo unpack_4(1) [OF n] show ?thesis by blast
qed


definition block_updates :: "('e, 'z, 'd) crypto \<Rightarrow> int \<Rightarrow> bool" where
  "block_updates c b \<longleftrightarrow> (\<forall>e d. int (length d) = b \<longrightarrow> length (fst (cipher_update c e d)) = length d)"

lemma upd_opt_length:
  assumes "block_updates c b" "int (length d) = b" "upd_opt c e d = (x, e')"
  shows "length x = length d"
proof (cases e)
  case (Some k)
  with assms(3) have "x = fst (cipher_update c k d)" by (auto simp: upd_opt_def split: prod.splits)
  with assms(1,2) show ?thesis unfolding block_updates_def by blast
qed (use assms in \<open>simp add: upd_opt_def\<close>)

lemma link_in_modes:
  assumes "link_in t = link_in s"
  shows "etm_in t = etm_in s" "aead_in t = aead_in s" "block_engine_in t = block_engine_in s"
    "mac_size_in t = mac_size_in s" "block_size_in t = block_size_in s" "iv_in t = iv_in s"
  using assms by (simp_all add: link_in_def)

lemma read_packet_stages:
  assumes rp: "read_packet c s = (Done (Inr (pkt, len)), s')" and rem: "remainder s = []"
  obtains h s1 where "incoming s = h @ incoming s1" "length h = nat (block_size_in s)" "link_in s1 = link_in s"
    "remainder s1 = []"
    "bbind (read_etm c h) (\<lambda>hp. bbind (read_aead c hp) (\<lambda>hp. bbind (decrypt_header c (fst hp)) (\<lambda>header.
       read_rest c header (snd hp)))) s1 = (Done (Inr (pkt, len)), s')"
proof -
  from rp [unfolded read_packet_def] obtain h s1 where
    r1: "read_all (block_size_in s) True s = (Done (Inr h), s1)" and q:
    "bbind (read_etm c h) (\<lambda>hp. bbind (read_aead c hp) (\<lambda>hp. bbind (decrypt_header c (fst hp)) (\<lambda>header.
       read_rest c header (snd hp)))) s1 = (Done (Inr (pkt, len)), s')" by (rule bbind_eq_InrE)
  from that [OF _ _ _ _ q] read_all_taken [OF r1 disjI2 [OF rem]] rem show ?thesis by blast
qed

lemma read_packet_authentic:
  assumes rp: "read_packet c s = (Done (Inr (pkt, len)), s')" and b: "8 \<le> block_size_in s"
    and rem: "remainder s = []" and m: "etm_in s \<or> aead_in s \<or> 0 < mac_size_in s" "\<not> (etm_in s \<and> aead_in s)"
    and bu: "block_updates c (block_size_in s)"
  shows "\<exists>wire e v. incoming s = wire @ incoming s' \<and> authentic c s wire len pkt
    \<and> link_in s' = link_in (s\<lparr>block_engine_in := e, iv_in := v\<rparr>)"
proof -
  obtain h s1 where h: "incoming s = h @ incoming s1" "length h = nat (block_size_in s)" "link_in s1 = link_in s"
    "remainder s1 = []" and q:
    "bbind (read_etm c h) (\<lambda>hp. bbind (read_aead c hp) (\<lambda>hp. bbind (decrypt_header c (fst hp)) (\<lambda>header.
       read_rest c header (snd hp)))) s1 = (Done (Inr (pkt, len)), s')"
    using read_packet_stages [OF rp rem] by blast
  note f1 = link_in_modes [OF h(3)]
  have h4: "h = take 4 h @ drop 4 h" by simp
  consider "etm_in s" "\<not> aead_in s" | "\<not> etm_in s" "aead_in s" | "\<not> etm_in s" "\<not> aead_in s" "0 < mac_size_in s"
    using m by blast
  then show ?thesis
  proof cases
    case 1
    from q obtain hp s2 where re: "read_etm c h s1 = (Done (Inr hp), s2)" and q:
      "bbind (read_aead c hp) (\<lambda>hp. bbind (decrypt_header c (fst hp)) (\<lambda>header.
         read_rest c header (snd hp))) s2 = (Done (Inr (pkt, len)), s')" by (rule bbind_eq_InrE)
    obtain rest mac where e: "hp = (drop 4 h @ rest, snd hp)" "take 4 h = be_enc 4 (snd hp)"
      "incoming s1 = rest @ mac @ incoming s2" "mac_of c s1 (snd hp) (drop 4 h @ rest) mac" "link_in s2 = link_in s1"
      using read_etm_passed [OF re _ h(4)] 1 f1 by blast
    obtain ct where ct: "fst hp = ct" "drop 4 h @ rest = ct" using e(1) by (cases hp) simp
    have l2: "link_in s2 = link_in s" using e(5) h(3) by simp
    note f2 = link_in_modes [OF l2]
    obtain p e1 where pe: "upd_opt c (block_engine_in s2) ct = (p, e1)" by force
    have q: "pkt = p" "len = snd hp" "s' = s2\<lparr>block_engine_in := e1\<rparr>"
      using q 1 f2 decrypt_in_upd [OF pe] ct(1)
      by (simp_all add: read_aead_def decrypt_header_def read_rest_def bret_def bbind_def)
    have "authentic c s (be_enc 4 len @ ct @ mac) len pkt"
      using 1 q pe f2 e(4) mac_of_link [OF h(3)] unfolding authentic_def ct(2) by force
    moreover have "incoming s = (be_enc 4 len @ ct @ mac) @ incoming s'"
      using h(1) h4 e(2,3) q ct(2) by (metis append.assoc incoming_engine_update(1))
    moreover have "link_in s' = link_in (s\<lparr>block_engine_in := e1, iv_in := iv_in s\<rparr>)"
      using l2 by (simp add: q(3) link_in_def)
    ultimately show ?thesis by blast
  next
    case 2
    with q f1 have "bbind (read_aead c (h, 0)) (\<lambda>hp. bbind (decrypt_header c (fst hp)) (\<lambda>header.
         read_rest c header (snd hp))) s1 = (Done (Inr (pkt, len)), s')"
      by (simp add: bbind_def [of "read_etm _ _"] read_etm_def bret_def)
    then obtain hp s2 where ra: "read_aead c (h, 0) s1 = (Done (Inr hp), s2)" and q:
      "bbind (decrypt_header c (fst hp)) (\<lambda>header. read_rest c header (snd hp)) s2 = (Done (Inr (pkt, len)), s')"
      by (rule bbind_eq_InrE)
    obtain rest e iv iv' where e: "take 4 h = be_enc 4 (snd hp)" "incoming s1 = rest @ incoming s2"
      "block_engine_in s1 = Some e" "iv_in s1 = Some iv" "aead_decrypt c e iv (drop 4 h @ rest) (take 4 h) = Inr (fst hp)"
      "link_in s2 = link_in (s1\<lparr>iv_in := Some iv'\<rparr>)"
      using read_aead_passed [OF ra _ h(4)] 2 f1 by blast
    have f2: "\<not> etm_in s2" "aead_in s2" using 2 f1 e(6) by (simp_all add: link_in_def)
    have q: "pkt = fst hp" "len = snd hp" "s' = s2"
      using q f2 by (simp_all add: decrypt_header_def read_rest_def bret_def bbind_def)
    have "authentic c s (be_enc 4 len @ drop 4 h @ rest) len pkt"
      using 2 q e f1 unfolding authentic_def by simp
    moreover have "incoming s = (be_enc 4 len @ drop 4 h @ rest) @ incoming s'"
      using h(1) h4 e(1,2) q by (metis append.assoc)
    moreover have "link_in s' = link_in (s\<lparr>block_engine_in := block_engine_in s, iv_in := Some iv'\<rparr>)"
      using e(6) h(3) by (simp add: q(3) link_in_def)
    ultimately show ?thesis by blast
  next
    case 3
    obtain x e1 where x: "upd_opt c (block_engine_in s1) h = (x, e1)" by force
    define s2 where "s2 = s1\<lparr>block_engine_in := e1\<rparr>"
    have "read_rest c x 0 s2 = (Done (Inr (pkt, len)), s')"
      using q 3 f1 decrypt_in_upd [OF x]
      by (simp add: bbind_def read_etm_def read_aead_def decrypt_header_def bret_def s2_def)
    moreover have "length x = nat (block_size_in s2)"
      using upd_opt_length [OF bu _ x] h(2) b f1 by (simp add: s2_def)
    ultimately obtain body mac y e2 where e: "take 4 x = be_enc 4 len" "incoming s2 = body @ mac @ incoming s'"
      "upd_opt c (block_engine_in s2) body = (y, e2)" "pkt = drop 4 x @ y" "mac_of c s2 len pkt mac"
      "link_in s' = link_in (s2\<lparr>block_engine_in := e2\<rparr>)"
      using read_rest_passed [of c x 0 s2 pkt len s'] 3 f1 h(4) b by (auto simp: s2_def)
    have "mac_of c s len pkt mac" using e(5) h(3) by (simp add: s2_def mac_of_def link_in_def)
    then have "authentic c s (h @ body @ mac) len pkt"
      using 3 x f1 e(1,3,4) unfolding authentic_def
      by (simp, intro exI [of _ h] exI [of _ body] exI [of _ mac]) (simp add: s2_def)
    moreover have "incoming s = (h @ body @ mac) @ incoming s'"
      using h(1) e(2) by (simp add: s2_def)
    moreover have "link_in s' = link_in (s\<lparr>block_engine_in := e2, iv_in := iv_in s\<rparr>)"
      using e(6) h(3) by (simp add: s2_def link_in_def)
    ultimately show ?thesis by blast
  qed
qed


lemma count_received_link:
  assumes "count_received n s = (Done (Inr u), s')"
  shows "link_in s' = link_in s" "incoming s' = incoming s"
  using assms
  by (auto simp: count_received_def Let_def bret_def braise_def link_in_def incoming_def trigger_rekey_def
      split: if_splits)

lemma advance_seqno_in_done:
  assumes "advance_seqno_in s = (Done (Inr u), s')"
  shows "s' = s\<lparr>sequence_number_in := next_seqno (sequence_number_in s)\<rparr>"
    "next_seqno (sequence_number_in s) \<noteq> 0 \<or> pk_initial_kex_done s"
  using assms by (auto simp: advance_seqno_in_def Let_def braise_def bret_def split: if_splits)

lemma read_message_stages:
  assumes "read_message c s = (Done (Inr (cmd, body, seq)), s')"
  obtains pkt len s1 z where "read_packet c s = (Done (Inr (pkt, len)), s1)" "pkt \<noteq> []"
    "compressed c (compress_engine_in s1) (slice 1 (len - uint (hd pkt)) pkt) = (cmd # body, z)"
    "seq = sequence_number_in s1" "next_seqno seq \<noteq> 0 \<or> pk_initial_kex_done s1"
    "link_in s' = link_in (s1\<lparr>compress_engine_in := z, sequence_number_in := next_seqno seq\<rparr>)"
    "incoming s' = incoming s1"
proof -
  from assms [unfolded read_message_def Let_def] obtain pp s1 where pp: "read_packet c s = (Done (Inr pp), s1)" and q:
    "(if fst pp = [] then braise IndexError
      else bbind (decompress_in c (slice 1 (snd pp - uint (hd (fst pp))) (fst pp))) (\<lambda>payload.
       bbind (bget sequence_number_in) (\<lambda>seqno.
       bbind advance_seqno_in (\<lambda>_.
       bbind (\<lambda>s. count_received (snd pp + mac_size_in s + 4) s) (\<lambda>_.
       if payload = [] then braise IndexError
       else bret (hd payload, slice_from 1 payload, seqno)))))) s1 = (Done (Inr (cmd, body, seq)), s')"
    by (rule bbind_eq_InrE)
  obtain pkt len where p: "pp = (pkt, len)" by force
  have ne: "pkt \<noteq> []" using q p by (auto simp: braise_def)
  obtain y z where yz: "compressed c (compress_engine_in s1) (slice 1 (len - uint (hd pkt)) pkt) = (y, z)" by force
  define s2 where "s2 = s1\<lparr>compress_engine_in := z\<rparr>"
  have "bbind advance_seqno_in (\<lambda>_. bbind (\<lambda>s. count_received (len + mac_size_in s + 4) s) (\<lambda>_.
       if y = [] then braise IndexError
       else bret (hd y, slice_from 1 y, sequence_number_in s1))) s2 = (Done (Inr (cmd, body, seq)), s')"
    using q ne decompress_in_done [OF yz]
    by (cases "y = []") (simp_all add: p bbind_def [of "decompress_in _ _"] s2_def)
  then obtain u s3 where ad: "advance_seqno_in s2 = (Done (Inr u), s3)" and q:
    "bbind (\<lambda>s. count_received (len + mac_size_in s + 4) s) (\<lambda>_. if y = [] then braise IndexError
       else bret (hd y, slice_from 1 y, sequence_number_in s1)) s3 = (Done (Inr (cmd, body, seq)), s')"
    by (rule bbind_eq_InrE)
  from q obtain u s4 where cr: "count_received (len + mac_size_in s3 + 4) s3 = (Done (Inr u), s4)" and q:
    "(if y = [] then braise IndexError else bret (hd y, slice_from 1 y, sequence_number_in s1)) s4 =
       (Done (Inr (cmd, body, seq)), s')"
    by (rule bbind_eq_InrE)
  have y: "y = cmd # body" "seq = sequence_number_in s1" "s' = s4"
    using q by (cases y; simp add: braise_def bret_def slice_from_nonneg)+
  note ad = advance_seqno_in_done [OF ad]
  have l: "link_in s' = link_in (s1\<lparr>compress_engine_in := z, sequence_number_in := next_seqno seq\<rparr>)"
    "incoming s' = incoming s1"
    using count_received_link [OF cr] ad(1) y by (simp_all add: s2_def incoming_def)
  show ?thesis
    by (rule that [OF pp [unfolded p] ne yz [unfolded y(1)] y(2) _ l]) (use ad(2) y(2) in \<open>simp add: s2_def\<close>)
qed

text \<open>C2: nothing is delivered unauthenticated or out of order. When \<^verbatim>\<open>read_message\<close> returns a
  message while a MAC or an AEAD is in use, then every byte it took from the stream belongs
  to one packet that passed the check of the mode in use (which covers the sequence number or
  the nonce), the message is the content of that packet, its number is the expected one, and
  the expected number then goes up by one, modulo 2^32, where a wrap before the first key
  exchange is over is an error instead. There is no assumption on the network or the peer.\<close>

theorem delivered_is_authentic:
  assumes "read_message c s = (Done (Inr (cmd, body, seq)), s')" "8 \<le> block_size_in s" "remainder s = []"
    "etm_in s \<or> aead_in s \<or> 0 < mac_size_in s" "\<not> (etm_in s \<and> aead_in s)" "block_updates c (block_size_in s)"
  shows "\<exists>wire pkt len. incoming s = wire @ incoming s' \<and> authentic c s wire len pkt \<and> pkt \<noteq> []
    \<and> fst (compressed c (compress_engine_in s) (slice 1 (len - uint (hd pkt)) pkt)) = cmd # body
    \<and> seq = sequence_number_in s \<and> sequence_number_in s' = (seq + 1) mod 2 ^ 32
    \<and> (sequence_number_in s' = 0 \<longrightarrow> pk_initial_kex_done s)"
proof -
  obtain pkt len s1 z where m: "read_packet c s = (Done (Inr (pkt, len)), s1)" "pkt \<noteq> []"
    "compressed c (compress_engine_in s1) (slice 1 (len - uint (hd pkt)) pkt) = (cmd # body, z)"
    "seq = sequence_number_in s1" "next_seqno seq \<noteq> 0 \<or> pk_initial_kex_done s1"
    "link_in s' = link_in (s1\<lparr>compress_engine_in := z, sequence_number_in := next_seqno seq\<rparr>)"
    "incoming s' = incoming s1"
    by (rule read_message_stages [OF assms(1)])
  obtain wire e v where w: "incoming s = wire @ incoming s1" "authentic c s wire len pkt"
    "link_in s1 = link_in (s\<lparr>block_engine_in := e, iv_in := v\<rparr>)"
    using read_packet_authentic [OF m(1) assms(2-6)] by blast
  have f: "compress_engine_in s1 = compress_engine_in s" "sequence_number_in s1 = sequence_number_in s"
    "pk_initial_kex_done s1 = pk_initial_kex_done s" "sequence_number_in s' = next_seqno seq"
    using w(3) m(6) by (simp_all add: link_in_def)
  have "next_seqno seq = (seq + 1) mod 2 ^ 32"
    by (rule next_seqno_mod)
  then show ?thesis using m w f by (intro exI [of _ wire] exI [of _ pkt] exI [of _ len]) auto
qed

theorem delivered_is_authentic_witness:
  "\<exists>wire pkt len. incoming demo_si = wire @ [5, 6] \<and> authentic demo_crypto demo_si wire len pkt \<and> pkt \<noteq> []
    \<and> fst (compressed demo_crypto (compress_engine_in demo_si) (slice 1 (len - uint (hd pkt)) pkt)) = [94, 1, 2]"
proof -
  let ?s' = "snd (read_message demo_crypto demo_si)"
  have r: "read_message demo_crypto demo_si = (Done (Inr (94, [1, 2], 0)), ?s')" "incoming ?s' = [5, 6]"
    "8 \<le> block_size_in demo_si" "remainder demo_si = []" "etm_in demo_si" "\<not> aead_in demo_si"
    by code_simp+
  moreover have "block_updates demo_crypto (block_size_in demo_si)" by (simp add: block_updates_def demo_crypto_def)
  ultimately show ?thesis using delivered_is_authentic [OF r(1,3,4)] by auto
qed


section \<open>Re-keying and nonces\<close>

text \<open>The two cipher setters clear the request to re-key only when both directions have
  been switched, in either order, and each starts the counters of its direction again.\<close>

theorem both_directions_rekeyed:
  fixes s :: "('e, 'z, 'd) packetizer"
  assumes "init_count s = 0" "out = set_outbound_cipher eo bo deo mo ko sd et ae vo"
    "inb = set_inbound_cipher ei bi di mi ki eti aei vi"
  shows "need_rekey (out s) = need_rekey s \<and> need_rekey (inb s) = need_rekey s
    \<and> inb (out s) = out (inb s) \<and> \<not> need_rekey (out (inb s)) \<and> init_count (out (inb s)) = 0
    \<and> sent_packets (out s) = 0 \<and> sent_bytes (out s) = 0
    \<and> received_packets (inb s) = 0 \<and> received_bytes (inb s) = 0"
  using assms
  by (simp add: set_outbound_cipher_def set_inbound_cipher_def note_switched_def need_rekey_def Let_def)

theorem both_directions_rekeyed_witness:
  "\<not> need_rekey (set_outbound_cipher (7 :: byte) 16 (Some ()) 20 (Some []) True False False None
     (set_inbound_cipher 7 16 (Some ()) 20 (Some []) False False None
       (trigger_rekey (Packetizer_init [] [] 0 :: (byte, unit, unit) packetizer))))"
  using both_directions_rekeyed [of "trigger_rekey (Packetizer_init [] [] 0 :: (byte, unit, unit) packetizer)"
      _ 7 16 "Some ()" 20 "Some []" True False False None _ 7 16 "Some ()" 20 "Some []" False False None]
  by (simp add: trigger_rekey_def Packetizer_init_def)

text \<open>The counters of the outbound direction, which only the end of a send touches.\<close>

definition out_counters where
  "out_counters s = (sent_bytes s, sent_packets s, pk_need_rekey s)"

lemma out_counters_steps:
  "compress_out c d s = (r1, s') \<Longrightarrow> out_counters s' = out_counters s"
  "encrypt_packet c p s = (r2, s') \<Longrightarrow> out_counters s' = out_counters s"
  "append_mac c p o2 s = (r2, s') \<Longrightarrow> out_counters s' = out_counters s"
  "advance_seqno_out s = (r3, s') \<Longrightarrow> out_counters s' = out_counters s"
  "write_all o2 s = (Done (Inr u), s') \<Longrightarrow> out_counters s' = out_counters s"
proof -
  show "compress_out c d s = (r1, s') \<Longrightarrow> out_counters s' = out_counters s"
    by (auto simp: out_counters_def compress_out_def py_monad split: option.splits prod.splits)
  show "encrypt_packet c p s = (r2, s') \<Longrightarrow> out_counters s' = out_counters s"
    by (auto simp: out_counters_def encrypt_packet_def py_monad Let_def
        split: option.splits prod.splits sum.splits if_splits)
  show "append_mac c p o2 s = (r2, s') \<Longrightarrow> out_counters s' = out_counters s"
    by (auto simp: append_mac_def py_monad split: sum.splits if_splits)
  show "advance_seqno_out s = (r3, s') \<Longrightarrow> out_counters s' = out_counters s"
    by (auto simp: out_counters_def advance_seqno_out_def Let_def py_monad split: if_splits)
  show "write_all o2 s = (Done (Inr u), s') \<Longrightarrow> out_counters s' = out_counters s"
    using write_loop_written [of o2 0 "sock_script s" "s\<lparr>keepalive_last := clock s\<rparr>" s']
    by (auto simp: write_all_def out_counters_def)
qed

lemma send_message_counted:
  assumes "send_message c rnd data s = (Done (Inr ()), s')"
  obtains out :: bytes and t where "out_counters t = out_counters s" "sock_out s' = sock_out t"
    "count_sent (int (length out)) t = (Done (Inr ()), s')"
proof -
  have d: "data \<noteq> []" using assms by (auto simp: send_message_def braise_def)
  from assms d have "bbind (compress_out c data) (\<lambda>data.
        bbind (\<lambda>s. blift (build_packet rnd data s) s) (\<lambda>packet.
        bbind (encrypt_packet c packet) (\<lambda>out.
        bbind (append_mac c packet out) (\<lambda>out.
        bbind advance_seqno_out (\<lambda>_.
        bbind (write_all out) (\<lambda>_. count_sent (int (length out)))))))) s = (Done (Inr ()), s')"
    by (simp add: send_message_def)
  then obtain x s1 p s2 o1 s3 o2 s4 u s5 v s6 where st: "compress_out c data s = (Done (Inr x), s1)"
    "blift (build_packet rnd x s1) s1 = (Done (Inr p), s2)" "encrypt_packet c p s2 = (Done (Inr o1), s3)"
    "append_mac c p o1 s3 = (Done (Inr o2), s4)" "advance_seqno_out s4 = (Done (Inr u), s5)"
    "write_all o2 s5 = (Done (Inr v), s6)" "count_sent (int (length o2)) s6 = (Done (Inr ()), s')"
    by (elim bbind_eq_InrE)
  have "s2 = s1" using st(2) by (simp add: blift_def)
  then have "out_counters s6 = out_counters s"
    using out_counters_steps(1) [OF st(1)] out_counters_steps(2) [OF st(3)] out_counters_steps(3) [OF st(4)]
      out_counters_steps(4) [OF st(5)] out_counters_steps(5) [OF st(6)] by simp
  then show ?thesis using that [of s6 o2] st(7) link_out_count(2) [OF st(7)] by simp
qed




lemma check_mac_state: "check_mac c len body mac s = (x, s') \<Longrightarrow> s' = s"
  by (auto simp: check_mac_def py_monad split: sum.splits if_splits)

text \<open>Predicates that reading leaves alone: those that do not depend on what the reading of bytes and their
  decoding change.\<close>

locale reading_invariant =
  fixes P :: "('e, 'z, 'd) packetizer \<Rightarrow> bool"
  assumes steps [simp]: "P s \<Longrightarrow> P (read_timer s)" "P s \<Longrightarrow> P (close_packetizer s)" "P s \<Longrightarrow> P (trigger_rekey s)"
      "P s \<Longrightarrow> P (check_keepalive n s)"
    and inputs [simp]: "P (s\<lparr>sock_in := evs\<rparr>) = P s" "P (s\<lparr>remainder := x\<rparr>) = P s" "P (s\<lparr>clock := t\<rparr>) = P s"
      "P (s\<lparr>block_engine_in := e\<rparr>) = P s" "P (s\<lparr>iv_in := v\<rparr>) = P s" "P (s\<lparr>compress_engine_in := z\<rparr>) = P s"
begin

lemma read_loop_kept:
  "P s \<Longrightarrow> P (snd (read_loop r n out evs s))"
proof (induction r n out evs s rule: read_loop.induct)
  case (2 r n out ev evs s)
  show ?case
  proof (cases "n \<le> 0 \<or> handshake_timed_out s")
    case False
    note t = False "2.prems"
    show ?thesis
    proof (cases ev)
      case (RData d)
      then show ?thesis using t "2.IH"(1) [of d] by auto
    next
      case (RTimeout now)
      then show ?thesis using t "2.IH"(2) [of now] by (auto simp: after_timeout_def)
    next
      case (REagain now)
      then show ?thesis using t "2.IH"(3) [of now] by (auto simp: after_timeout_def)
    next
      case RTimerFires
      then show ?thesis using t "2.IH"(4) by auto
    next
      case RClosedByOther
      then show ?thesis using t "2.IH"(5) by auto
    next
      case RRekeyByOther
      then show ?thesis using t "2.IH"(6) by auto
    qed (use t in auto)
  qed (use "2.prems" in auto)
qed auto

lemma read_all_kept:
  "read_all n r s = (x, s') \<Longrightarrow> P s \<Longrightarrow> P s'"
proof -
  assume r: "read_all n r s = (x, s')" and w: "P s"
  obtain m out s0 where "read_loop r m out (sock_in s) s0 = (x, s')" "P s0"
    using r w by (cases "remainder s = []") (auto simp: read_all_def Let_def)
  then show ?thesis using read_loop_kept [of s0 r m out "sock_in s"] by simp
qed

lemma read_etm_kept:
  "read_etm c h s = (x, s') \<Longrightarrow> P s \<Longrightarrow> P s'"
  by (auto simp: read_etm_def py_monad Let_def split: if_splits sum.splits blocking.splits prod.splits
      dest!: check_mac_state dest: read_all_kept)

lemma read_aead_kept:
  "read_aead c hp s = (x, s') \<Longrightarrow> P s \<Longrightarrow> P s'"
  by (auto simp: read_aead_def py_monad Let_def split: if_splits sum.splits blocking.splits prod.splits
      dest: read_all_kept)

lemma decrypt_in_kept:
  "decrypt_in c d s = (x, s') \<Longrightarrow> P s \<Longrightarrow> P s'"
  by (auto simp: decrypt_in_def py_monad split: option.splits prod.splits)

lemma read_rest_kept:
  "read_rest c h n s = (x, s') \<Longrightarrow> P s \<Longrightarrow> P s'"
  by (auto simp: read_rest_def py_monad Let_def split: if_splits sum.splits blocking.splits prod.splits
      dest!: check_mac_state dest: read_all_kept decrypt_in_kept)

lemma read_packet_kept:
  "read_packet c s = (x, s') \<Longrightarrow> P s \<Longrightarrow> P s'"
  by (auto simp: read_packet_def decrypt_header_def py_monad split: if_splits sum.splits blocking.splits prod.splits
      dest!: read_all_kept read_etm_kept read_aead_kept decrypt_in_kept read_rest_kept)


lemma decompress_in_kept:
  "decompress_in c d s = (x, s') \<Longrightarrow> P s \<Longrightarrow> P s'"
  by (auto simp: decompress_in_def py_monad split: option.splits prod.splits)

end

text \<open>The overflow counters and the request, which reading bytes leaves alone.\<close>

definition waiting_rekey :: "int \<Rightarrow> int \<Rightarrow> ('e, 'z, 'd) packetizer \<Rightarrow> bool" where
  "waiting_rekey p b s \<longleftrightarrow> received_packets_overflow s = p \<and> received_bytes_overflow s = b \<and> pk_need_rekey s"

interpretation waiting: reading_invariant "waiting_rekey p b" for p b
  by unfold_locales
    (simp_all add: waiting_rekey_def read_timer_def close_packetizer_def trigger_rekey_def check_keepalive_def)

lemma waiting_rekey_seqno [simp]: "waiting_rekey p b (s\<lparr>sequence_number_in := q\<rparr>) = waiting_rekey p b s"
  by (simp add: waiting_rekey_def)

lemma advance_seqno_in_waiting:
  "advance_seqno_in s = (x, s') \<Longrightarrow> waiting_rekey p b s \<Longrightarrow> waiting_rekey p b s'"
  by (auto simp: advance_seqno_in_def Let_def py_monad split: if_splits)



text \<open>The nonce of the \<open>n\<close>-th packet under one AEAD key.\<close>

fun nonce_of :: "bytes \<Rightarrow> nat \<Rightarrow> py_error + bytes" where
  "nonce_of iv 0 = Inr iv"
| "nonce_of iv (Suc n) = rbind (nonce_of iv n) inc_iv_counter"

lemma nonce_of_counter:
  "length iv = 12 \<Longrightarrow> nonce_of iv n = Inr v \<Longrightarrow>
   length v = 12 \<and> take 4 v = take 4 iv \<and> be_dec (drop 4 v) = be_dec (drop 4 iv) + int n"
proof (induction n arbitrary: v)
  case (Suc n)
  then obtain w where w: "nonce_of iv n = Inr w" "inc_iv_counter w = Inr v"
    by (cases "nonce_of iv n") auto
  with Suc have "length w = 12" "take 4 w = take 4 iv" "be_dec (drop 4 w) = be_dec (drop 4 iv) + int n" by auto
  moreover have "0 \<le> be_dec (drop 4 w)" by (rule be_dec_bounds)
  ultimately show ?case
    using w(2) Suc.prems(1) by (auto simp: inc_iv_counter_def Let_def slice_nonneg split: if_splits)
qed simp



section \<open>Sequence numbers of what is received\<close>

definition seqno_is :: "int \<Rightarrow> bool \<Rightarrow> ('e, 'z, 'd) packetizer \<Rightarrow> bool" where
  "seqno_is n b s \<longleftrightarrow> sequence_number_in s = n \<and> pk_initial_kex_done s = b"

interpretation seqno: reading_invariant "seqno_is n b" for n b
  by unfold_locales (simp_all add: seqno_is_def read_timer_def close_packetizer_def trigger_rekey_def check_keepalive_def)

text \<open>Every message received carries the next number, and before the first key exchange is over the numbers
  do not wrap.\<close>

lemma read_message_seqno:
  assumes "read_message c s = (Done (Inr (cmd, body, seq)), s')"
  shows "seq = sequence_number_in s" "sequence_number_in s' = next_seqno seq" "pk_initial_kex_done s' = pk_initial_kex_done s"
    "next_seqno seq \<noteq> 0 \<or> pk_initial_kex_done s"
proof -
  obtain pkt len s1 z where m: "read_packet c s = (Done (Inr (pkt, len)), s1)"
    "seq = sequence_number_in s1" "next_seqno seq \<noteq> 0 \<or> pk_initial_kex_done s1"
    "link_in s' = link_in (s1\<lparr>compress_engine_in := z, sequence_number_in := next_seqno seq\<rparr>)"
    by (rule read_message_stages [OF assms])
  have "seqno_is (sequence_number_in s) (pk_initial_kex_done s) s1"
    by (rule seqno.read_packet_kept [OF m(1)]) (simp add: seqno_is_def)
  with m show "seq = sequence_number_in s" "sequence_number_in s' = next_seqno seq"
    "pk_initial_kex_done s' = pk_initial_kex_done s" "next_seqno seq \<noteq> 0 \<or> pk_initial_kex_done s"
    by (simp_all add: seqno_is_def link_in_def)
qed

text \<open>Sending has nothing to do with them.\<close>

lemma write_loop_seqno: "seqno_is n b s \<Longrightarrow> seqno_is n b (snd (write_loop out i evs s))"
  by (induction out i evs s rule: write_loop.induct)
    (auto simp: seqno_is_def close_packetizer_def Let_def split: send_event.splits)

lemma send_message_seqno:
  assumes "send_message c rnd d s = (x, s')" "seqno_is n b s" shows "seqno_is n b s'"
proof -
  have steps: "compress_out c d s = (x1, s') \<Longrightarrow> seqno_is n b s \<Longrightarrow> seqno_is n b s'"
    "encrypt_packet c p s = (x2, s') \<Longrightarrow> seqno_is n b s \<Longrightarrow> seqno_is n b s'"
    "append_mac c p o1 s = (x2, s') \<Longrightarrow> seqno_is n b s \<Longrightarrow> seqno_is n b s'"
    "advance_seqno_out s = (x3, s') \<Longrightarrow> seqno_is n b s \<Longrightarrow> seqno_is n b s'"
    "count_sent k s = (x3, s') \<Longrightarrow> seqno_is n b s \<Longrightarrow> seqno_is n b s'" for d p o1 x1 x2 x3 k s s'
    by (auto simp: compress_out_def encrypt_packet_def append_mac_def advance_seqno_out_def count_sent_def seqno_is_def
        trigger_rekey_def Let_def py_monad split: option.splits if_splits prod.splits sum.splits)
  have wr: "write_all o1 s = (x3, s') \<Longrightarrow> seqno_is n b s \<Longrightarrow> seqno_is n b s'" for o1 x3 s s'
    using write_loop_seqno [of n b "s\<lparr>keepalive_last := clock s\<rparr>" o1 0 "sock_script s"]
    by (auto simp: write_all_def seqno_is_def)
  show ?thesis
    using assms unfolding send_message_def
    by (auto simp: bbind_def blift_def braise_def split: if_splits prod.splits blocking.splits sum.splits
        dest!: steps wr)
qed

end
