(* ===== verification/Ssh_Common.thy ===== *)
theory Ssh_Common
  imports Py_Util Ssh_Message
begin

text \<open>
  \<^verbatim>\<open>paramiko/common.py\<close>: the message numbers (those that the other theories use), the window
  and packet sizes; and the two functions of \<^verbatim>\<open>transport.py\<close> that bring sizes into range.
  A message is built by a sequence of \<^verbatim>\<open>add_*\<close> calls on a fresh \<^verbatim>\<open>Message\<close>; \<open>message_of\<close> is
  such a sequence and what \<^verbatim>\<open>asbytes\<close> then returns.
\<close>

named_theorems msg_codes

definition MSG_DISCONNECT :: byte where [msg_codes]: "MSG_DISCONNECT = 1"
definition MSG_IGNORE :: byte where [msg_codes]: "MSG_IGNORE = 2"
definition MSG_UNIMPLEMENTED :: byte where [msg_codes]: "MSG_UNIMPLEMENTED = 3"
definition MSG_DEBUG :: byte where [msg_codes]: "MSG_DEBUG = 4"
definition MSG_SERVICE_REQUEST :: byte where [msg_codes]: "MSG_SERVICE_REQUEST = 5"
definition MSG_SERVICE_ACCEPT :: byte where [msg_codes]: "MSG_SERVICE_ACCEPT = 6"
definition MSG_EXT_INFO :: byte where [msg_codes]: "MSG_EXT_INFO = 7"
definition MSG_KEXINIT :: byte where [msg_codes]: "MSG_KEXINIT = 20"
definition MSG_NEWKEYS :: byte where [msg_codes]: "MSG_NEWKEYS = 21"
definition MSG_USERAUTH_REQUEST :: byte where [msg_codes]: "MSG_USERAUTH_REQUEST = 50"
definition MSG_USERAUTH_FAILURE :: byte where [msg_codes]: "MSG_USERAUTH_FAILURE = 51"
definition MSG_USERAUTH_SUCCESS :: byte where [msg_codes]: "MSG_USERAUTH_SUCCESS = 52"
definition MSG_USERAUTH_BANNER :: byte where [msg_codes]: "MSG_USERAUTH_BANNER = 53"
definition HIGHEST_USERAUTH_MESSAGE_ID :: byte where [msg_codes]: "HIGHEST_USERAUTH_MESSAGE_ID = 79"
definition MSG_GLOBAL_REQUEST :: byte where [msg_codes]: "MSG_GLOBAL_REQUEST = 80"
definition MSG_REQUEST_SUCCESS :: byte where [msg_codes]: "MSG_REQUEST_SUCCESS = 81"
definition MSG_REQUEST_FAILURE :: byte where [msg_codes]: "MSG_REQUEST_FAILURE = 82"
definition MSG_CHANNEL_OPEN :: byte where [msg_codes]: "MSG_CHANNEL_OPEN = 90"
definition MSG_CHANNEL_OPEN_SUCCESS :: byte where [msg_codes]: "MSG_CHANNEL_OPEN_SUCCESS = 91"
definition MSG_CHANNEL_OPEN_FAILURE :: byte where [msg_codes]: "MSG_CHANNEL_OPEN_FAILURE = 92"
definition MSG_CHANNEL_WINDOW_ADJUST :: byte where [msg_codes]: "MSG_CHANNEL_WINDOW_ADJUST = 93"
definition MSG_CHANNEL_DATA :: byte where [msg_codes]: "MSG_CHANNEL_DATA = 94"
definition MSG_CHANNEL_EXTENDED_DATA :: byte where [msg_codes]: "MSG_CHANNEL_EXTENDED_DATA = 95"
definition MSG_CHANNEL_EOF :: byte where [msg_codes]: "MSG_CHANNEL_EOF = 96"
definition MSG_CHANNEL_CLOSE :: byte where [msg_codes]: "MSG_CHANNEL_CLOSE = 97"
definition MSG_CHANNEL_REQUEST :: byte where [msg_codes]: "MSG_CHANNEL_REQUEST = 98"
definition MSG_CHANNEL_SUCCESS :: byte where [msg_codes]: "MSG_CHANNEL_SUCCESS = 99"
definition MSG_CHANNEL_FAILURE :: byte where [msg_codes]: "MSG_CHANNEL_FAILURE = 100"

definition OPEN_SUCCEEDED :: int where "OPEN_SUCCEEDED = 0"
definition OPEN_FAILED_ADMINISTRATIVELY_PROHIBITED :: int where "OPEN_FAILED_ADMINISTRATIVELY_PROHIBITED = 1"

definition DEFAULT_WINDOW_SIZE :: int where "DEFAULT_WINDOW_SIZE = 64 * 2 ^ 15"
definition DEFAULT_MAX_PACKET_SIZE :: int where "DEFAULT_MAX_PACKET_SIZE = 2 ^ 15"
definition MIN_WINDOW_SIZE :: int where "MIN_WINDOW_SIZE = 2 ^ 15"
definition MIN_PACKET_SIZE :: int where "MIN_PACKET_SIZE = 2 ^ 12"
definition MAX_WINDOW_SIZE :: int where "MAX_WINDOW_SIZE = 2 ^ 32 - 1"

text \<open>\<^verbatim>\<open>Transport._sanitize_window_size\<close> and \<^verbatim>\<open>Transport._sanitize_packet_size\<close>; the first
  argument is the default kept by the transport.\<close>

definition sanitize_window_size :: "int \<Rightarrow> int option \<Rightarrow> int" where
  "sanitize_window_size default_window_size window_size =
     clamp_value MIN_WINDOW_SIZE
       (case window_size of None \<Rightarrow> default_window_size | Some n \<Rightarrow> n) MAX_WINDOW_SIZE"

definition sanitize_packet_size :: "int \<Rightarrow> int option \<Rightarrow> int" where
  "sanitize_packet_size default_max_packet_size max_packet_size =
     clamp_value MIN_PACKET_SIZE
       (case max_packet_size of None \<Rightarrow> default_max_packet_size | Some n \<Rightarrow> n) MAX_WINDOW_SIZE"

lemma sanitize_packet_size_bounds:
  "MIN_PACKET_SIZE \<le> sanitize_packet_size d n" "sanitize_packet_size d n \<le> MAX_WINDOW_SIZE"
  by (simp_all add: sanitize_packet_size_def clamp_value_def MIN_PACKET_SIZE_def MAX_WINDOW_SIZE_def)

lemma sanitize_window_size_bounds:
  "MIN_WINDOW_SIZE \<le> sanitize_window_size d n" "sanitize_window_size d n \<le> MAX_WINDOW_SIZE"
  by (simp_all add: sanitize_window_size_def clamp_value_def MIN_WINDOW_SIZE_def MAX_WINDOW_SIZE_def)

definition message_of :: "field list \<Rightarrow> py_error + bytes" where
  "message_of fs =
     (case add_fields fs (Message_init None) of
        (Inl e, m) \<Rightarrow> Inl e | (Inr u, m) \<Rightarrow> Inr (msg_asbytes m))"

lemma message_of_ok: "list_all field_ok fs \<Longrightarrow> message_of fs = Inr (enc_fields fs)"
proof -
  assume "list_all field_ok fs"
  moreover have "Message_init None = built []" by (simp add: Message_init_def built_def)
  ultimately show ?thesis
    using add_fields_built [of fs "[]"] by (simp add: message_of_def msg_asbytes_def built_def)
qed

text \<open>Conversely a message that could be built is the encoding of its fields.\<close>

fun simple_field :: "field \<Rightarrow> bool" where
  "simple_field (FRaw b) = True" | "simple_field (FBool b) = True" | "simple_field (FInt n) = True"
| "simple_field (FString b) = True" | "simple_field (FText b) = True" | "simple_field (FList l) = True"
| "simple_field _ = False"

lemma add_field_Inr:
  "simple_field f \<Longrightarrow> add_field f (built b) = (Inr u, m) \<Longrightarrow> m = built (b @ enc_field f)"
  by (cases f)
    (auto simp: add_bytes_def add_boolean_def add_int_def add_string_def add_list_def pbind_def plift_def
      struct_pack_def enc_boolean_def enc_string_def enc_list_def split: if_splits)

lemma add_fields_Inr:
  "list_all simple_field fs \<Longrightarrow> add_fields fs (built b) = (Inr u, m) \<Longrightarrow> m = built (b @ enc_fields fs)"
proof (induction fs arbitrary: b)
  case (Cons f fs)
  then obtain v m' where "add_field f (built b) = (Inr v, m')" "add_fields fs m' = (Inr u, m)"
    by (auto elim: pbind_eq_InrE)
  moreover from this Cons.prems have "m' = built (b @ enc_field f)" by (intro add_field_Inr) simp_all
  ultimately show ?case using Cons.IH [of "b @ enc_field f"] Cons.prems(1) by (simp add: enc_fields_def)
qed (simp add: pret_def enc_fields_def)

lemma message_of_Inr:
  assumes "message_of fs = Inr m" "list_all simple_field fs"
  shows "m = enc_fields fs"
  using add_fields_Inr [OF assms(2), of "[]"] assms(1)
  by (auto simp: message_of_def Message_init_built msg_asbytes_def built_def split: prod.splits sum.splits)

text \<open>The values that could be written were in range.\<close>

fun field_sized :: "field \<Rightarrow> bool" where
  "field_sized (FInt n) = u32_ok n" | "field_sized (FString s) = string_ok s"
| "field_sized (FText s) = string_ok s" | "field_sized (FList l) = string_ok (join_with [comma] l)"
| "field_sized _ = True"

lemma add_field_sized: "add_field f m = (Inr u, m') \<Longrightarrow> field_sized f"
  by (cases f)
    (auto simp: add_int_def add_string_def add_list_def pbind_def plift_def struct_pack_def u32_ok_def string_ok_def
      split: if_splits)

lemma add_fields_sized: "add_fields fs m = (Inr u, m') \<Longrightarrow> list_all field_sized fs"
  by (induction fs arbitrary: m) (auto elim!: pbind_eq_InrE dest: add_field_sized)

lemma message_of_sized: "message_of fs = Inr m \<Longrightarrow> list_all field_sized fs"
  by (auto simp: message_of_def split: prod.splits sum.splits dest: add_fields_sized)

text \<open>Literals are equal only if they are the same text.\<close>

lemma of_char_byte_inj: "(of_char c :: byte) = of_char d \<longleftrightarrow> c = d"
proof
  assume "(of_char c :: byte) = of_char d"
  then have "unat (of_nat (of_char c) :: byte) = unat (of_nat (of_char d) :: byte)" by (simp only: of_nat_of_char)
  moreover have "(of_char x :: nat) < 256" for x by simp
  ultimately have "(of_char c :: nat) = of_char d" by (simp add: unsigned_of_nat take_bit_eq_mod)
  then show "c = d" by simp
qed simp

lemma lit_eq_iff [simp]: "lit s = lit t \<longleftrightarrow> s = t"
  by (simp add: lit_def inj_map_eq_map inj_def of_char_byte_inj)

text \<open>A non-waiting operation where a waiting one is expected.\<close>

definition nb :: "('s, 'a) py \<Rightarrow> ('s, 'a) bpy" where
  [py_monad]: "nb m s = (case m s of (r, s') \<Rightarrow> (Done r, s'))"

text \<open>Running a reader on a received message.\<close>

definition on_message :: "(message, 'a) py \<Rightarrow> message \<Rightarrow> ('s, 'a \<times> message) py" where
  "on_message r m s = (case r m of (Inl e, m') \<Rightarrow> (Inl e, s) | (Inr x, m') \<Rightarrow> (Inr (x, m'), s))"

text \<open>What \<^verbatim>\<open>except SSHException\<close> catches: the class and its subclasses.\<close>

fun is_SSHException :: "py_error \<Rightarrow> bool" where
  "is_SSHException (SSHException s) = True"
| "is_SSHException (IncompatiblePeer s) = True"
| "is_SSHException (MessageOrderError s) = True"
| "is_SSHException (ChannelException n) = True"
| "is_SSHException ProxyCommandFailure = True"
| "is_SSHException _ = False"

section \<open>Invariants of operations\<close>

text \<open>\<open>keeps P m Q\<close>: the operation \<open>m\<close> keeps the invariant \<open>P\<close>, whether it returns or raises, and
  what it returns satisfies \<open>Q\<close>.\<close>

definition keeps :: "('s \<Rightarrow> bool) \<Rightarrow> ('s, 'a) py \<Rightarrow> ('a \<Rightarrow> bool) \<Rightarrow> bool" where
  "keeps P m Q \<longleftrightarrow> (\<forall>s. P s \<longrightarrow> P (snd (m s)) \<and> (\<forall>x. fst (m s) = Inr x \<longrightarrow> Q x))"

lemma keepsD: "keeps P m Q \<Longrightarrow> P s \<Longrightarrow> P (snd (m s))"
  by (simp add: keeps_def)

lemma keeps_weaken: "keeps P m Q \<Longrightarrow> (\<And>x. Q x \<Longrightarrow> R x) \<Longrightarrow> keeps P m R"
  by (simp add: keeps_def)

lemma keeps_pret: "Q x \<Longrightarrow> keeps P (pret x) Q"
  by (simp add: keeps_def pret_def)

lemma keeps_praise: "keeps P (praise e) Q"
  by (simp add: keeps_def praise_def)

lemma keeps_plift: "(\<And>s x. r s = Inr x \<Longrightarrow> Q x) \<Longrightarrow> keeps P (\<lambda>s. plift (r s) s) Q"
  by (simp add: keeps_def plift_def)

lemma keeps_plift0: "(\<And>x. r = Inr x \<Longrightarrow> Q x) \<Longrightarrow> keeps P (plift r) Q"
  by (simp add: keeps_def plift_def)

lemma keeps_pmodify: "(\<And>s. P s \<Longrightarrow> P (g s)) \<Longrightarrow> keeps P (pmodify g) (\<lambda>_. True)"
  by (simp add: keeps_def pmodify_def)

lemma keeps_pbind:
  "keeps P m Q \<Longrightarrow> (\<And>x. Q x \<Longrightarrow> keeps P (f x) R) \<Longrightarrow> keeps P (pbind m f) R"
  unfolding keeps_def pbind_def by (auto split: prod.splits sum.splits)

lemma keeps_if: "keeps P a Q \<Longrightarrow> keeps P b Q \<Longrightarrow> keeps P (\<lambda>s. if c s then a s else b s) Q"
  by (simp add: keeps_def)

lemma keeps_on_message: "keeps P (on_message r m) (\<lambda>_. True)"
  by (auto simp: keeps_def on_message_def split: prod.splits sum.splits)

lemmas keeps_rules = keeps_pret keeps_praise keeps_pmodify keeps_if keeps_on_message

end
