(* ===== verification/Channel.thy ===== *)
theory Channel
  imports Ssh_Common Buffered_Pipe
begin

text \<open>
  \<^verbatim>\<open>paramiko/channel.py\<close>: the class \<^verbatim>\<open>Channel\<close>, one stream over a transport with flow control in
  both directions. A channel calls its transport: those calls are recorded, in order, in
  \<open>calls\<close>. Every part of a method that runs under the channel's lock is one step; where a
  method waits (for the send window, for input, for an answer), the steps of the other
  threads are an argument, the interleaving. The file-like wrappers and the log are not
  modelled; \<^verbatim>\<open>_pipe\<close>, the descriptor for \<^verbatim>\<open>select\<close>, is present or not, with its flag
  \<^verbatim>\<open>_forever\<close>.
\<close>

section \<open>State\<close>

datatype tcall =
    SendUserMessage bytes | UnlinkChannel int | SetX11Handler nat | SetForwardAgentHandler nat

record channel =
  chanid :: int
  remote_chanid :: int
  has_transport :: bool
  active :: bool
  eof_received :: bool
  eof_sent :: bool
  in_buffer :: pipe
  in_stderr_buffer :: pipe
  chan_timeout :: "rat option"
  chan_closed :: bool
  in_window_size :: int
  out_window_size :: int
  in_max_packet_size :: int
  out_max_packet_size :: int
  in_window_threshold :: int
  in_window_sofar :: int
  status_event :: bool
  chan_name :: pystr
  fd_pipe :: "bool option"
  chan_event :: bool
  event_ready :: bool
  combine_stderr :: bool
  exit_status :: int
  calls :: "tcall list"
  send_error :: "py_error option"
  saved_exception :: "py_error option"

text \<open>\<open>send_error\<close> and \<open>saved_exception\<close> are the transport's: the exception that
  \<^verbatim>\<open>_send_user_message\<close> raises at present, if any, and what \<^verbatim>\<open>get_exception\<close> returns. The
  name is given as \<^verbatim>\<open>str(chanid)\<close>.\<close>

definition Channel_init :: "int \<Rightarrow> pystr \<Rightarrow> channel" where
  "Channel_init n name =
     \<lparr>chanid = n, remote_chanid = 0, has_transport = False, active = False, eof_received = False,
      eof_sent = False, in_buffer = BufferedPipe_init, in_stderr_buffer = BufferedPipe_init,
      chan_timeout = None, chan_closed = False, in_window_size = 0, out_window_size = 0,
      in_max_packet_size = 0, out_max_packet_size = 0, in_window_threshold = 0, in_window_sofar = 0,
      status_event = False, chan_name = name, fd_pipe = None, chan_event = False,
      event_ready = False, combine_stderr = False, exit_status = -1,
      calls = [], send_error = None, saved_exception = None\<rparr>"

section \<open>Operations that do not wait\<close>

definition open_only :: "(channel, unit) py" where
  "open_only s =
     (if chan_closed s \<or> eof_received s \<or> eof_sent s \<or> \<not> active s
      then (Inl (SSHException ''Channel is not open''), s) else (Inr (), s))"

definition send_user_message :: "bytes \<Rightarrow> (channel, unit) py" where
  "send_user_message m s =
     (if \<not> has_transport s then (Inl OtherException, s)
      else case send_error s of
        Some e \<Rightarrow> (Inl e, s)
      | None \<Rightarrow> (Inr (), s\<lparr>calls := calls s @ [SendUserMessage m]\<rparr>))"

text \<open>\<^verbatim>\<open>for m in msgs: if m is not None: ...\<close>\<close>

fun send_all_messages :: "bytes option list \<Rightarrow> (channel, unit) py" where
  "send_all_messages [] = pret ()"
| "send_all_messages (None # ms) = send_all_messages ms"
| "send_all_messages (Some m # ms) = pbind (send_user_message m) (\<lambda>_. send_all_messages ms)"

subsection \<open>Simple attributes\<close>

definition set_name :: "pystr \<Rightarrow> channel \<Rightarrow> channel" where
  "set_name n s = s\<lparr>chan_name := n\<rparr>"

definition get_name :: "channel \<Rightarrow> pystr" where
  "get_name s = chan_name s"

definition get_id :: "channel \<Rightarrow> int" where
  "get_id s = chanid s"

definition settimeout :: "rat option \<Rightarrow> channel \<Rightarrow> channel" where
  "settimeout t s = s\<lparr>chan_timeout := t\<rparr>"

definition gettimeout :: "channel \<Rightarrow> rat option" where
  "gettimeout s = chan_timeout s"

definition setblocking :: "bool \<Rightarrow> channel \<Rightarrow> channel" where
  "setblocking blocking s = (if blocking then settimeout None s else settimeout (Some 0) s)"

definition exit_status_ready :: "channel \<Rightarrow> bool" where
  "exit_status_ready s \<longleftrightarrow> chan_closed s \<or> status_event s"

definition recv_ready :: "channel \<Rightarrow> bool" where
  "recv_ready s = read_ready (in_buffer s)"

definition recv_stderr_ready :: "channel \<Rightarrow> bool" where
  "recv_stderr_ready s = read_ready (in_stderr_buffer s)"

definition send_ready :: "channel \<Rightarrow> bool" where
  "send_ready s = (if chan_closed s \<or> eof_sent s then True else out_window_size s > 0)"

definition fileno :: "channel \<Rightarrow> channel" where
  "fileno s =
     (if fd_pipe s \<noteq> None then s
      else s\<lparr>fd_pipe := Some False, in_buffer := set_event (in_buffer s),
             in_stderr_buffer := set_event (in_stderr_buffer s)\<rparr>)"

subsection \<open>Calls from the transport: set-up\<close>

definition set_transport :: "channel \<Rightarrow> channel" where
  "set_transport s = s\<lparr>has_transport := True\<rparr>"

definition set_window :: "int \<Rightarrow> int \<Rightarrow> channel \<Rightarrow> channel" where
  "set_window window_size max_packet_size s =
     s\<lparr>in_window_size := window_size, in_max_packet_size := max_packet_size,
       in_window_threshold := window_size div 10, in_window_sofar := 0\<rparr>"

definition set_remote_channel :: "int \<Rightarrow> int \<Rightarrow> int \<Rightarrow> channel \<Rightarrow> channel" where
  "set_remote_channel n window_size max_packet_size s =
     s\<lparr>remote_chanid := n, out_window_size := window_size,
       out_max_packet_size := sanitize_packet_size DEFAULT_MAX_PACKET_SIZE (Some max_packet_size),
       active := True\<rparr>"

subsection \<open>Closing\<close>

definition set_closed :: "channel \<Rightarrow> channel" where
  "set_closed s =
     s\<lparr>chan_closed := True, in_buffer := close_pipe (in_buffer s),
       in_stderr_buffer := close_pipe (in_stderr_buffer s), chan_event := True, status_event := True,
       fd_pipe := map_option (\<lambda>_. True) (fd_pipe s)\<rparr>"

definition send_eof :: "(channel, bytes option) py" where
  "send_eof s =
     (if eof_sent s then (Inr None, s)
      else case message_of [FRaw [MSG_CHANNEL_EOF], FInt (remote_chanid s)] of
        Inl e \<Rightarrow> (Inl e, s)
      | Inr m \<Rightarrow> (Inr (Some m), s\<lparr>eof_sent := True\<rparr>))"

definition close_internal :: "(channel, bytes option list) py" where
  "close_internal s =
     (if \<not> active s \<or> chan_closed s then (Inr [None, None], s)
      else pbind send_eof (\<lambda>m1.
           pbind (\<lambda>s. plift (message_of [FRaw [MSG_CHANNEL_CLOSE], FInt (remote_chanid s)]) s) (\<lambda>m2.
           pbind (pmodify set_closed) (\<lambda>_.
           pret [m1, Some m2]))) s)"

definition close_chan :: "(channel, unit) py" where
  "close_chan =
     pbind (pmodify (\<lambda>s. s\<lparr>fd_pipe := None\<rparr>)) (\<lambda>_.
     pbind (\<lambda>s. if \<not> active s \<or> chan_closed s then pret [] s else close_internal s) (\<lambda>msgs.
     send_all_messages msgs))"

definition unlink :: "(channel, unit) py" where
  "unlink s =
     (if chan_closed s then pret () s
      else pbind (pmodify set_closed) (\<lambda>_. \<lambda>s.
        if \<not> has_transport s then (Inl OtherException, s)
        else (Inr (), s\<lparr>calls := calls s @ [UnlinkChannel (chanid s)]\<rparr>)) s)"

text \<open>\<open>how\<close> is 0, 1 or 2.\<close>

definition shutdown :: "int \<Rightarrow> (channel, unit) py" where
  "shutdown how =
     pbind (pmodify (\<lambda>s. if how = 0 \<or> how = 2 then s\<lparr>eof_received := True\<rparr> else s)) (\<lambda>_.
     if how = 1 \<or> how = 2 then
       pbind send_eof (\<lambda>m. \<lambda>s.
         case m of None \<Rightarrow> pret () s
         | Some b \<Rightarrow> if has_transport s then send_user_message b s else pret () s)
     else pret ())"

definition shutdown_read :: "(channel, unit) py" where
  "shutdown_read = shutdown 0"

definition shutdown_write :: "(channel, unit) py" where
  "shutdown_write = shutdown 1"

subsection \<open>Calls from the transport: incoming messages\<close>

definition request_success :: "(channel, unit) py" where
  "request_success = pmodify (\<lambda>s. s\<lparr>event_ready := True, chan_event := True\<rparr>)"

definition request_failed :: "(channel, unit) py" where
  "request_failed = pbind close_internal send_all_messages"

definition feed_bytes :: "bytes \<Rightarrow> channel \<Rightarrow> channel" where
  "feed_bytes b s = s\<lparr>in_buffer := feed b (in_buffer s)\<rparr>"

definition feed_message :: "message \<Rightarrow> (channel, unit) py" where
  "feed_message m = pbind (on_message get_binary m) (\<lambda>(b, _). pmodify (feed_bytes b))"

definition feed_extended :: "message \<Rightarrow> (channel, unit) py" where
  "feed_extended m =
     pbind (on_message get_int m) (\<lambda>(code, m).
     pbind (on_message get_binary m) (\<lambda>(b, _).
     if code \<noteq> 1 then pret ()
     else pmodify (\<lambda>s. if combine_stderr s then feed_bytes b s
                       else s\<lparr>in_stderr_buffer := feed b (in_stderr_buffer s)\<rparr>)))"

definition window_adjust :: "message \<Rightarrow> (channel, unit) py" where
  "window_adjust m =
     pbind (on_message get_int m) (\<lambda>(nbytes, _).
     pmodify (\<lambda>s. s\<lparr>out_window_size := out_window_size s + nbytes\<rparr>))"

definition handle_eof :: "(channel, unit) py" where
  "handle_eof = pmodify (\<lambda>s.
     if \<not> eof_received s then
       s\<lparr>eof_received := True, in_buffer := close_pipe (in_buffer s),
         in_stderr_buffer := close_pipe (in_stderr_buffer s), fd_pipe := map_option (\<lambda>_. True) (fd_pipe s)\<rparr>
     else s)"

definition handle_close :: "(channel, unit) py" where
  "handle_close =
     pbind close_internal (\<lambda>msgs.
     pbind (\<lambda>s. if \<not> has_transport s then (Inl OtherException, s)
                else (Inr (), s\<lparr>calls := calls s @ [UnlinkChannel (chanid s)]\<rparr>)) (\<lambda>_.
     send_all_messages msgs))"

text \<open>The questions put to the application's \<^verbatim>\<open>ServerInterface\<close>; \<open>srv\<close> is the server object, if
  there is one, as the answers it gives.\<close>

datatype chan_request =
    RPty bytes int int int int bytes | RShell | REnv bytes bytes | RExec bytes
  | RSubsystem pystr | RWindowChange int int int int | RX11 bool pystr bytes int | RForwardAgent

datatype parsed_request = PExitStatus int | PXonXoff | PAsk chan_request | PUnhandled

definition parse_request :: "pystr \<Rightarrow> (message, parsed_request) py" where
  "parse_request key =
     (if key = lit ''exit-status'' then pbind get_int (\<lambda>n. pret (PExitStatus n))
      else if key = lit ''xon-xoff'' then pret PXonXoff
      else if key = lit ''pty-req'' then
        pbind get_string (\<lambda>term. pbind get_int (\<lambda>width. pbind get_int (\<lambda>height.
        pbind get_int (\<lambda>pixelwidth. pbind get_int (\<lambda>pixelheight. pbind get_string (\<lambda>modes.
        pret (PAsk (RPty term width height pixelwidth pixelheight modes))))))))
      else if key = lit ''shell'' then pret (PAsk RShell)
      else if key = lit ''env'' then
        pbind get_string (\<lambda>name. pbind get_string (\<lambda>value. pret (PAsk (REnv name value))))
      else if key = lit ''exec'' then pbind get_string (\<lambda>cmd. pret (PAsk (RExec cmd)))
      else if key = lit ''subsystem'' then pbind get_text (\<lambda>name. pret (PAsk (RSubsystem name)))
      else if key = lit ''window-change'' then
        pbind get_int (\<lambda>width. pbind get_int (\<lambda>height.
        pbind get_int (\<lambda>pixelwidth. pbind get_int (\<lambda>pixelheight.
        pret (PAsk (RWindowChange width height pixelwidth pixelheight))))))
      else if key = lit ''x11-req'' then
        pbind get_boolean (\<lambda>single_connection. pbind get_text (\<lambda>auth_proto.
        pbind get_binary (\<lambda>auth_cookie. pbind get_int (\<lambda>screen_number.
        pret (PAsk (RX11 single_connection auth_proto auth_cookie screen_number))))))
      else if key = lit ''auth-agent-req@openssh.com'' then pret (PAsk RForwardAgent)
      else pret PUnhandled)"

definition handle_request :: "(chan_request \<Rightarrow> bool) option \<Rightarrow> message \<Rightarrow> (channel, unit) py" where
  "handle_request srv m =
     pbind (on_message get_text m) (\<lambda>(key, m).
     pbind (on_message get_boolean m) (\<lambda>(want_reply, m).
     pbind (on_message (parse_request key) m) (\<lambda>(req, m).
     pbind (case req of
              PExitStatus n \<Rightarrow>
                pbind (pmodify (\<lambda>s. s\<lparr>exit_status := n, status_event := True\<rparr>)) (\<lambda>_. pret True)
            | PXonXoff \<Rightarrow> pret True
            | PAsk r \<Rightarrow> pret (case srv of None \<Rightarrow> False | Some f \<Rightarrow> f r)
            | PUnhandled \<Rightarrow> pret False) (\<lambda>ok.
     if want_reply then
       pbind (\<lambda>s. plift (message_of [FRaw [if ok then MSG_CHANNEL_SUCCESS else MSG_CHANNEL_FAILURE],
                                     FInt (remote_chanid s)]) s) send_user_message
     else pret ()))))"

subsection \<open>The windows\<close>

definition check_add_window :: "int \<Rightarrow> channel \<Rightarrow> int \<times> channel" where
  "check_add_window n s =
     (if chan_closed s \<or> eof_received s \<or> \<not> active s then (0, s)
      else (let s = s\<lparr>in_window_sofar := in_window_sofar s + n\<rparr> in
            if in_window_sofar s \<le> in_window_threshold s then (0, s)
            else (in_window_sofar s, s\<lparr>in_window_sofar := 0\<rparr>)))"

text \<open>The end of \<^verbatim>\<open>_wait_for_send_window\<close>, after the loop.\<close>

definition claim_window :: "int \<Rightarrow> channel \<Rightarrow> int \<times> channel" where
  "claim_window n s =
     (if chan_closed s \<or> eof_sent s then (0, s)
      else (let n = (if out_window_size s < n then out_window_size s else n);
                n = (if out_max_packet_size s - 64 < n then out_max_packet_size s - 64 else n)
            in (n, s\<lparr>out_window_size := out_window_size s - n\<rparr>)))"

text \<open>The rest of \<^verbatim>\<open>_send\<close> once the wait is over: what happens under the lock is the size and the
  message to send, if any; the message is sent after the lock has been released.\<close>

definition claim_message :: "bytes \<Rightarrow> field list \<Rightarrow> (channel, int \<times> bytes option) py" where
  "claim_message b head s =
     (let (n, s) = claim_window (int (length b)) s in
      if n = 0 then pret (0, None) s
      else pbind (plift (message_of (head @ [FString (slice_to n b)]))) (\<lambda>m. pret (n, Some m)) s)"

definition send_claimed :: "int \<times> bytes option \<Rightarrow> (channel, int) py" where
  "send_claimed sm = (case sm of
     (n, None) \<Rightarrow> pret n
   | (n, Some m) \<Rightarrow> pbind (send_user_message m) (\<lambda>_. pret n))"

definition data_head :: "bool \<Rightarrow> channel \<Rightarrow> field list" where
  "data_head stderr s =
     (if stderr then [FRaw [MSG_CHANNEL_EXTENDED_DATA], FInt (remote_chanid s), FInt 1]
      else [FRaw [MSG_CHANNEL_DATA], FInt (remote_chanid s)])"

text \<open>A send that does not have to wait.\<close>

definition send_now :: "bool \<Rightarrow> bytes \<Rightarrow> (channel, int) py" where
  "send_now stderr b s =
     (if chan_closed s then (Inl (SocketError ''Socket is closed''), s)
      else pbind (claim_message b (data_head stderr s)) send_claimed s)"

text \<open>The end of \<^verbatim>\<open>recv\<close> and \<^verbatim>\<open>recv_stderr\<close>: the window is given back.\<close>

definition ack_window :: "bytes \<Rightarrow> (channel, bytes) py" where
  "ack_window out s =
     (let (ack, s) = check_add_window (int (length out)) s in
      if ack > 0 then
        pbind (\<lambda>s. plift (message_of [FRaw [MSG_CHANNEL_WINDOW_ADJUST], FInt (remote_chanid s), FInt ack]) s) (\<lambda>m.
        pbind (send_user_message m) (\<lambda>_. pret out)) s
      else pret out s)"

definition recv_now :: "bool \<Rightarrow> int \<Rightarrow> (channel, bytes) py" where
  "recv_now stderr n s =
     (let (out, p) = take_out n (if stderr then in_stderr_buffer s else in_buffer s) in
      ack_window out (if stderr then s\<lparr>in_stderr_buffer := p\<rparr> else s\<lparr>in_buffer := p\<rparr>))"

text \<open>\<^verbatim>\<open>set_combine_stderr\<close>: the part under the lock, then the feed.\<close>

definition switch_combine :: "bool \<Rightarrow> channel \<Rightarrow> (bool \<times> bytes) \<times> channel" where
  "switch_combine combine s =
     (let old = combine_stderr s; s = s\<lparr>combine_stderr := combine\<rparr> in
      if combine \<and> \<not> old then
        (let (data, p) = empty_pipe (in_stderr_buffer s) in ((old, data), s\<lparr>in_stderr_buffer := p\<rparr>))
      else ((old, []), s))"

definition set_combine_stderr :: "bool \<Rightarrow> (channel, bool) py" where
  "set_combine_stderr combine s =
     (let ((old, data), s) = switch_combine combine s in
      (Inr old, if length data > 0 then feed_bytes data s else s))"

section \<open>What the other threads may do meanwhile\<close>

datatype chan_op =
    ORequestSuccess | ORequestFailed | OFeed message | OFeedExtended message | OWindowAdjust message
  | OHandleRequest message | OHandleEof | OHandleClose | OUnlink
  | OClose | OShutdown int | OSetCombine bool | OSetTimeout "rat option" | OFileno
  | OSend bool bytes | ORecv bool int | OTransportError "py_error option"

fun chan_step :: "(chan_request \<Rightarrow> bool) option \<Rightarrow> channel \<Rightarrow> chan_op \<Rightarrow> channel" where
  "chan_step srv s ORequestSuccess = snd (request_success s)"
| "chan_step srv s ORequestFailed = snd (request_failed s)"
| "chan_step srv s (OFeed m) = snd (feed_message m s)"
| "chan_step srv s (OFeedExtended m) = snd (feed_extended m s)"
| "chan_step srv s (OWindowAdjust m) = snd (window_adjust m s)"
| "chan_step srv s (OHandleRequest m) = snd (handle_request srv m s)"
| "chan_step srv s OHandleEof = snd (handle_eof s)"
| "chan_step srv s OHandleClose = snd (handle_close s)"
| "chan_step srv s OUnlink = snd (unlink s)"
| "chan_step srv s OClose = snd (close_chan s)"
| "chan_step srv s (OShutdown how) = snd (shutdown how s)"
| "chan_step srv s (OSetCombine b) = snd (set_combine_stderr b s)"
| "chan_step srv s (OSetTimeout t) = settimeout t s"
| "chan_step srv s OFileno = fileno s"
| "chan_step srv s (OSend stderr b) = snd (send_now stderr b s)"
| "chan_step srv s (ORecv stderr n) = snd (recv_now stderr n s)"
| "chan_step srv s (OTransportError e) = s\<lparr>send_error := e, saved_exception := e\<rparr>"

section \<open>Operations that wait\<close>

definition event_pending :: "channel \<Rightarrow> channel" where
  "event_pending s = s\<lparr>chan_event := False, event_ready := False\<rparr>"

definition wait_for_event ::
  "(chan_request \<Rightarrow> bool) option \<Rightarrow> chan_op env \<Rightarrow> (channel, unit) bpy" where
  "wait_for_event srv env =
     bbind (wait_loop (\<lambda>s. \<not> chan_event s) (chan_step srv) SocketTimeout None env) (\<lambda>_.
     nb (\<lambda>s. if event_ready s then pret () s
             else case saved_exception s of
               Some e \<Rightarrow> praise e s
             | None \<Rightarrow> praise (SSHException ''Channel closed.'') s))"

definition request_message :: "pystr \<Rightarrow> bool \<Rightarrow> field list \<Rightarrow> (channel, bytes) py" where
  "request_message key want_reply fs s =
     plift (message_of ([FRaw [MSG_CHANNEL_REQUEST], FInt (remote_chanid s), FText key, FBool want_reply] @ fs)) s"

text \<open>A request with an answer, and one without.\<close>

definition request_and_wait ::
  "(chan_request \<Rightarrow> bool) option \<Rightarrow> chan_op env \<Rightarrow> pystr \<Rightarrow> field list \<Rightarrow> (channel, unit) bpy" where
  "request_and_wait srv env key fs =
     bbind (nb (pbind open_only (\<lambda>_.
                pbind (request_message key True fs) (\<lambda>m.
                pbind (pmodify event_pending) (\<lambda>_.
                send_user_message m))))) (\<lambda>_.
     wait_for_event srv env)"

definition request_only :: "pystr \<Rightarrow> field list \<Rightarrow> (channel, unit) py" where
  "request_only key fs =
     pbind open_only (\<lambda>_. pbind (request_message key False fs) send_user_message)"

definition get_pty ::
  "(chan_request \<Rightarrow> bool) option \<Rightarrow> chan_op env \<Rightarrow> bytes \<Rightarrow> int \<Rightarrow> int \<Rightarrow> int \<Rightarrow> int \<Rightarrow> (channel, unit) bpy" where
  "get_pty srv env term width height width_pixels height_pixels =
     request_and_wait srv env (lit ''pty-req'')
       [FString term, FInt width, FInt height, FInt width_pixels, FInt height_pixels, FString []]"

definition invoke_shell :: "(chan_request \<Rightarrow> bool) option \<Rightarrow> chan_op env \<Rightarrow> (channel, unit) bpy" where
  "invoke_shell srv env = request_and_wait srv env (lit ''shell'') []"

definition exec_command :: "(chan_request \<Rightarrow> bool) option \<Rightarrow> chan_op env \<Rightarrow> bytes \<Rightarrow> (channel, unit) bpy" where
  "exec_command srv env command = request_and_wait srv env (lit ''exec'') [FString command]"

definition invoke_subsystem :: "(chan_request \<Rightarrow> bool) option \<Rightarrow> chan_op env \<Rightarrow> bytes \<Rightarrow> (channel, unit) bpy" where
  "invoke_subsystem srv env subsystem = request_and_wait srv env (lit ''subsystem'') [FString subsystem]"

definition resize_pty :: "int \<Rightarrow> int \<Rightarrow> int \<Rightarrow> int \<Rightarrow> (channel, unit) py" where
  "resize_pty width height width_pixels height_pixels =
     request_only (lit ''window-change'') [FInt width, FInt height, FInt width_pixels, FInt height_pixels]"

definition set_environment_variable :: "bytes \<Rightarrow> bytes \<Rightarrow> (channel, unit) py" where
  "set_environment_variable name value = request_only (lit ''env'') [FString name, FString value]"

text \<open>The text of the new exception names the variable; that part is left out.\<close>

fun set_environment :: "(bytes \<times> bytes) list \<Rightarrow> (channel, unit) py" where
  "set_environment [] s = pret () s"
| "set_environment ((name, value) # env) s =
     (case set_environment_variable name value s of
        (Inl e, s') \<Rightarrow>
          (if is_SSHException e then (Inl (SSHException ''Failed to set environment variable''), s')
           else (Inl e, s'))
      | (Inr _, s') \<Rightarrow> set_environment env s')"

definition update_environment :: "(bytes \<times> bytes) list \<Rightarrow> (channel, unit) py" where
  "update_environment environment = pbind open_only (\<lambda>_. set_environment environment)"

definition recv_exit_status ::
  "(chan_request \<Rightarrow> bool) option \<Rightarrow> chan_op env \<Rightarrow> (channel, int) bpy" where
  "recv_exit_status srv env =
     bbind (wait_loop (\<lambda>s. \<not> status_event s) (chan_step srv) SocketTimeout None env) (\<lambda>_.
     bget exit_status)"

definition send_exit_status :: "int \<Rightarrow> (channel, unit) py" where
  "send_exit_status status =
     pbind (request_message (lit ''exit-status'') False [FInt status]) send_user_message"

text \<open>\<open>cookie\<close> is the given cookie or else the hexadecimal form of 16 random bytes.\<close>

definition request_x11 ::
  "(chan_request \<Rightarrow> bool) option \<Rightarrow> chan_op env \<Rightarrow> int \<Rightarrow> bytes option \<Rightarrow> bytes \<Rightarrow> bool \<Rightarrow> nat \<Rightarrow> (channel, bytes) bpy" where
  "request_x11 srv env screen_number auth_protocol cookie single_connection handler =
     bbind (request_and_wait srv env (lit ''x11-req'')
       [FBool single_connection,
        FString (case auth_protocol of None \<Rightarrow> lit ''MIT-MAGIC-COOKIE-1'' | Some p \<Rightarrow> p),
        FString cookie, FInt screen_number]) (\<lambda>_.
     bbind (bmodify (\<lambda>s. s\<lparr>calls := calls s @ [SetX11Handler handler]\<rparr>)) (\<lambda>_.
     bret cookie))"

definition request_forward_agent :: "nat \<Rightarrow> (channel, bool) py" where
  "request_forward_agent handler =
     pbind (request_only (lit ''auth-agent-req@openssh.com'') []) (\<lambda>_.
     pbind (pmodify (\<lambda>s. s\<lparr>calls := calls s @ [SetForwardAgentHandler handler]\<rparr>)) (\<lambda>_.
     pret True))"

text \<open>\<^verbatim>\<open>recv\<close> (\<open>stderr = False\<close>) and \<^verbatim>\<open>recv_stderr\<close>.\<close>

definition recv_on ::
  "bool \<Rightarrow> (chan_request \<Rightarrow> bool) option \<Rightarrow> chan_op env \<Rightarrow> int \<Rightarrow> (channel, bytes) bpy" where
  "recv_on stderr srv env nbytes s =
     (case (if stderr
            then read_in in_stderr_buffer (\<lambda>p s. s\<lparr>in_stderr_buffer := p\<rparr>) (chan_step srv) nbytes (chan_timeout s) env s
            else read_in in_buffer (\<lambda>p s. s\<lparr>in_buffer := p\<rparr>) (chan_step srv) nbytes (chan_timeout s) env s) of
        (Waiting, s') \<Rightarrow> (Waiting, s')
      | (Done (Inl e), s') \<Rightarrow> (Done (Inl (if e = PipeTimeout then SocketTimeout else e)), s')
      | (Done (Inr out), s') \<Rightarrow> nb (ack_window out) s')"

definition recv where "recv = recv_on False"
definition recv_stderr where "recv_stderr = recv_on True"

definition wait_for_send_window ::
  "(chan_request \<Rightarrow> bool) option \<Rightarrow> chan_op env \<Rightarrow> (channel, unit) bpy" where
  "wait_for_send_window srv env s =
     (if chan_closed s \<or> eof_sent s then bret () s
      else if out_window_size s = 0 then
        (if chan_timeout s = Some 0 then braise SocketTimeout s
         else wait_loop (\<lambda>s. out_window_size s = 0 \<and> \<not> (chan_closed s \<or> eof_sent s)) (chan_step srv)
                SocketTimeout (chan_timeout s) env s)
      else bret () s)"

text \<open>\<^verbatim>\<open>send\<close> (\<open>stderr = False\<close>) and \<^verbatim>\<open>send_stderr\<close>, with \<^verbatim>\<open>_send\<close>.\<close>

definition send_on ::
  "bool \<Rightarrow> (chan_request \<Rightarrow> bool) option \<Rightarrow> chan_op env \<Rightarrow> bytes \<Rightarrow> (channel, int) bpy" where
  "send_on stderr srv env b s =
     (let head = data_head stderr s in
      if chan_closed s then (Done (Inl (SocketError ''Socket is closed'')), s)
      else bbind (wait_for_send_window srv env) (\<lambda>_.
           nb (pbind (claim_message b head) send_claimed)) s)"

definition send where "send = send_on False"
definition send_stderr where "send_stderr = send_on True"

text \<open>\<^verbatim>\<open>sendall\<close> and \<^verbatim>\<open>sendall_stderr\<close>: each turn of the loop has an interleaving of its own, and
  while they last the loop may go on.\<close>

fun sendall_on ::
  "bool \<Rightarrow> (chan_request \<Rightarrow> bool) option \<Rightarrow> chan_op env list \<Rightarrow> bytes \<Rightarrow> (channel, unit) bpy" where
  "sendall_on stderr srv [] b s = (if b \<noteq> [] then (Waiting, s) else bret () s)"
| "sendall_on stderr srv (env # envs) b s =
     (if b \<noteq> [] then
        bbind (send_on stderr srv env b) (\<lambda>sent. sendall_on stderr srv envs (slice_from sent b)) s
      else bret () s)"

definition sendall where "sendall = sendall_on False"
definition sendall_stderr where "sendall_stderr = sendall_on True"

end
