(* ===== verification/Channel_Inv.thy ===== *)
theory Channel_Inv
  imports Channel
begin

text \<open>
  How invariants of a channel are proved. An invariant that does not depend on the input side
  of the channel and that answers to requests do not disturb is kept by the steps that
  deal with input and requests (locale \<open>request_invariant\<close>); one that window updates do not
  disturb is also kept by receiving (\<open>input_invariant\<close>); one that closing and the messages
  that closing sends do not disturb is also kept by the steps that close
  (\<open>closing_invariant\<close>); with both, by all steps but sending data and being granted window
  (\<open>quiet_invariant\<close>).
\<close>

lemma update_calls_keeps:
  assumes "\<And>s. P s \<Longrightarrow> P (s\<lparr>calls := calls s @ [SendUserMessage m]\<rparr>)"
  shows "keeps P (send_user_message m) (\<lambda>_. True)"
  using assms by (auto simp: keeps_def send_user_message_def split: option.splits)

locale request_invariant =
  fixes P :: "channel \<Rightarrow> bool"
  assumes in_buffer: "P (s\<lparr>in_buffer := p\<rparr>) = P s"
    and in_stderr_buffer: "P (s\<lparr>in_stderr_buffer := p\<rparr>) = P s"
    and status: "P (s\<lparr>exit_status := n, status_event := True\<rparr>) = P s"
    and event: "P (s\<lparr>event_ready := b, chan_event := b\<rparr>) = P s"
    and eof_received: "P (s\<lparr>eof_received := b\<rparr>) = P s"
    and fd_pipe: "P (s\<lparr>fd_pipe := d\<rparr>) = P s"
    and combine: "P (s\<lparr>combine_stderr := b\<rparr>) = P s"
    and timeout: "P (s\<lparr>chan_timeout := t\<rparr>) = P s"
    and transport: "P (s\<lparr>send_error := x, saved_exception := x\<rparr>) = P s"
    and reply: "message_of (FRaw [c] # fs) = Inr m \<Longrightarrow> list_all simple_field fs \<Longrightarrow>
      c \<in> {MSG_CHANNEL_SUCCESS, MSG_CHANNEL_FAILURE} \<Longrightarrow> P s \<Longrightarrow>
      P (s\<lparr>calls := calls s @ [SendUserMessage m]\<rparr>)"
begin

lemmas fields = in_buffer in_stderr_buffer status event eof_received fd_pipe combine timeout transport

definition is_reply :: "bytes \<Rightarrow> bool" where
  "is_reply m \<longleftrightarrow> (\<exists>c fs. message_of (FRaw [c] # fs) = Inr m \<and> list_all simple_field fs
     \<and> c \<in> {MSG_CHANNEL_SUCCESS, MSG_CHANNEL_FAILURE})"

lemma send_reply: "is_reply m \<Longrightarrow> keeps P (send_user_message m) (\<lambda>_. True)"
  by (rule update_calls_keeps) (auto simp: is_reply_def intro: reply)

lemma handle_request_kept: "keeps P (handle_request srv m) (\<lambda>_. True)"
proof -
  have rep: "keeps P (pbind (\<lambda>s. plift (message_of [FRaw [c], FInt (remote_chanid s)]) s)
       send_user_message) (\<lambda>_. True)" if "c \<in> {MSG_CHANNEL_SUCCESS, MSG_CHANNEL_FAILURE}" for c
    by (rule keeps_pbind [OF keeps_plift [where Q = is_reply] send_reply]) (use that in \<open>force simp: is_reply_def\<close>)
  have act: "keeps P (case req of
              PExitStatus n \<Rightarrow> pbind (pmodify (\<lambda>s. s\<lparr>exit_status := n, status_event := True\<rparr>)) (\<lambda>_. pret True)
            | PXonXoff \<Rightarrow> pret True
            | PAsk r \<Rightarrow> pret (case srv of None \<Rightarrow> False | Some f \<Rightarrow> f r)
            | PUnhandled \<Rightarrow> pret False) (\<lambda>_. True)" for req
    by (cases req) (auto intro!: keeps_pret keeps_pbind [OF keeps_pmodify] simp: status)
  show ?thesis
    unfolding handle_request_def
    by (auto intro!: keeps_pbind [OF keeps_on_message] keeps_pbind [OF act] rep keeps_pret split: prod.splits)
qed

lemma input_kept:
  "keeps P request_success (\<lambda>_. True)" "keeps P (feed_message m) (\<lambda>_. True)"
  "keeps P (feed_extended m) (\<lambda>_. True)" "keeps P handle_eof (\<lambda>_. True)"
  unfolding request_success_def handle_eof_def feed_message_def feed_extended_def feed_bytes_def
  by (auto intro!: keeps_pmodify keeps_pbind [OF keeps_on_message] keeps_pret simp: event in_buffer in_stderr_buffer
      split: prod.splits)
    (use eof_received in_buffer in_stderr_buffer fd_pipe in metis)

lemma combine_kept: "keeps P (set_combine_stderr b) (\<lambda>_. True)"
  by (auto simp: keeps_def set_combine_stderr_def switch_combine_def feed_bytes_def fields Let_def split: prod.splits)

lemma fileno_kept: "P (fileno s) = P s"
proof (cases "fd_pipe s")
  case None
  then have "fileno s = s\<lparr>fd_pipe := Some False\<rparr>\<lparr>in_buffer := set_event (in_buffer s)\<rparr>
      \<lparr>in_stderr_buffer := set_event (in_stderr_buffer s)\<rparr>" by (simp add: fileno_def)
  then show ?thesis by (simp only: fields)
qed (simp add: fileno_def)

lemmas request_steps_kept = handle_request_kept input_kept combine_kept

end

locale input_invariant = request_invariant +
  assumes sofar: "P (s\<lparr>in_window_sofar := n\<rparr>) = P s"
    and credit: "message_of (FRaw [MSG_CHANNEL_WINDOW_ADJUST] # fs) = Inr m \<Longrightarrow> list_all simple_field fs \<Longrightarrow> P s \<Longrightarrow>
      P (s\<lparr>calls := calls s @ [SendUserMessage m]\<rparr>)"
begin

lemma ack_window_kept: "keeps P (ack_window out) (\<lambda>_. True)"
proof -
  have k: "keeps P (pbind (\<lambda>s. plift (message_of [FRaw [MSG_CHANNEL_WINDOW_ADJUST], FInt (remote_chanid s), FInt ack]) s) (\<lambda>m.
        pbind (send_user_message m) (\<lambda>_. pret out))) (\<lambda>_. True)" for ack
    by (rule keeps_pbind [OF keeps_plift [where Q = "\<lambda>m. keeps P (send_user_message m) (\<lambda>_. True)"]])
      (auto intro!: update_calls_keeps keeps_pbind keeps_pret intro: credit)
  have "P (snd (ack_window out s))" if fs: "P s" for s
  proof -
    obtain ack t where t: "check_add_window (int (length out)) s = (ack, t)" by force
    then have "P t" using fs by (auto simp: check_add_window_def Let_def sofar split: if_splits)
    then show ?thesis using t keepsD [OF k, of t ack] by (simp add: ack_window_def pret_def)
  qed
  then show ?thesis by (simp add: keeps_def)
qed

lemma recv_kept: "keeps P (recv_now e n) (\<lambda>_. True)"
  using keepsD [OF ack_window_kept] by (auto simp: keeps_def recv_now_def fields Let_def split: prod.splits)

end

locale closing_invariant = request_invariant +
  assumes eof_sent: "P (s\<lparr>eof_sent := b\<rparr>) = P s"
    and set_closed: "P (set_closed s) = P s"
    and unlinked: "P (s\<lparr>calls := calls s @ [UnlinkChannel n]\<rparr>) = P s"
    and closing: "message_of (FRaw [c] # fs) = Inr m \<Longrightarrow> list_all simple_field fs \<Longrightarrow>
      c \<in> {MSG_CHANNEL_EOF, MSG_CHANNEL_CLOSE} \<Longrightarrow> P s \<Longrightarrow>
      P (s\<lparr>calls := calls s @ [SendUserMessage m]\<rparr>)"
begin

definition is_closing :: "bytes \<Rightarrow> bool" where
  "is_closing m \<longleftrightarrow> (\<exists>c fs. message_of (FRaw [c] # fs) = Inr m \<and> list_all simple_field fs
     \<and> c \<in> {MSG_CHANNEL_EOF, MSG_CHANNEL_CLOSE})"

lemma send_closing: "is_closing m \<Longrightarrow> keeps P (send_user_message m) (\<lambda>_. True)"
  by (rule update_calls_keeps) (auto simp: is_closing_def intro: closing)

lemma send_all_closing:
  "\<forall>m. Some m \<in> set ms \<longrightarrow> is_closing m \<Longrightarrow> keeps P (send_all_messages ms) (\<lambda>_. True)"
  by (induction ms rule: send_all_messages.induct)
    (auto intro!: keeps_rules keeps_pbind [OF send_closing])

lemma send_eof_kept: "keeps P send_eof (\<lambda>m. \<forall>b. m = Some b \<longrightarrow> is_closing b)"
  by (auto simp: keeps_def send_eof_def eof_sent is_closing_def split: sum.splits)
    (metis insertI1 list.pred_inject simple_field.simps(3))

lemma close_internal_kept: "keeps P close_internal (\<lambda>ms. \<forall>m. Some m \<in> set ms \<longrightarrow> is_closing m)"
proof -
  have "keeps P (pbind send_eof (\<lambda>m1.
           pbind (\<lambda>s. plift (message_of [FRaw [MSG_CHANNEL_CLOSE], FInt (remote_chanid s)]) s) (\<lambda>m2.
           pbind (pmodify set_closed) (\<lambda>_. pret [m1, Some m2])))) (\<lambda>ms. \<forall>m. Some m \<in> set ms \<longrightarrow> is_closing m)"
    by (rule keeps_pbind [OF send_eof_kept], rule keeps_pbind [OF keeps_plift [where Q = is_closing]])
      (force simp: is_closing_def, auto simp: set_closed intro!: keeps_pbind [OF keeps_pmodify] keeps_pret)
  then show ?thesis by (auto simp: keeps_def close_internal_def)
qed

lemma closing_kept:
  "keeps P request_failed (\<lambda>_. True)" "keeps P close_chan (\<lambda>_. True)" "keeps P handle_close (\<lambda>_. True)"
  "keeps P (shutdown how) (\<lambda>_. True)" "keeps P unlink (\<lambda>_. True)"
proof -
  show "keeps P request_failed (\<lambda>_. True)"
    unfolding request_failed_def by (rule keeps_pbind [OF close_internal_kept send_all_closing])
  show "keeps P close_chan (\<lambda>_. True)"
    unfolding close_chan_def
    by (rule keeps_pbind [OF keeps_pmodify], simp add: fd_pipe,
        rule keeps_pbind [OF keeps_if [OF keeps_pret close_internal_kept] send_all_closing]) simp_all
  show "keeps P handle_close (\<lambda>_. True)"
    unfolding handle_close_def
    by (rule keeps_pbind [OF close_internal_kept], rule keeps_pbind [where Q = "\<lambda>_. True", OF _ send_all_closing])
      (simp_all add: keeps_def unlinked)
  have eof: "keeps P (pbind send_eof (\<lambda>m. \<lambda>s. case m of None \<Rightarrow> pret () s
         | Some b \<Rightarrow> if has_transport s then send_user_message b s else pret () s)) (\<lambda>_. True)"
  proof (rule keeps_pbind [OF send_eof_kept])
    fix x :: "bytes option" assume "\<forall>b. x = Some b \<longrightarrow> is_closing b"
    then show "keeps P (\<lambda>s. case x of None \<Rightarrow> pret () s
         | Some b \<Rightarrow> if has_transport s then send_user_message b s else pret () s) (\<lambda>_. True)"
      by (cases x) (auto intro!: keeps_if send_closing keeps_pret)
  qed
  show "keeps P (shutdown how) (\<lambda>_. True)"
    unfolding shutdown_def
    by (rule keeps_pbind [OF keeps_pmodify]) (auto intro: eof keeps_pret simp: eof_received)
  show "keeps P unlink (\<lambda>_. True)"
    by (auto simp: keeps_def unlink_def py_monad set_closed unlinked)
qed

lemma closing_step_kept:
  assumes "P s" "\<And>e b. op \<noteq> OSend e b" "\<And>m. op \<noteq> OWindowAdjust m" "\<And>e n. op \<noteq> ORecv e n"
  shows "P (chan_step srv s op)"
proof (cases op)
  case (OSend e b)
  with assms(2) show ?thesis by blast
next
  case (OWindowAdjust m)
  with assms(3) show ?thesis by blast
next
  case (ORecv e n)
  with assms(4) show ?thesis by blast
qed (use assms(1) in \<open>simp_all add: closing_kept [THEN keepsD] request_steps_kept [THEN keepsD] fileno_kept
    settimeout_def timeout transport\<close>)

end

locale quiet_invariant = closing_invariant + input_invariant
begin

lemma step_kept:
  assumes "P s" "\<And>e b. op \<noteq> OSend e b" "\<And>m. op \<noteq> OWindowAdjust m"
  shows "P (chan_step srv s op)"
  using assms closing_step_kept [of s op] keepsD [OF recv_kept] by (cases op) simp_all

end

text \<open>The other side: an invariant of the input that does not depend on what goes out, and that
  closing keeps, is kept by all steps that neither feed nor empty the buffers.\<close>

locale stream_invariant =
  fixes P :: "channel \<Rightarrow> bool"
  assumes calls_any: "P s \<Longrightarrow> P (s\<lparr>calls := cs\<rparr>)"
    and eof_sent_any: "P s \<Longrightarrow> P (s\<lparr>eof_sent := b\<rparr>)"
    and window_any: "P s \<Longrightarrow> P (s\<lparr>out_window_size := n\<rparr>)"
    and sofar_any: "P s \<Longrightarrow> P (s\<lparr>in_window_sofar := n\<rparr>)"
    and status_any: "P s \<Longrightarrow> P (s\<lparr>exit_status := n, status_event := True\<rparr>)"
    and event_any: "P s \<Longrightarrow> P (s\<lparr>event_ready := True, chan_event := True\<rparr>)"
    and eof_any: "P s \<Longrightarrow> P (s\<lparr>eof_received := True\<rparr>)"
    and fd_any: "P s \<Longrightarrow> P (s\<lparr>fd_pipe := d\<rparr>)"
    and timeout_any: "P s \<Longrightarrow> P (s\<lparr>chan_timeout := t\<rparr>)"
    and transport_any: "P s \<Longrightarrow> P (s\<lparr>send_error := x, saved_exception := x\<rparr>)"
    and close_pipes: "P s \<Longrightarrow> P (s\<lparr>in_buffer := close_pipe (in_buffer s), in_stderr_buffer := close_pipe (in_stderr_buffer s)\<rparr>)"
    and set_closed_any: "P s \<Longrightarrow> P (set_closed s)"
    and set_events: "P s \<Longrightarrow> P (s\<lparr>in_buffer := set_event (in_buffer s), in_stderr_buffer := set_event (in_stderr_buffer s)\<rparr>)"
begin

lemma send_any: "keeps P (send_user_message m) (\<lambda>_. True)"
  by (rule update_calls_keeps) (rule calls_any)

lemma send_all_any: "keeps P (send_all_messages ms) (\<lambda>_. True)"
  by (induction ms rule: send_all_messages.induct) (auto intro!: keeps_rules keeps_pbind [OF send_any])

lemma send_eof_any: "keeps P send_eof (\<lambda>_. True)"
  by (auto simp: keeps_def send_eof_def eof_sent_any split: sum.splits)

lemma close_internal_any: "keeps P close_internal (\<lambda>_. True)"
proof -
  have "keeps P (pbind send_eof (\<lambda>m1.
           pbind (\<lambda>s. plift (message_of [FRaw [MSG_CHANNEL_CLOSE], FInt (remote_chanid s)]) s) (\<lambda>m2.
           pbind (pmodify set_closed) (\<lambda>_. pret [m1, Some m2])))) (\<lambda>_. True)"
    by (rule keeps_pbind [OF send_eof_any], rule keeps_pbind [OF keeps_plift [where Q = "\<lambda>_. True"]])
      (auto intro!: keeps_pbind [OF keeps_pmodify] keeps_pret set_closed_any)
  then show ?thesis by (auto simp: keeps_def close_internal_def)
qed

lemma closing_any:
  "keeps P request_failed (\<lambda>_. True)" "keeps P close_chan (\<lambda>_. True)" "keeps P handle_close (\<lambda>_. True)"
  "keeps P (shutdown how) (\<lambda>_. True)" "keeps P unlink (\<lambda>_. True)" "keeps P handle_eof (\<lambda>_. True)"
proof -
  show "keeps P request_failed (\<lambda>_. True)"
    unfolding request_failed_def by (rule keeps_pbind [OF close_internal_any send_all_any])
  show "keeps P close_chan (\<lambda>_. True)"
    unfolding close_chan_def
    by (rule keeps_pbind [OF keeps_pmodify], simp add: fd_any,
        rule keeps_pbind [OF keeps_if [OF keeps_pret close_internal_any] send_all_any]) simp_all
  show "keeps P handle_close (\<lambda>_. True)"
    unfolding handle_close_def
    by (rule keeps_pbind [OF close_internal_any], rule keeps_pbind [where Q = "\<lambda>_. True", OF _ send_all_any])
      (simp_all add: keeps_def calls_any)
  have eof: "keeps P (pbind send_eof (\<lambda>m. \<lambda>s. case m of None \<Rightarrow> pret () s
         | Some b \<Rightarrow> if has_transport s then send_user_message b s else pret () s)) (\<lambda>_. True)"
  proof (rule keeps_pbind [OF send_eof_any])
    fix x :: "bytes option"
    show "keeps P (\<lambda>s. case x of None \<Rightarrow> pret () s
         | Some b \<Rightarrow> if has_transport s then send_user_message b s else pret () s) (\<lambda>_. True)"
      by (cases x) (auto intro!: keeps_if send_any keeps_pret)
  qed
  show "keeps P (shutdown how) (\<lambda>_. True)"
    unfolding shutdown_def
    by (rule keeps_pbind [OF keeps_pmodify]) (auto intro: eof keeps_pret simp: eof_any)
  show "keeps P unlink (\<lambda>_. True)"
    by (auto simp: keeps_def unlink_def py_monad set_closed_any calls_any)
  show "keeps P handle_eof (\<lambda>_. True)"
    unfolding handle_eof_def
  proof (rule keeps_pmodify)
    fix s assume "P s"
    from fd_any [OF close_pipes [OF eof_any [OF this]], of "map_option (\<lambda>_. True) (fd_pipe s)"] \<open>P s\<close>
    show "P (if \<not> eof_received s then s\<lparr>eof_received := True, in_buffer := close_pipe (in_buffer s),
         in_stderr_buffer := close_pipe (in_stderr_buffer s), fd_pipe := map_option (\<lambda>_. True) (fd_pipe s)\<rparr> else s)"
      by simp
  qed
qed

lemma handle_request_any: "keeps P (handle_request srv m) (\<lambda>_. True)"
proof -
  have rep: "keeps P (pbind (\<lambda>s. plift (message_of [FRaw [c], FInt (remote_chanid s)]) s)
       send_user_message) (\<lambda>_. True)" for c
    by (rule keeps_pbind [OF keeps_plift [where Q = "\<lambda>_. True"] send_any]) simp
  have act: "keeps P (case req of
              PExitStatus n \<Rightarrow> pbind (pmodify (\<lambda>s. s\<lparr>exit_status := n, status_event := True\<rparr>)) (\<lambda>_. pret True)
            | PXonXoff \<Rightarrow> pret True
            | PAsk r \<Rightarrow> pret (case srv of None \<Rightarrow> False | Some f \<Rightarrow> f r)
            | PUnhandled \<Rightarrow> pret False) (\<lambda>_. True)" for req
    by (cases req) (auto intro!: keeps_pret keeps_pbind [OF keeps_pmodify] simp: status_any)
  show ?thesis
    unfolding handle_request_def
    by (auto intro!: keeps_pbind [OF keeps_on_message] keeps_pbind [OF act] rep keeps_pret split: prod.splits)
qed

lemma ack_any: "keeps P (ack_window out) (\<lambda>_. True)"
proof -
  have k: "keeps P (pbind (\<lambda>s. plift (message_of [FRaw [MSG_CHANNEL_WINDOW_ADJUST], FInt (remote_chanid s), FInt ack]) s) (\<lambda>m.
        pbind (send_user_message m) (\<lambda>_. pret out))) (\<lambda>_. True)" for ack
    by (rule keeps_pbind [OF keeps_plift [where Q = "\<lambda>_. True"]]) (auto intro!: keeps_pbind [OF send_any] keeps_pret)
  have "P (snd (ack_window out s))" if fs: "P s" for s
  proof -
    obtain ack t where t: "check_add_window (int (length out)) s = (ack, t)" by force
    then have "P t" using fs by (auto simp: check_add_window_def Let_def split: if_splits intro: sofar_any)
    then show ?thesis using t keepsD [OF k, of t ack] by (simp add: ack_window_def pret_def)
  qed
  then show ?thesis by (simp add: keeps_def)
qed

lemma sending_any: "P s \<Longrightarrow> P (snd (send_now e b s))"
  using window_any [of s] calls_any
  by (auto simp: send_now_def claim_message_def claim_window_def send_claimed_def Let_def py_monad
      send_user_message_def split: sum.splits option.splits)

lemma adjust_any: "keeps P (window_adjust m) (\<lambda>_. True)"
  unfolding window_adjust_def
  by (auto intro!: keeps_pbind [OF keeps_on_message] keeps_pmodify window_any)

lemma fileno_any: "P s \<Longrightarrow> P (fileno s)"
  using set_events [OF fd_any, of s "Some False"] by (simp add: fileno_def)

lemma success_any: "keeps P request_success (\<lambda>_. True)"
  unfolding request_success_def by (intro keeps_pmodify event_any)

lemma stream_step_kept:
  assumes "P s" "\<And>m. op \<noteq> OFeed m" "\<And>m. op \<noteq> OFeedExtended m" "\<And>b. op \<noteq> OSetCombine b" "\<And>e n. op \<noteq> ORecv e n"
  shows "P (chan_step srv s op)"
proof (cases op)
  case (OFeed m)
  with assms(2) show ?thesis by blast
next
  case (OFeedExtended m)
  with assms(3) show ?thesis by blast
next
  case (OSetCombine b)
  with assms(4) show ?thesis by blast
next
  case (ORecv e n)
  with assms(5) show ?thesis by blast
qed (use assms(1) in \<open>simp_all add: closing_any [THEN keepsD] handle_request_any [THEN keepsD] adjust_any [THEN keepsD]
    success_any [THEN keepsD] sending_any fileno_any settimeout_def timeout_any transport_any\<close>)

end

end
