(* ===== verification/Channel_Flow.thy ===== *)
theory Channel_Flow
  imports Channel_Inv
begin

text \<open>
  What a channel promises, over every sequence of steps by any threads: flow control in both
  directions, the order of data, end of file and close, the byte streams, and that closing
  wakes every waiter.
\<close>

section \<open>Flow control, outbound\<close>

text \<open>The payload of a message to the transport: the data bytes it carries for the stream.\<close>

fun call_data :: "tcall \<Rightarrow> int" where
  "call_data (SendUserMessage m) =
     (if m \<noteq> [] \<and> hd m = MSG_CHANNEL_DATA then int (length m) - 9
      else if m \<noteq> [] \<and> hd m = MSG_CHANNEL_EXTENDED_DATA then int (length m) - 13 else 0)"
| "call_data _ = 0"

definition data_total :: "tcall list \<Rightarrow> int" where
  "data_total cs = sum_list (map call_data cs)"

lemma data_total_simps [simp]:
  "data_total [] = 0" "data_total (cs @ [c]) = data_total cs + call_data c"
  by (simp_all add: data_total_def)

text \<open>The window that a step of the peer grants.\<close>

fun granted :: "chan_op \<Rightarrow> int" where
  "granted (OWindowAdjust m) = (case fst (get_int m) of Inr n \<Rightarrow> n | Inl e \<Rightarrow> 0)"
| "granted _ = 0"

lemma call_data_other:
  "b \<noteq> MSG_CHANNEL_DATA \<Longrightarrow> b \<noteq> MSG_CHANNEL_EXTENDED_DATA \<Longrightarrow>
   message_of (FRaw [b] # fs) = Inr m \<Longrightarrow> list_all simple_field fs \<Longrightarrow> call_data (SendUserMessage m) = 0"
  using message_of_Inr [of "FRaw [b] # fs" m] by (simp add: enc_fields_def)

lemma call_data_message:
  assumes "message_of (data_head stderr s @ [FString x]) = Inr m"
  shows "call_data (SendUserMessage m) = int (length x)"
proof -
  have "m = enc_fields (data_head stderr s @ [FString x])"
    using assms by (intro message_of_Inr) (simp_all add: data_head_def)
  then show ?thesis by (simp add: data_head_def enc_fields_def enc_string_def msg_codes)
qed

text \<open>An invariant of the flow-control fields only.\<close>

definition flow_inv :: "(int \<Rightarrow> int \<Rightarrow> int \<Rightarrow> bool) \<Rightarrow> channel \<Rightarrow> bool" where
  "flow_inv F s \<longleftrightarrow> F (out_window_size s) (out_max_packet_size s) (data_total (calls s))"

lemma flow_message:
  assumes "message_of (FRaw [c] # fs) = Inr m" "list_all simple_field fs"
    "c \<noteq> MSG_CHANNEL_DATA" "c \<noteq> MSG_CHANNEL_EXTENDED_DATA"
  shows "flow_inv F (s\<lparr>calls := calls s @ [SendUserMessage m]\<rparr>) = flow_inv F s"
  using call_data_other [OF assms(3,4,1,2)] by (simp add: flow_inv_def del: call_data.simps)

interpretation flow: quiet_invariant "flow_inv F" for F
proof unfold_locales
  fix c fs m s
  assume m: "message_of (FRaw [c] # fs) = Inr m" "list_all simple_field fs" and P: "flow_inv F s"
  show "c \<in> {MSG_CHANNEL_SUCCESS, MSG_CHANNEL_FAILURE} \<Longrightarrow>
      flow_inv F (s\<lparr>calls := calls s @ [SendUserMessage m]\<rparr>)"
    "c \<in> {MSG_CHANNEL_EOF, MSG_CHANNEL_CLOSE} \<Longrightarrow> flow_inv F (s\<lparr>calls := calls s @ [SendUserMessage m]\<rparr>)"
    using flow_message [OF m, of F s] P by (auto simp: msg_codes)
next
  fix fs m s
  assume "message_of (FRaw [MSG_CHANNEL_WINDOW_ADJUST] # fs) = Inr m" "list_all simple_field fs" "flow_inv F s"
  then show "flow_inv F (s\<lparr>calls := calls s @ [SendUserMessage m]\<rparr>)"
    using flow_message [of MSG_CHANNEL_WINDOW_ADJUST fs m F s] by (simp add: msg_codes)
qed (simp_all add: flow_inv_def set_closed_def)

text \<open>What one step does to the window and to the data sent.\<close>

lemma claim_window_bounds:
  assumes "claim_window n s = (k, t)" "0 \<le> n" "0 \<le> out_window_size s" "64 \<le> out_max_packet_size s"
  shows "0 \<le> k" "k \<le> n" "k \<le> out_max_packet_size s - 64" "out_window_size t = out_window_size s - k"
    "0 \<le> out_window_size t" "t = s\<lparr>out_window_size := out_window_size s - k\<rparr>"
proof -
  have "s\<lparr>out_window_size := out_window_size s\<rparr> = s" by (cases s) simp
  then show "0 \<le> k" "k \<le> n" "k \<le> out_max_packet_size s - 64" "out_window_size t = out_window_size s - k"
    "0 \<le> out_window_size t" "t = s\<lparr>out_window_size := out_window_size s - k\<rparr>"
    using assms by (auto simp: claim_window_def Let_def split: if_splits)
qed

text \<open>Data and window together: never more than has been granted, whatever fails.\<close>

definition in_grant :: "int \<Rightarrow> channel \<Rightarrow> bool" where
  "in_grant g s \<longleftrightarrow> 0 \<le> out_window_size s \<and> 64 \<le> out_max_packet_size s
     \<and> data_total (calls s) + out_window_size s \<le> g"

lemma in_grant_flow: "in_grant g = flow_inv (\<lambda>w m d. 0 \<le> w \<and> 64 \<le> m \<and> d + w \<le> g)"
  by (rule ext) (simp add: in_grant_def flow_inv_def)

lemma in_grant_send:
  assumes "in_grant g s"
  shows "in_grant g (snd (send_now e b s))"
proof (cases "chan_closed s")
  case False
  obtain k t where c: "claim_window (int (length b)) s = (k, t)" by force
  have w: "0 \<le> out_window_size s" "64 \<le> out_max_packet_size s" using assms by (simp_all add: in_grant_def)
  note cb = claim_window_bounds [OF c _ w]
  have wt: "in_grant g t" "data_total (calls t) + k + out_window_size t \<le> g" "64 \<le> out_max_packet_size t"
    using assms cb(1,4,5,6) by (auto simp: in_grant_def)
  have len: "int (length (slice_to k b)) = k" using cb(1,2) by simp
  have "in_grant g (t\<lparr>calls := calls t @ [SendUserMessage m]\<rparr>)"
    if "message_of (data_head e s @ [FString (slice_to k b)]) = Inr m" for m
    using call_data_message [OF that] wt cb(5) len by (simp add: in_grant_def)
  then show ?thesis
    using False wt(1)
    by (auto simp: send_now_def claim_message_def c send_claimed_def py_monad send_user_message_def
        split: sum.splits option.splits)
qed (use assms in \<open>simp add: send_now_def\<close>)

lemma in_grant_step:
  assumes "in_grant g s"
  shows "in_grant (g + granted op) (chan_step srv s op)"
proof (cases op)
  case (OWindowAdjust m)
  obtain n m' where n: "get_int m = (Inr n, m')" "u32_ok n" using get_int_u32 by blast
  with assms OWindowAdjust show ?thesis
    by (auto simp: in_grant_def window_adjust_def on_message_def py_monad u32_ok_def)
next
  case (OSend e b)
  with in_grant_send [OF assms] show ?thesis by simp
qed (use flow.step_kept [of _ s op] assms in \<open>auto simp: in_grant_flow\<close>)

text \<open>C26: flow control is respected. Over every sequence of steps of any threads and of the
  transport, including sends that fail half-way, the data handed to the transport never
  exceeds the window the peer granted (at the opening and by window adjustments), and the
  window never becomes negative.\<close>

theorem window_respected:
  assumes "64 \<le> out_max_packet_size s" "0 \<le> out_window_size s" "calls s = []"
  shows "data_total (calls (foldl (chan_step srv) s ops)) \<le> out_window_size s + sum_list (map granted ops)
    \<and> 0 \<le> out_window_size (foldl (chan_step srv) s ops)"
proof -
  have "in_grant (g + sum_list (map granted ops)) (foldl (chan_step srv) s ops)" if "in_grant g s" for g s
    using that
  proof (induction ops arbitrary: g s)
    case (Cons op ops)
    from Cons.IH [OF in_grant_step [OF Cons.prems]] show ?case by (simp add: ac_simps)
  qed simp
  from this [of "out_window_size s" s] assms show ?thesis by (auto simp: in_grant_def)
qed


definition demo_channel :: channel where
  "demo_channel = set_remote_channel 5 10 32768 (set_window 2097152 32768 (set_transport (Channel_init 0 (lit ''0''))))"

theorem window_respected_witness:
  "data_total (calls (foldl (chan_step None) demo_channel
     [OSend False [1, 2, 3], OWindowAdjust (reading [] [0, 0, 0, 2]), OSend True (replicate 20 7)])) \<le> 12"
proof -
  have "64 \<le> out_max_packet_size demo_channel" "0 \<le> out_window_size demo_channel" "calls demo_channel = []"
    "out_window_size demo_channel = 10" "granted (OWindowAdjust (reading [] [0, 0, 0, 2])) = 2"
    by code_simp+
  with window_respected [of demo_channel None "[OSend False [1, 2, 3], OWindowAdjust (reading [] [0, 0, 0, 2]), OSend True (replicate 20 7)]"]
  show ?thesis by simp
qed


section \<open>Flow control, inbound\<close>

text \<open>The window that a message gives back to the peer.\<close>

fun call_ack :: "tcall \<Rightarrow> int" where
  "call_ack (SendUserMessage m) =
     (if m \<noteq> [] \<and> hd m = MSG_CHANNEL_WINDOW_ADJUST then be_dec (drop 5 m) else 0)"
| "call_ack _ = 0"

definition ack_total :: "tcall list \<Rightarrow> int" where
  "ack_total cs = sum_list (map call_ack cs)"

lemma ack_total_simps [simp]:
  "ack_total [] = 0" "ack_total (cs @ [c]) = ack_total cs + call_ack c"
  by (simp_all add: ack_total_def)

text \<open>The bytes that a step hands to the application.\<close>

fun delivered :: "channel \<Rightarrow> chan_op \<Rightarrow> int" where
  "delivered s (ORecv e n) = int (length (fst (take_out n (if e then in_stderr_buffer s else in_buffer s))))"
| "delivered s _ = 0"

primrec delivered_total :: "(chan_request \<Rightarrow> bool) option \<Rightarrow> channel \<Rightarrow> chan_op list \<Rightarrow> int" where
  "delivered_total srv s [] = 0"
| "delivered_total srv s (op # ops) = delivered s op + delivered_total srv (chan_step srv s op) ops"

definition credit_inv :: "int \<Rightarrow> channel \<Rightarrow> bool" where
  "credit_inv k s \<longleftrightarrow> ack_total (calls s) + in_window_sofar s \<le> k
     \<and> 0 \<le> in_window_sofar s \<and> in_window_sofar s \<le> in_window_threshold s"

lemma ack_other:
  assumes "message_of (FRaw [c] # fs) = Inr m" "list_all simple_field fs" "c \<noteq> MSG_CHANNEL_WINDOW_ADJUST"
  shows "call_ack (SendUserMessage m) = 0"
  using message_of_Inr [OF assms(1)] assms(2,3) by (simp add: enc_fields_def)

interpretation credit: closing_invariant "credit_inv k" for k
proof unfold_locales
  fix c fs m s
  assume m: "message_of (FRaw [c] # fs) = Inr m" "list_all simple_field fs" and P: "credit_inv k s"
  show "c \<in> {MSG_CHANNEL_SUCCESS, MSG_CHANNEL_FAILURE} \<Longrightarrow>
      credit_inv k (s\<lparr>calls := calls s @ [SendUserMessage m]\<rparr>)"
    "c \<in> {MSG_CHANNEL_EOF, MSG_CHANNEL_CLOSE} \<Longrightarrow> credit_inv k (s\<lparr>calls := calls s @ [SendUserMessage m]\<rparr>)"
    using ack_other [OF m] P by (auto simp: credit_inv_def msg_codes simp del: call_ack.simps)
qed (simp_all add: credit_inv_def set_closed_def)

lemma credit_data:
  assumes "message_of (data_head e s @ [FString x]) = Inr m"
  shows "call_ack (SendUserMessage m) = 0"
  using assms ack_other [of _ _ m] by (cases e) (simp_all add: data_head_def msg_codes del: call_ack.simps)

lemma credit_send: "credit_inv k s \<Longrightarrow> credit_inv k (snd (send_now e b s))"
proof -
  assume c: "credit_inv k s"
  obtain n t where t: "claim_window (int (length b)) s = (n, t)" by force
  have ct: "credit_inv k t" using c t by (auto simp: claim_window_def credit_inv_def Let_def split: if_splits)
  then have "credit_inv k (t\<lparr>calls := calls t @ [SendUserMessage m]\<rparr>)"
    if "message_of (data_head e s @ [FString x]) = Inr m" for m x
    using credit_data [OF that] by (simp add: credit_inv_def del: call_ack.simps)
  then show ?thesis
    using c ct by (auto simp: send_now_def claim_message_def t send_claimed_def py_monad send_user_message_def
        split: sum.splits option.splits)
qed

lemma credit_ack:
  assumes "credit_inv k s" "0 \<le> in_window_threshold s"
  shows "credit_inv (k + int (length out)) (snd (ack_window out s))"
proof -
  obtain a t where t: "check_add_window (int (length out)) s = (a, t)" by force
  have ct: "credit_inv (k + int (length out)) t" "a > 0 \<Longrightarrow> ack_total (calls t) + a \<le> k + int (length out)"
    "a > 0 \<Longrightarrow> in_window_sofar t = 0" "0 \<le> in_window_threshold t"
    using assms t by (auto simp: check_add_window_def credit_inv_def Let_def split: if_splits)
  have "call_ack (SendUserMessage m) \<le> a"
    if "message_of [FRaw [MSG_CHANNEL_WINDOW_ADJUST], FInt r, FInt a] = Inr m" "a > 0" for r m
    using message_of_Inr [OF that(1)] that(2) by (simp add: enc_fields_def be_dec_be_enc zmod_le_nonneg_dividend)
  then have "credit_inv (k + int (length out)) (t\<lparr>calls := calls t @ [SendUserMessage m]\<rparr>)"
    if "message_of [FRaw [MSG_CHANNEL_WINDOW_ADJUST], FInt r, FInt a] = Inr m" "a > 0" for r m
    using that ct by (fastforce simp: credit_inv_def simp del: call_ack.simps)
  then show ?thesis
    using ct(1) by (auto simp: ack_window_def t py_monad send_user_message_def split: sum.splits option.splits)
qed

lemma credit_step:
  assumes "credit_inv k s"
  shows "credit_inv (k + delivered s op) (chan_step srv s op)"
proof (cases op)
  case (OWindowAdjust m)
  with assms show ?thesis
    by (auto simp: window_adjust_def on_message_def py_monad credit_inv_def split: prod.splits sum.splits)
next
  case (OSend e b)
  with credit_send [OF assms] show ?thesis by simp
next
  case (ORecv e n)
  obtain out p where o: "take_out n (if e then in_stderr_buffer s else in_buffer s) = (out, p)" by force
  have "credit_inv k (if e then s\<lparr>in_stderr_buffer := p\<rparr> else s\<lparr>in_buffer := p\<rparr>)"
    using assms by (simp add: credit_inv_def)
  moreover have "0 \<le> in_window_threshold s" using assms by (simp add: credit_inv_def)
  ultimately show ?thesis
    using ORecv o credit_ack [of k "if e then s\<lparr>in_stderr_buffer := p\<rparr> else s\<lparr>in_buffer := p\<rparr>" out]
    by (simp add: recv_now_def)
qed (use credit.closing_step_kept [of k s op] assms in auto)

text \<open>C27: window credit is conserved. Over every sequence of steps, the window given back to the
  peer together with what is still withheld is at most what the application has read: the
  peer is never granted more than was consumed, and what is withheld stays at or below a
  tenth of the window (the threshold).\<close>

theorem credit_conserved:
  assumes "credit_inv 0 s"
  shows "ack_total (calls (foldl (chan_step srv) s ops)) + in_window_sofar (foldl (chan_step srv) s ops)
      \<le> delivered_total srv s ops
    \<and> in_window_sofar (foldl (chan_step srv) s ops) \<le> in_window_threshold (foldl (chan_step srv) s ops)"
proof -
  have "credit_inv (k + delivered_total srv s ops) (foldl (chan_step srv) s ops)" if "credit_inv k s" for k s
    using that
  proof (induction ops arbitrary: k s)
    case (Cons op ops)
    from Cons.IH [OF credit_step [OF Cons.prems]] show ?case by (simp add: ac_simps)
  qed simp
  from this [OF assms] show ?thesis by (simp add: credit_inv_def)
qed

theorem credit_conserved_witness:
  "ack_total (calls (foldl (chan_step None) demo_channel [OFeed (reading [] [0, 0, 0, 2, 8, 9]), ORecv False 1]))
     + in_window_sofar (foldl (chan_step None) demo_channel [OFeed (reading [] [0, 0, 0, 2, 8, 9]), ORecv False 1]) \<le> 1"
proof -
  have "credit_inv 0 demo_channel"
    "delivered_total None demo_channel [OFeed (reading [] [0, 0, 0, 2, 8, 9]), ORecv False 1] = 1"
    by code_simp+
  with credit_conserved [of demo_channel None "[OFeed (reading [] [0, 0, 0, 2, 8, 9]), ORecv False 1]"]
  show ?thesis by simp
qed

end
