(* ===== verification/Channel_Life.thy ===== *)
theory Channel_Life
  imports Channel_Flow
begin

text \<open>
  The life of a channel: in which order data, end of file and close go to the transport, what
  a closed channel does to those who wait, what \<^verbatim>\<open>sendall\<close> achieves, and how requests are
  understood at the other end.
\<close>

section \<open>Data, then end of file, then close\<close>

datatype phase = Opened | EofSent | CloseSent | Broken

fun phase_step :: "phase \<Rightarrow> tcall \<Rightarrow> phase" where
  "phase_step p (SendUserMessage m) =
     (if m = [] then p
      else if hd m = MSG_CHANNEL_DATA \<or> hd m = MSG_CHANNEL_EXTENDED_DATA then (if p = Opened then p else Broken)
      else if hd m = MSG_CHANNEL_EOF then (if p = Opened then EofSent else Broken)
      else if hd m = MSG_CHANNEL_CLOSE then (if p = Opened \<or> p = EofSent then CloseSent else Broken)
      else p)"
| "phase_step p _ = p"

definition phase_of :: "tcall list \<Rightarrow> phase" where
  "phase_of cs = foldl phase_step Opened cs"

lemma phase_of_simps [simp]: "phase_of [] = Opened" "phase_of (cs @ ds) = foldl phase_step (phase_of cs) ds"
  by (simp_all add: phase_of_def)

definition phase_inv :: "channel \<Rightarrow> bool" where
  "phase_inv s \<longleftrightarrow> phase_of (calls s) \<noteq> Broken \<and> (\<not> eof_sent s \<longrightarrow> phase_of (calls s) = Opened)
     \<and> (\<not> chan_closed s \<longrightarrow> phase_of (calls s) \<noteq> CloseSent)"

lemma message_head:
  assumes "message_of (FRaw [c] # fs) = Inr m" "list_all simple_field fs"
  shows "m \<noteq> [] \<and> hd m = c"
  using message_of_Inr [OF assms(1)] assms(2) by (simp add: enc_fields_def)

interpretation phase: input_invariant phase_inv
proof unfold_locales
  fix c fs m s
  assume "message_of (FRaw [c] # fs) = Inr m" "list_all simple_field fs" and P: "phase_inv s"
  then have "m \<noteq> [] \<and> hd m = c" by (simp add: message_head)
  then show "c \<in> {MSG_CHANNEL_SUCCESS, MSG_CHANNEL_FAILURE} \<Longrightarrow> phase_inv (s\<lparr>calls := calls s @ [SendUserMessage m]\<rparr>)"
    using P by (auto simp: phase_inv_def msg_codes)
next
  fix fs m s
  assume "message_of (FRaw [MSG_CHANNEL_WINDOW_ADJUST] # fs) = Inr m" "list_all simple_field fs" and P: "phase_inv s"
  then have "m \<noteq> [] \<and> hd m = MSG_CHANNEL_WINDOW_ADJUST" by (simp add: message_head)
  then show "phase_inv (s\<lparr>calls := calls s @ [SendUserMessage m]\<rparr>)"
    using P by (auto simp: phase_inv_def msg_codes)
qed (simp_all add: phase_inv_def)

text \<open>What \<^verbatim>\<open>_send_eof\<close> and \<^verbatim>\<open>_close_internal\<close> decide, and the sending of it.\<close>

lemma send_eof_result:
  assumes "send_eof s = (Inr r, s')"
  shows "s' = s\<lparr>eof_sent := True\<rparr>" "r = None \<longleftrightarrow> eof_sent s" "r = Some m \<Longrightarrow> m \<noteq> [] \<and> hd m = MSG_CHANNEL_EOF"
proof -
  have "s\<lparr>eof_sent := eof_sent s\<rparr> = s" by (cases s) simp
  then show "s' = s\<lparr>eof_sent := True\<rparr>" "r = None \<longleftrightarrow> eof_sent s"
    using assms by (auto simp: send_eof_def split: if_splits sum.splits)
  show "r = Some m \<Longrightarrow> m \<noteq> [] \<and> hd m = MSG_CHANNEL_EOF"
    using assms by (auto simp: send_eof_def split: if_splits sum.splits dest!: message_head)
qed

lemma send_eof_raises: "send_eof s = (Inl e, s') \<Longrightarrow> s' = s"
  by (auto simp: send_eof_def split: if_splits sum.splits)

lemma close_internal_result:
  assumes "close_internal s = (r, s')" "active s" "\<not> chan_closed s" "phase_inv s"
  shows "(\<exists>e. r = Inl e \<and> phase_inv s') \<or>
    (\<exists>m1 m2. r = Inr [m1, Some m2] \<and> m2 \<noteq> [] \<and> hd m2 = MSG_CHANNEL_CLOSE \<and> s' = set_closed (s\<lparr>eof_sent := True\<rparr>)
       \<and> (m1 = None \<longleftrightarrow> eof_sent s) \<and> (\<forall>m. m1 = Some m \<longrightarrow> m \<noteq> [] \<and> hd m = MSG_CHANNEL_EOF))"
proof -
  obtain r1 s1 where e: "send_eof s = (r1, s1)" by force
  show ?thesis
  proof (cases r1)
    case (Inl x)
    then show ?thesis using assms e send_eof_raises [of s x s1] by (auto simp: close_internal_def pbind_def)
  next
    case (Inr m1)
    note se = send_eof_result [OF e [unfolded Inr]]
    have p1: "phase_inv s1" using assms(4) by (auto simp: se(1) phase_inv_def)
    show ?thesis
    proof (cases "message_of [FRaw [MSG_CHANNEL_CLOSE], FInt (remote_chanid s1)]")
      case (Inl x)
      then show ?thesis using assms e Inr p1 by (auto simp: close_internal_def py_monad)
    next
      case m2: (Inr m2)
      then show ?thesis
        using assms e Inr se message_head [OF m2] by (auto simp: close_internal_def py_monad)
    qed
  qed
qed

lemma phase_send_all:
  assumes "\<not> eof_sent s \<Longrightarrow> phase_of (calls t) = Opened" "phase_of (calls t) = Opened \<or> phase_of (calls t) = EofSent"
    "eof_sent t" "chan_closed t" "m2 \<noteq> []" "hd m2 = MSG_CHANNEL_CLOSE" "m1 = None \<longleftrightarrow> eof_sent s"
    "\<And>m. m1 = Some m \<Longrightarrow> m \<noteq> [] \<and> hd m = MSG_CHANNEL_EOF"
  shows "phase_inv (snd (send_all_messages [m1, Some m2] t))"
  using assms
  by (cases m1) (auto simp: py_monad send_user_message_def phase_inv_def msg_codes split: option.splits)

lemma phase_close:
  assumes "phase_inv s" "active s" "\<not> chan_closed s"
    and f: "\<And>t. phase_of (calls (f t)) = phase_of (calls t)" "\<And>t. eof_sent (f t) = eof_sent t"
      "\<And>t. chan_closed (f t) = chan_closed t"
  shows "phase_inv (snd (pbind close_internal (\<lambda>ms. pbind (pmodify f) (\<lambda>_. send_all_messages ms)) s))"
proof -
  obtain r s1 where c: "close_internal s = (r, s1)" by force
  from close_internal_result [OF c assms(2,3,1)] consider (e) x where "r = Inl x" "phase_inv s1"
    | (ok) m1 m2 where "r = Inr [m1, Some m2]" "m2 \<noteq> []" "hd m2 = MSG_CHANNEL_CLOSE" "s1 = set_closed (s\<lparr>eof_sent := True\<rparr>)"
      "m1 = None \<longleftrightarrow> eof_sent s" "\<And>m. m1 = Some m \<Longrightarrow> m \<noteq> [] \<and> hd m = MSG_CHANNEL_EOF" by blast
  then show ?thesis
  proof cases
    case ok
    have "phase_of (calls s) = Opened \<or> phase_of (calls s) = EofSent" "\<not> eof_sent s \<Longrightarrow> phase_of (calls s) = Opened"
      using assms(1,3) by (cases "phase_of (calls s)"; auto simp: phase_inv_def)+
    then have "phase_inv (snd (send_all_messages [m1, Some m2] (f s1)))"
      using ok by (intro phase_send_all [of s]) (auto simp: f set_closed_def)
    then show ?thesis using c ok(1) by (simp add: pbind_def pmodify_def)
  qed (use c in \<open>simp add: pbind_def\<close>)
qed


lemma close_internal_idle: "\<not> active s \<or> chan_closed s \<Longrightarrow> close_internal s = (Inr [None, None], s)"
  by (auto simp: close_internal_def)

lemma phase_request_failed: "phase_inv s \<Longrightarrow> phase_inv (snd (request_failed s))"
proof (cases "active s \<and> \<not> chan_closed s")
  case True
  moreover assume "phase_inv s"
  moreover have "pbind (pmodify (\<lambda>t. t)) (\<lambda>_. send_all_messages ms) = send_all_messages ms" for ms
    by (rule ext) (simp add: pbind_def pmodify_def)
  ultimately show ?thesis using phase_close [of s "\<lambda>t. t"] by (simp add: request_failed_def)
qed (auto simp: request_failed_def pbind_def close_internal_idle pret_def)

lemma phase_close_chan: "phase_inv s \<Longrightarrow> phase_inv (snd (close_chan s))"
proof -
  assume p: "phase_inv s"
  let ?t = "s\<lparr>fd_pipe := None\<rparr>"
  have t: "phase_inv ?t" using p by (simp add: phase_inv_def)
  show ?thesis
  proof (cases "active s \<and> \<not> chan_closed s")
    case True
    then have "close_chan s = request_failed ?t"
      by (simp add: close_chan_def request_failed_def pbind_def pmodify_def)
    with phase_request_failed [OF t] show ?thesis by simp
  qed (use t in \<open>auto simp: close_chan_def py_monad\<close>)
qed

lemma phase_handle_close: "phase_inv s \<Longrightarrow> phase_inv (snd (handle_close s))"
proof -
  assume p: "phase_inv s"
  let ?f = "\<lambda>t. t\<lparr>calls := calls t @ [UnlinkChannel (chanid t)]\<rparr>"
  obtain r s1 where c: "close_internal s = (r, s1)" by force
  have ht: "has_transport s1 = has_transport s"
    using c by (auto simp: close_internal_def send_eof_def py_monad set_closed_def split: if_splits sum.splits)
  show ?thesis
  proof (cases "active s \<and> \<not> chan_closed s")
    case True
    show ?thesis
    proof (cases "has_transport s")
      case tr: True
      then have "handle_close s = pbind close_internal (\<lambda>ms. pbind (pmodify ?f) (\<lambda>_. send_all_messages ms)) s"
        using c ht by (simp add: handle_close_def pbind_def pmodify_def split: sum.splits)
      with True p show ?thesis using phase_close [of s ?f] by simp
    next
      case False
      then have "snd (handle_close s) = s1" using c ht by (simp add: handle_close_def pbind_def split: sum.splits)
      moreover have "phase_inv s1"
        using close_internal_result [OF c _ _ p] True p by (auto simp: phase_inv_def set_closed_def)
      ultimately show ?thesis by simp
    qed
  next
    case False
    then show ?thesis using p by (auto simp: handle_close_def pbind_def close_internal_idle pret_def phase_inv_def)
  qed
qed

lemma phase_shutdown: "phase_inv s \<Longrightarrow> phase_inv (snd (shutdown how s))"
proof -
  assume p: "phase_inv s"
  have eof: "phase_inv (snd (pbind send_eof (\<lambda>m. \<lambda>s. case m of None \<Rightarrow> pret () s
         | Some b \<Rightarrow> if has_transport s then send_user_message b s else pret () s) t))" if "phase_inv t" for t
  proof -
    obtain r t1 where e: "send_eof t = (r, t1)" by force
    show ?thesis
    proof (cases r)
      case (Inl x)
      with e that send_eof_raises [of t x t1] show ?thesis by (simp add: pbind_def)
    next
      case (Inr m)
      note se = send_eof_result [OF e [unfolded Inr]]
      show ?thesis
        using that e Inr se
        by (cases m) (auto simp: pbind_def pret_def send_user_message_def phase_inv_def msg_codes split: option.splits)
    qed
  qed
  have "phase_inv (s\<lparr>eof_received := True\<rparr>)" using p by (simp add: phase_inv_def)
  with p eof [of s] eof [of "s\<lparr>eof_received := True\<rparr>"] show ?thesis
    by (auto simp: shutdown_def pbind_def [where m = "pmodify _"] pmodify_def pret_def)
qed

lemma phase_send: "phase_inv s \<Longrightarrow> phase_inv (snd (send_now e b s))"
proof -
  assume p: "phase_inv s"
  obtain n t where t: "claim_window (int (length b)) s = (n, t)" by force
  have pt: "phase_inv t" "n \<noteq> 0 \<Longrightarrow> \<not> eof_sent t"
    using p t by (auto simp: claim_window_def phase_inv_def Let_def split: if_splits)
  have "m \<noteq> [] \<and> (hd m = MSG_CHANNEL_DATA \<or> hd m = MSG_CHANNEL_EXTENDED_DATA)"
    if "message_of (data_head e s @ [FString x]) = Inr m" for m x
    using that message_head [of _ _ m] by (cases e) (auto simp: data_head_def)
  then have "phase_inv (t\<lparr>calls := calls t @ [SendUserMessage m]\<rparr>)"
    if "message_of (data_head e s @ [FString x]) = Inr m" "n \<noteq> 0" for m x
    using that pt by (auto simp: phase_inv_def)
  then show ?thesis
    using p pt by (auto simp: send_now_def claim_message_def t send_claimed_def py_monad send_user_message_def
        split: sum.splits option.splits)
qed

lemma phase_chan_step: "phase_inv s \<Longrightarrow> phase_inv (chan_step srv s op)"
proof (cases op)
  case OUnlink
  moreover assume "phase_inv s"
  ultimately show ?thesis by (auto simp: unlink_def py_monad phase_inv_def set_closed_def)
next
  case (OWindowAdjust m)
  moreover assume "phase_inv s"
  ultimately show ?thesis
    by (auto simp: window_adjust_def on_message_def py_monad phase_inv_def split: prod.splits sum.splits)
qed (simp_all add: phase_request_failed phase_close_chan phase_handle_close phase_shutdown phase_send
    phase.request_steps_kept [THEN keepsD] phase.recv_kept [THEN keepsD] phase.fileno_kept phase.transport
    settimeout_def phase.timeout)



end
