(* ===== verification/Channel_Streams.thy ===== *)
theory Channel_Streams
  imports Channel_Life
begin

text \<open>
  The byte streams of a channel: what is fed comes out in order, closing wakes every waiter,
  what \<^verbatim>\<open>sendall\<close> achieves and where it does not end, and how requests are understood at the
  other end.
\<close>

section \<open>First in, first out\<close>

text \<open>The bytes that a step adds to the main stream and those it takes out.\<close>

fun stdout_fed :: "channel \<Rightarrow> chan_op \<Rightarrow> bytes" where
  "stdout_fed s (OFeed m) = (case get_binary m of (Inr b, _) \<Rightarrow> b | _ \<Rightarrow> [])"
| "stdout_fed s (OFeedExtended m) =
     (case get_int m of
        (Inr code, m') \<Rightarrow> (case get_binary m' of (Inr b, _) \<Rightarrow> if code = 1 \<and> combine_stderr s then b else [] | _ \<Rightarrow> [])
      | _ \<Rightarrow> [])"
| "stdout_fed s (OSetCombine c) = (if c \<and> \<not> combine_stderr s then buffer (in_stderr_buffer s) else [])"
| "stdout_fed s _ = []"

fun stdout_got :: "channel \<Rightarrow> chan_op \<Rightarrow> bytes" where
  "stdout_got s (ORecv False n) = fst (take_out n (in_buffer s))"
| "stdout_got s _ = []"

definition stdout_content :: "channel \<Rightarrow> bytes" where
  "stdout_content s = buffer (in_buffer s)"

lemma pipe_buffers [simp]:
  "buffer (close_pipe p) = buffer p" "buffer (set_event p) = buffer p" "buffer (feed b p) = buffer p @ b"
  "closed (feed b p) = closed p" "closed (close_pipe p) = True" "closed (set_event p) = closed p"
  "closed (snd (empty_pipe p)) = closed p"
  by (simp_all add: close_pipe_def set_event_def feed_def empty_pipe_def)

interpretation stdout: stream_invariant "\<lambda>s. stdout_content s = x" for x
  by unfold_locales (simp_all add: stdout_content_def set_closed_def)

lemma stdout_recv:
  "stdout_got s (ORecv e n) @ stdout_content (snd (recv_now e n s)) = stdout_content s"
proof -
  have a: "stdout_content (snd (ack_window out t)) = stdout_content t" for out t
    using keepsD [OF stdout.ack_any] by blast
  obtain out p where o: "take_out n (if e then in_stderr_buffer s else in_buffer s) = (out, p)" by force
  then have "snd (recv_now e n s) = snd (ack_window out (if e then s\<lparr>in_stderr_buffer := p\<rparr> else s\<lparr>in_buffer := p\<rparr>))"
    by (simp add: recv_now_def)
  then show ?thesis
    using o a take_out_conserve [of n "in_buffer s"] by (cases e) (simp_all add: stdout_content_def)
qed

interpretation stdout_fifo: fifo stdout_content "chan_step srv" stdout_fed stdout_got for srv
proof unfold_locales
  fix p x
  show "stdout_got p x @ stdout_content (chan_step srv p x) = stdout_content p @ stdout_fed p x"
  proof (cases x)
    case (OFeed m)
    then show ?thesis
      by (auto simp: feed_message_def on_message_def py_monad stdout_content_def feed_bytes_def split: prod.splits sum.splits)
  next
    case (OFeedExtended m)
    then show ?thesis
      by (auto simp: feed_extended_def on_message_def py_monad stdout_content_def feed_bytes_def split: prod.splits sum.splits)
  next
    case (OSetCombine c)
    then show ?thesis
      by (auto simp: set_combine_stderr_def switch_combine_def empty_pipe_def stdout_content_def feed_bytes_def Let_def)
  next
    case (ORecv e n)
    then show ?thesis using stdout_recv by simp
  qed (use stdout.stream_step_kept [of p "stdout_content p" x srv] in simp_all)
qed


section \<open>Closing wakes every waiter\<close>

definition closed_inv :: "channel \<Rightarrow> bool" where
  "closed_inv s \<longleftrightarrow> (chan_closed s \<longrightarrow> closed (in_buffer s) \<and> closed (in_stderr_buffer s) \<and> status_event s)"

interpretation shut: stream_invariant closed_inv
  by unfold_locales (simp_all add: closed_inv_def set_closed_def)

lemma closed_inv_step: "closed_inv s \<Longrightarrow> closed_inv (chan_step srv s op)"
proof -
  assume c: "closed_inv s"
  show ?thesis
  proof (cases op)
    case (OFeed m)
    with c show ?thesis
      by (auto simp: feed_message_def on_message_def py_monad closed_inv_def feed_bytes_def split: prod.splits sum.splits)
  next
    case (OFeedExtended m)
    with c show ?thesis
      by (auto simp: feed_extended_def on_message_def py_monad closed_inv_def feed_bytes_def split: prod.splits sum.splits)
  next
    case (OSetCombine b)
    with c show ?thesis
      by (auto simp: set_combine_stderr_def switch_combine_def empty_pipe_def closed_inv_def feed_bytes_def Let_def)
  next
    case (ORecv e n)
    obtain out p where o: "take_out n (if e then in_stderr_buffer s else in_buffer s) = (out, p)" by force
    have "closed p = closed (if e then in_stderr_buffer s else in_buffer s)" using take_out_closed [of n] o by (metis snd_conv)
    then have "closed_inv (if e then s\<lparr>in_stderr_buffer := p\<rparr> else s\<lparr>in_buffer := p\<rparr>)"
      using c by (simp add: closed_inv_def)
    from keepsD [OF shut.ack_any this] ORecv o show ?thesis by (simp add: recv_now_def)
  qed (use shut.stream_step_kept [of s op srv] c in simp_all)
qed

lemma closed_wakes:
  assumes "wakes (\<lambda>s. \<not> chan_closed s) (chan_step srv) env s" "closed_inv s"
    "\<And>t. closed_inv t \<Longrightarrow> chan_closed t \<Longrightarrow> \<not> blocked t"
  shows "wakes blocked (chan_step srv) env s"
proof -
  have fold: "closed_inv (foldl (chan_step srv) t ops)" if "closed_inv t" for t ops
    using that by (induction ops arbitrary: t) (simp_all add: closed_inv_step)
  have "closed_inv (foldl (\<lambda>p eo. foldl (chan_step srv) p (snd eo)) t env)" if "closed_inv t" for t and env :: "chan_op env"
    using that by (induction env arbitrary: t) (simp_all add: fold)
  with assms show ?thesis unfolding wakes_def by blast
qed



section \<open>Sending everything\<close>

fun call_payload :: "tcall \<Rightarrow> bytes" where
  "call_payload (SendUserMessage m) =
     (if m \<noteq> [] \<and> hd m = MSG_CHANNEL_DATA then drop 9 m
      else if m \<noteq> [] \<and> hd m = MSG_CHANNEL_EXTENDED_DATA then drop 13 m else [])"
| "call_payload _ = []"

lemma payload_message:
  assumes "message_of (data_head e s @ [FString x]) = Inr m"
  shows "call_payload (SendUserMessage m) = x"
proof -
  have "m = enc_fields (data_head e s @ [FString x])"
    using assms by (intro message_of_Inr) (simp_all add: data_head_def)
  then show ?thesis by (simp add: data_head_def enc_fields_def enc_string_def msg_codes)
qed

text \<open>The channel can be sent on: what the flow control needs.\<close>

definition sendable :: "channel \<Rightarrow> bool" where
  "sendable s \<longleftrightarrow> 0 \<le> out_window_size s \<and> 65 \<le> out_max_packet_size s"

lemma send_on_result:
  assumes "send_on e srv [] b s = (Done (Inr n), s')" "sendable s"
  shows "sendable s' \<and> 0 \<le> n \<and> n \<le> int (length b) \<and> (\<exists>cs. calls s' = calls s @ cs
    \<and> concat (map call_payload cs) = take (nat n) b
    \<and> (\<forall>c \<in> set cs. int (length (call_payload c)) \<le> out_max_packet_size s - 64))
    \<and> out_max_packet_size s' = out_max_packet_size s"
proof -
  have w: "wait_for_send_window srv [] s = (Done (Inr ()), s)" and nc: "\<not> chan_closed s"
    using assms(1) by (auto simp: send_on_def wait_for_send_window_def bbind_def bret_def braise_def Let_def
        split: if_splits)
  obtain k t where t: "claim_window (int (length b)) s = (k, t)" by force
  have b: "0 \<le> out_window_size s" "64 \<le> out_max_packet_size s" using assms(2) by (simp_all add: sendable_def)
  note cb = claim_window_bounds [OF t _ b]
  have st: "sendable t" "calls t = calls s" "out_max_packet_size t = out_max_packet_size s"
    using assms(2) cb(5,6) by (simp_all add: sendable_def)
  have r: "nb (pbind (claim_message b (data_head e s)) send_claimed) s = (Done (Inr n), s')"
    using assms(1) nc w by (simp add: send_on_def bbind_def Let_def)
  show ?thesis
  proof (cases "k = 0")
    case True
    then have "n = 0" "s' = t" using r t by (simp_all add: nb_def claim_message_def py_monad send_claimed_def)
    with st show ?thesis by auto
  next
    case False
    then obtain m where m: "message_of (data_head e s @ [FString (slice_to k b)]) = Inr m" "n = k"
      "s' = t\<lparr>calls := calls t @ [SendUserMessage m]\<rparr>"
      using r t by (auto simp: nb_def claim_message_def py_monad send_claimed_def send_user_message_def
          split: sum.splits if_splits option.splits prod.splits)
    have "call_payload (SendUserMessage m) = take (nat k) b" using payload_message [OF m(1)] cb(1) by simp
    with m st cb show ?thesis by (intro conjI exI [of _ "[SendUserMessage m]"]) (simp_all add: sendable_def del: call_payload.simps)
  qed
qed



text \<open>\<^verbatim>\<open>sendall\<close> on a channel whose sending side has been shut down never returns: \<^verbatim>\<open>send\<close> returns 0
  there instead of failing, and the loop goes round for ever, whatever happens meanwhile in
  each turn before the channel is closed.\<close>

theorem sendall_hangs_after_shutdown:
  assumes "eof_sent s" "\<not> chan_closed s" "b \<noteq> []"
  shows "sendall_on e srv envs b s = (Waiting, s)"
proof (induction envs)
  case (Cons env envs)
  have "send_on e srv env b s = (Done (Inr 0), s)"
    using assms by (simp add: send_on_def wait_for_send_window_def bbind_def bret_def nb_def claim_message_def
        claim_window_def send_claimed_def py_monad Let_def)
  with Cons assms(3) show ?case by (simp add: bbind_def)
qed (simp add: assms)

theorem sendall_hangs_after_shutdown_witness:
  "sendall_on False None (replicate 1000 []) [1] (snd (shutdown_write demo_channel)) = (Waiting, snd (shutdown_write demo_channel))"
  by (rule sendall_hangs_after_shutdown) code_simp+

section \<open>Races and lost ends\<close>

text \<open>Data can follow end of file and close: \<^verbatim>\<open>_send\<close> gives up the lock before it hands its
  message to the transport, so a close by another thread in between goes first.\<close>

theorem data_after_close:
  assumes "claim_message b (data_head e s) s = (Inr (n, Some m), s1)" "active s" "phase_of (calls s) = Opened"
    "has_transport s" "send_error s = None" "u32_ok (remote_chanid s)"
  shows "phase_of (calls (snd (close_chan s1))) = CloseSent
    \<and> phase_of (calls (snd (send_claimed (n, Some m) (snd (close_chan s1))))) = Broken"
proof -
  obtain k where t: "claim_window (int (length b)) s = (k, s1)" "k \<noteq> 0"
    "message_of (data_head e s @ [FString (slice_to k b)]) = Inr m"
    using assms(1) by (auto simp: claim_message_def py_monad split: prod.splits if_splits sum.splits)
  then have s1: "s1 = s\<lparr>out_window_size := out_window_size s1\<rparr>" "\<not> chan_closed s" "\<not> eof_sent s"
    by (auto simp: claim_window_def Let_def split: if_splits)
  have f: "active s1" "\<not> chan_closed s1" "\<not> eof_sent s1" "has_transport s1" "send_error s1 = None"
    "remote_chanid s1 = remote_chanid s" "calls s1 = calls s"
    using assms s1(2,3) by (subst s1(1), simp)+
  have md: "m \<noteq> [] \<and> (hd m = MSG_CHANNEL_DATA \<or> hd m = MSG_CHANNEL_EXTENDED_DATA)"
    using t(3) message_head [of _ _ m] by (cases e) (auto simp: data_head_def)
  obtain m1 m2 where ms: "message_of [FRaw [MSG_CHANNEL_EOF], FInt (remote_chanid s)] = Inr m1"
    "message_of [FRaw [MSG_CHANNEL_CLOSE], FInt (remote_chanid s)] = Inr m2"
    using assms(6) by (simp add: message_of_ok)
  note hs = message_head [OF ms(1)] message_head [OF ms(2)]
  show ?thesis
    using f ms hs md assms(3)
    by (auto simp: close_chan_def close_internal_def send_eof_def py_monad set_closed_def send_user_message_def
        send_claimed_def msg_codes)
qed

theorem data_after_close_witness:
  "\<exists>m s1. claim_message [1, 2] (data_head False demo_channel) demo_channel = (Inr (2, Some m), s1)
    \<and> phase_of (calls (snd (send_claimed (2, Some m) (snd (close_chan s1))))) = Broken"
proof -
  let ?m = "[94, 0, 0, 0, 5, 0, 0, 0, 2, 1, 2] :: bytes"
  let ?s1 = "snd (claim_message [1, 2] (data_head False demo_channel) demo_channel)"
  have "claim_message [1, 2] (data_head False demo_channel) demo_channel = (Inr (2, Some ?m), ?s1)"
    "active demo_channel" "phase_of (calls demo_channel) = Opened" "has_transport demo_channel"
    "send_error demo_channel = None" "u32_ok (remote_chanid demo_channel)"
    by code_simp+
  with data_after_close [OF this] show ?thesis by blast
qed

text \<open>After \<^verbatim>\<open>shutdown_read\<close> a reader hangs: the call does not end the stream, and it makes the
  channel ignore the end of file that the peer sends later, so \<^verbatim>\<open>recv\<close> waits although the peer has
  ended the stream.\<close>

theorem recv_hangs_after_shutdown_read:
  assumes "buffer (in_buffer s) = []" "\<not> closed (in_buffer s)" "chan_timeout s = None" "\<not> eof_received s"
  shows "fst (recv srv [] n (snd (handle_eof (snd (shutdown_read s))))) = Waiting
    \<and> fst (recv srv [] n (snd (handle_eof s))) = Done (Inr [])"
  using assms
  by (simp add: recv_def recv_on_def read_in_def handle_eof_def shutdown_read_def shutdown_def py_monad
      ack_window_def check_add_window_def)

theorem recv_hangs_after_shutdown_read_witness:
  "fst (recv None [] 10 (snd (handle_eof (snd (shutdown_read demo_channel))))) = Waiting"
  using recv_hangs_after_shutdown_read [of demo_channel None 10]
  by (simp add: demo_channel_def set_remote_channel_def set_window_def set_transport_def Channel_init_def BufferedPipe_init_def)

text \<open>Extended data of an unknown type is dropped together with its window credit: the channel
  is left exactly as it was, so the bytes are neither delivered nor ever given back to the
  peer's window.\<close>

theorem unknown_extended_data_leaks_window:
  assumes "get_int m = (Inr code, m')" "code \<noteq> 1" "get_binary m' = (Inr b, m'')"
  shows "feed_extended m s = (Inr (), s)"
  using assms by (simp add: feed_extended_def on_message_def py_monad)

theorem unknown_extended_data_leaks_window_witness:
  "feed_extended (reading [] [0, 0, 0, 2, 0, 0, 0, 3, 7, 8, 9]) demo_channel = (Inr (), demo_channel)"
proof (rule unknown_extended_data_leaks_window)
  show "get_int (reading [] [0, 0, 0, 2, 0, 0, 0, 3, 7, 8, 9]) = (Inr 2, reading [0, 0, 0, 2] [0, 0, 0, 3, 7, 8, 9])"
    by code_simp
  show "get_binary (reading [0, 0, 0, 2] [0, 0, 0, 3, 7, 8, 9]) = (Inr [7, 8, 9], reading [0, 0, 0, 2, 0, 0, 0, 3, 7, 8, 9] [])"
    by code_simp
qed simp

section \<open>Requests\<close>

text \<open>The request type and the fields with which the client's methods ask for something.\<close>

fun request_fields :: "chan_request \<Rightarrow> pystr \<times> field list" where
  "request_fields (RPty term w h pw ph modes) =
     (lit ''pty-req'', [FString term, FInt w, FInt h, FInt pw, FInt ph, FString modes])"
| "request_fields RShell = (lit ''shell'', [])"
| "request_fields (REnv name value) = (lit ''env'', [FString name, FString value])"
| "request_fields (RExec cmd) = (lit ''exec'', [FString cmd])"
| "request_fields (RSubsystem name) = (lit ''subsystem'', [FText name])"
| "request_fields (RWindowChange w h pw ph) = (lit ''window-change'', [FInt w, FInt h, FInt pw, FInt ph])"
| "request_fields (RX11 single proto cookie screen) =
     (lit ''x11-req'', [FBool single, FText proto, FString cookie, FInt screen])"
| "request_fields RForwardAgent = (lit ''auth-agent-req@openssh.com'', [])"

lemma client_methods:
  "get_pty srv env term w h pw ph = (let (k, fs) = request_fields (RPty term w h pw ph []) in request_and_wait srv env k fs)"
  "invoke_shell srv env = (let (k, fs) = request_fields RShell in request_and_wait srv env k fs)"
  "exec_command srv env cmd = (let (k, fs) = request_fields (RExec cmd) in request_and_wait srv env k fs)"
  "resize_pty w h pw ph = (let (k, fs) = request_fields (RWindowChange w h pw ph) in request_only k fs)"
  "set_environment_variable name value = (let (k, fs) = request_fields (REnv name value) in request_only k fs)"
  by (simp_all add: get_pty_def invoke_shell_def exec_command_def resize_pty_def set_environment_variable_def)

definition request_ok :: "chan_request \<Rightarrow> bool" where
  "request_ok r \<longleftrightarrow> list_all field_ok (snd (request_fields r))"

lemma key_ok: "text_ok (fst (request_fields r))"
proof -
  have "utf8_valid (fst (request_fields r)) \<and> length (fst (request_fields r)) < 100"
    by (cases r; simp only: request_fields.simps fst_conv; code_simp)
  moreover have "(100 :: nat) < 2 ^ 32" by simp
  ultimately have "length (fst (request_fields r)) < 2 ^ 32" by (meson less_trans)
  with \<open>utf8_valid (fst (request_fields r)) \<and> _\<close> show ?thesis by (simp add: text_ok_def string_ok_def)
qed

lemmas field_readers = get_bytes_exact boolean_codec.get_enc int_codec.get_enc string_codec.get_enc text_codec.get_enc

lemma parse_request_keys:
  "parse_request (lit ''pty-req'') =
     pbind get_string (\<lambda>term. pbind get_int (\<lambda>width. pbind get_int (\<lambda>height.
     pbind get_int (\<lambda>pixelwidth. pbind get_int (\<lambda>pixelheight. pbind get_string (\<lambda>modes.
     pret (PAsk (RPty term width height pixelwidth pixelheight modes))))))))"
  "parse_request (lit ''shell'') = pret (PAsk RShell)"
  "parse_request (lit ''env'') =
     pbind get_string (\<lambda>name. pbind get_string (\<lambda>value. pret (PAsk (REnv name value))))"
  "parse_request (lit ''exec'') = pbind get_string (\<lambda>cmd. pret (PAsk (RExec cmd)))"
  "parse_request (lit ''subsystem'') = pbind get_text (\<lambda>name. pret (PAsk (RSubsystem name)))"
  "parse_request (lit ''window-change'') =
     pbind get_int (\<lambda>width. pbind get_int (\<lambda>height. pbind get_int (\<lambda>pixelwidth. pbind get_int (\<lambda>pixelheight.
     pret (PAsk (RWindowChange width height pixelwidth pixelheight))))))"
  "parse_request (lit ''x11-req'') =
     pbind get_boolean (\<lambda>single_connection. pbind get_text (\<lambda>auth_proto.
     pbind get_binary (\<lambda>auth_cookie. pbind get_int (\<lambda>screen_number.
     pret (PAsk (RX11 single_connection auth_proto auth_cookie screen_number))))))"
  "parse_request (lit ''auth-agent-req@openssh.com'') = pret (PAsk RForwardAgent)"
  by (simp_all add: parse_request_def)

lemma last_field:
  "string_ok x \<Longrightarrow> get_string (reading p (enc_string x)) = (Inr x, reading (p @ enc_string x) [])"
  "text_ok x \<Longrightarrow> get_text (reading p (enc_string x)) = (Inr x, reading (p @ enc_string x) [])"
  "u32_ok n \<Longrightarrow> get_int (reading p (be_enc 4 n)) = (Inr n, reading (p @ be_enc 4 n) [])"
  using string_codec.get_enc [of x p "[]"] text_codec.get_enc [of x p "[]"] int_codec.get_enc [of n p "[]"] by simp_all

lemma parse_request_fields:
  assumes "request_ok r"
  shows "fst (parse_request (fst (request_fields r)) (reading pre (enc_fields (snd (request_fields r))))) = Inr (PAsk r)"
proof -
  have e: "enc_fields (f # fs) = enc_field f @ enc_fields fs" "enc_fields [] = []" for f fs
    by (simp_all add: enc_fields_def)
  note steps = pbind_def pret_def field_readers get_binary_string last_field
  show ?thesis
    using assms by (cases r) (simp_all add: request_ok_def parse_request_keys e steps)
qed



end
