(* ===== verification/Transport_Algorithms.thy ===== *)
theory Transport_Algorithms
  imports Ssh_Common
begin

text \<open>
  The algorithms of \<^verbatim>\<open>paramiko/transport.py\<close>: the preference lists and tables of the class
  \<^verbatim>\<open>Transport\<close>, \<^verbatim>\<open>_filter_algorithm\<close> with the properties built on it, \<^verbatim>\<open>use_compression\<close>, and
  the class \<^verbatim>\<open>SecurityOptions\<close>, through which an application changes the lists. The classes
  named in the tables are datatypes; a dict is an association list. The record \<open>security\<close>
  holds the attributes that these operations use; \<open>transport\<close> extends it.
\<close>

section \<open>Classes that the tables name\<close>

datatype hash_class = SHA1 | SHA256 | SHA384 | SHA512 | MD5

text \<open>\<^verbatim>\<open>digest_size\<close> of \<^verbatim>\<open>hashlib\<close>.\<close>

fun digest_size :: "hash_class \<Rightarrow> int" where
  "digest_size SHA1 = 20" | "digest_size SHA256 = 32" | "digest_size SHA384 = 48"
| "digest_size SHA512 = 64" | "digest_size MD5 = 16"

datatype cipher_class = AES | TripleDES | AESGCM

datatype cipher_mode = CTR | CBC

datatype key_class = RSAKey | DSSKey | ECDSAKey | Ed25519Key

datatype kex_class =
    KexGroup1 | KexGroup14 | KexGex | KexGexSHA256 | KexGroup14SHA256 | KexGroup16SHA512
  | KexGSSGroup1 | KexGSSGroup14 | KexGSSGex | KexNistp256 | KexNistp384 | KexNistp521 | KexCurve25519

record cipher_info =
  ci_class :: cipher_class
  ci_mode :: "cipher_mode option"
  ci_block_size :: int
  ci_iv_size :: "int option"
  ci_key_size :: int
  ci_is_aead :: bool

section \<open>Tables\<close>

definition block_cipher :: "cipher_class \<Rightarrow> cipher_mode \<Rightarrow> int \<Rightarrow> int \<Rightarrow> cipher_info" where
  "block_cipher c m bs ks =
     \<lparr>ci_class = c, ci_mode = Some m, ci_block_size = bs, ci_iv_size = None, ci_key_size = ks, ci_is_aead = False\<rparr>"

definition gcm_cipher :: "int \<Rightarrow> cipher_info" where
  "gcm_cipher ks =
     \<lparr>ci_class = AESGCM, ci_mode = None, ci_block_size = 16, ci_iv_size = Some 12, ci_key_size = ks, ci_is_aead = True\<rparr>"

definition cipher_table :: "(pystr \<times> cipher_info) list" where
  "cipher_table =
     [(lit ''aes128-ctr'', block_cipher AES CTR 16 16),
      (lit ''aes192-ctr'', block_cipher AES CTR 16 24),
      (lit ''aes256-ctr'', block_cipher AES CTR 16 32),
      (lit ''aes128-cbc'', block_cipher AES CBC 16 16),
      (lit ''aes192-cbc'', block_cipher AES CBC 16 24),
      (lit ''aes256-cbc'', block_cipher AES CBC 16 32),
      (lit ''3des-cbc'', block_cipher TripleDES CBC 8 24),
      (lit ''aes128-gcm@openssh.com'', gcm_cipher 16),
      (lit ''aes256-gcm@openssh.com'', gcm_cipher 32)]"

definition mac_table :: "(pystr \<times> hash_class \<times> int) list" where
  "mac_table =
     [(lit ''hmac-sha1'', SHA1, 20),
      (lit ''hmac-sha1-96'', SHA1, 12),
      (lit ''hmac-sha2-256'', SHA256, 32),
      (lit ''hmac-sha2-256-etm@openssh.com'', SHA256, 32),
      (lit ''hmac-sha2-512'', SHA512, 64),
      (lit ''hmac-sha2-512-etm@openssh.com'', SHA512, 64),
      (lit ''hmac-md5'', MD5, 16),
      (lit ''hmac-md5-96'', MD5, 12)]"

definition key_table :: "(pystr \<times> key_class) list" where
  "key_table =
     [(lit ''ssh-rsa'', RSAKey),
      (lit ''ssh-rsa-cert-v01@openssh.com'', RSAKey),
      (lit ''rsa-sha2-256'', RSAKey),
      (lit ''rsa-sha2-256-cert-v01@openssh.com'', RSAKey),
      (lit ''rsa-sha2-512'', RSAKey),
      (lit ''rsa-sha2-512-cert-v01@openssh.com'', RSAKey),
      (lit ''ssh-dss'', DSSKey),
      (lit ''ssh-dss-cert-v01@openssh.com'', DSSKey),
      (lit ''ecdsa-sha2-nistp256'', ECDSAKey),
      (lit ''ecdsa-sha2-nistp256-cert-v01@openssh.com'', ECDSAKey),
      (lit ''ecdsa-sha2-nistp384'', ECDSAKey),
      (lit ''ecdsa-sha2-nistp384-cert-v01@openssh.com'', ECDSAKey),
      (lit ''ecdsa-sha2-nistp521'', ECDSAKey),
      (lit ''ecdsa-sha2-nistp521-cert-v01@openssh.com'', ECDSAKey),
      (lit ''ssh-ed25519'', Ed25519Key),
      (lit ''ssh-ed25519-cert-v01@openssh.com'', Ed25519Key)]"

text \<open>\<open>curve25519\<close> is what \<^verbatim>\<open>KexCurve25519.is_available()\<close> returned when the module was
  loaded.\<close>

definition kex_table :: "bool \<Rightarrow> (pystr \<times> kex_class) list" where
  "kex_table curve25519 =
     [(lit ''diffie-hellman-group1-sha1'', KexGroup1),
      (lit ''diffie-hellman-group14-sha1'', KexGroup14),
      (lit ''diffie-hellman-group-exchange-sha1'', KexGex),
      (lit ''diffie-hellman-group-exchange-sha256'', KexGexSHA256),
      (lit ''diffie-hellman-group14-sha256'', KexGroup14SHA256),
      (lit ''diffie-hellman-group16-sha512'', KexGroup16SHA512),
      (lit ''gss-group1-sha1-toWM5Slw5Ew8Mqkay+al2g=='', KexGSSGroup1),
      (lit ''gss-group14-sha1-toWM5Slw5Ew8Mqkay+al2g=='', KexGSSGroup14),
      (lit ''gss-gex-sha1-toWM5Slw5Ew8Mqkay+al2g=='', KexGSSGex),
      (lit ''ecdh-sha2-nistp256'', KexNistp256),
      (lit ''ecdh-sha2-nistp384'', KexNistp384),
      (lit ''ecdh-sha2-nistp521'', KexNistp521)] @
     (if curve25519 then [(lit ''curve25519-sha256@libssh.org'', KexCurve25519)] else [])"

text \<open>\<^verbatim>\<open>_compression_info\<close>: whether there are compressor classes or \<^verbatim>\<open>(None, None)\<close>.\<close>

definition compression_table :: "(pystr \<times> bool) list" where
  "compression_table =
     [(lit ''zlib@openssh.com'', True), (lit ''zlib'', True), (lit ''none'', False)]"

text \<open>The attribute \<^verbatim>\<open>hash_algo\<close> of the key exchange classes; the GSS ones have none.\<close>

fun hash_algo :: "kex_class \<Rightarrow> hash_class option" where
  "hash_algo KexGroup1 = Some SHA1" | "hash_algo KexGroup14 = Some SHA1"
| "hash_algo KexGex = Some SHA1" | "hash_algo KexGexSHA256 = Some SHA256"
| "hash_algo KexGroup14SHA256 = Some SHA256" | "hash_algo KexGroup16SHA512 = Some SHA512"
| "hash_algo KexGSSGroup1 = None" | "hash_algo KexGSSGroup14 = None" | "hash_algo KexGSSGex = None"
| "hash_algo KexNistp256 = Some SHA256" | "hash_algo KexNistp384 = Some SHA384"
| "hash_algo KexNistp521 = Some SHA512" | "hash_algo KexCurve25519 = Some SHA256"

section \<open>Preferences\<close>

text \<open>\<open>pref_ciphers\<close> is the attribute \<^verbatim>\<open>_preferred_ciphers\<close>, and so on; \<open>disabled_algorithms\<close>
  maps the type of algorithm to the disabled names.\<close>

record security =
  pref_ciphers :: "pystr list"
  pref_macs :: "pystr list"
  pref_keys :: "pystr list"
  pref_pubkeys :: "pystr list"
  pref_kex :: "pystr list"
  pref_compression :: "pystr list"
  disabled_algorithms :: "(pystr \<times> pystr list) list"
  has_curve25519 :: bool

definition default_ciphers :: "pystr list" where
  "default_ciphers = map lit
     [''aes128-ctr'', ''aes192-ctr'', ''aes256-ctr'', ''aes128-cbc'', ''aes192-cbc'', ''aes256-cbc'', ''3des-cbc'',
      ''aes128-gcm@openssh.com'', ''aes256-gcm@openssh.com'']"

definition default_macs :: "pystr list" where
  "default_macs = map lit
     [''hmac-sha2-256'', ''hmac-sha2-512'', ''hmac-sha2-256-etm@openssh.com'', ''hmac-sha2-512-etm@openssh.com'',
      ''hmac-sha1'', ''hmac-md5'', ''hmac-sha1-96'', ''hmac-md5-96'']"

definition default_keys :: "pystr list" where
  "default_keys = map lit
     [''ssh-ed25519'', ''ecdsa-sha2-nistp256'', ''ecdsa-sha2-nistp384'', ''ecdsa-sha2-nistp521'',
      ''rsa-sha2-512'', ''rsa-sha2-256'', ''ssh-rsa'', ''ssh-dss'']"

definition default_pubkeys :: "pystr list" where
  "default_pubkeys = map lit
     [''ssh-ed25519'', ''ecdsa-sha2-nistp256'', ''ecdsa-sha2-nistp384'', ''ecdsa-sha2-nistp521'',
      ''rsa-sha2-512'', ''rsa-sha2-256'', ''ssh-rsa'', ''ssh-dss'']"

definition default_kex :: "bool \<Rightarrow> pystr list" where
  "default_kex curve25519 =
     (if curve25519 then [lit ''curve25519-sha256@libssh.org''] else []) @ map lit
     [''ecdh-sha2-nistp256'', ''ecdh-sha2-nistp384'', ''ecdh-sha2-nistp521'', ''diffie-hellman-group16-sha512'',
      ''diffie-hellman-group-exchange-sha256'', ''diffie-hellman-group14-sha256'',
      ''diffie-hellman-group-exchange-sha1'', ''diffie-hellman-group14-sha1'', ''diffie-hellman-group1-sha1'']"

definition default_gsskex :: "pystr list" where
  "default_gsskex = map lit
     [''gss-gex-sha1-toWM5Slw5Ew8Mqkay+al2g=='', ''gss-group14-sha1-toWM5Slw5Ew8Mqkay+al2g=='',
      ''gss-group1-sha1-toWM5Slw5Ew8Mqkay+al2g=='']"

definition default_compression :: "pystr list" where
  "default_compression = [lit ''none'']"

text \<open>The preferences that \<^verbatim>\<open>__init__\<close> leaves; \<open>disabled\<close> and \<open>gss_kex\<close> are its arguments.\<close>

definition Security_init :: "bool \<Rightarrow> (pystr \<times> pystr list) list \<Rightarrow> bool \<Rightarrow> security" where
  "Security_init curve25519 disabled gss_kex =
     \<lparr>pref_ciphers = default_ciphers, pref_macs = default_macs, pref_keys = default_keys,
      pref_pubkeys = default_pubkeys,
      pref_kex = (if gss_kex then default_gsskex else []) @ default_kex curve25519,
      pref_compression = default_compression, disabled_algorithms = disabled, has_curve25519 = curve25519\<rparr>"

definition filter_algorithm :: "pystr \<Rightarrow> pystr list \<Rightarrow> 'z security_scheme \<Rightarrow> pystr list" where
  "filter_algorithm type defaults s =
     filter (\<lambda>x. x \<notin> set (case map_of (disabled_algorithms s) type of None \<Rightarrow> [] | Some l \<Rightarrow> l)) defaults"

definition preferred_ciphers :: "'z security_scheme \<Rightarrow> pystr list" where
  "preferred_ciphers s = filter_algorithm (lit ''ciphers'') (pref_ciphers s) s"

definition preferred_macs :: "'z security_scheme \<Rightarrow> pystr list" where
  "preferred_macs s = filter_algorithm (lit ''macs'') (pref_macs s) s"

definition cert_variant :: "pystr \<Rightarrow> pystr" where
  "cert_variant x = x @ lit ''-cert-v01@openssh.com''"

definition preferred_keys :: "'z security_scheme \<Rightarrow> pystr list" where
  "preferred_keys s =
     (let filtered = filter_algorithm (lit ''keys'') (pref_keys s) s
      in filtered @ map cert_variant filtered)"

definition preferred_pubkeys :: "'z security_scheme \<Rightarrow> pystr list" where
  "preferred_pubkeys s = filter_algorithm (lit ''pubkeys'') (pref_pubkeys s) s"

definition preferred_kex :: "'z security_scheme \<Rightarrow> pystr list" where
  "preferred_kex s = filter_algorithm (lit ''kex'') (pref_kex s) s"

definition preferred_compression :: "'z security_scheme \<Rightarrow> pystr list" where
  "preferred_compression s = filter_algorithm (lit ''compression'') (pref_compression s) s"

definition use_compression :: "bool \<Rightarrow> 'z security_scheme \<Rightarrow> 'z security_scheme" where
  "use_compression compress s =
     s\<lparr>pref_compression := (if compress then [lit ''zlib@openssh.com'', lit ''zlib'', lit ''none'']
                            else [lit ''none''])\<rparr>"

section \<open>SecurityOptions\<close>

text \<open>\<^verbatim>\<open>_set\<close>: the value given is a tuple or a list of names, or (\<open>None\<close>) something else;
  \<open>possible\<close> are the keys of the table.\<close>

definition security_set ::
  "pystr list \<Rightarrow> (pystr list \<Rightarrow> 's \<Rightarrow> 's) \<Rightarrow> pystr list option \<Rightarrow> ('s, unit) py" where
  "security_set possible setter x =
     (case x of
        None \<Rightarrow> praise TypeError
      | Some x \<Rightarrow>
          (let forbidden = filter (\<lambda>n. n \<notin> set possible) x
           in if length forbidden > 0 then praise ValueError else pmodify (setter x)))"

definition set_ciphers :: "pystr list option \<Rightarrow> ('z security_scheme, unit) py" where
  "set_ciphers = security_set (map fst cipher_table) (\<lambda>x s. s\<lparr>pref_ciphers := x\<rparr>)"

definition set_digests :: "pystr list option \<Rightarrow> ('z security_scheme, unit) py" where
  "set_digests = security_set (map fst mac_table) (\<lambda>x s. s\<lparr>pref_macs := x\<rparr>)"

definition set_key_types :: "pystr list option \<Rightarrow> ('z security_scheme, unit) py" where
  "set_key_types = security_set (map fst key_table) (\<lambda>x s. s\<lparr>pref_keys := x\<rparr>)"

definition set_kex :: "pystr list option \<Rightarrow> ('z security_scheme, unit) py" where
  "set_kex x s = security_set (map fst (kex_table (has_curve25519 s))) (\<lambda>x s. s\<lparr>pref_kex := x\<rparr>) x s"

definition set_compression :: "pystr list option \<Rightarrow> ('z security_scheme, unit) py" where
  "set_compression = security_set (map fst compression_table) (\<lambda>x s. s\<lparr>pref_compression := x\<rparr>)"

text \<open>What an application may do to the lists.\<close>

datatype config_op =
    SetCiphers "pystr list option" | SetDigests "pystr list option" | SetKeyTypes "pystr list option"
  | SetKex "pystr list option" | SetCompression "pystr list option" | UseCompression bool

fun config_step :: "config_op \<Rightarrow> ('z security_scheme, unit) py" where
  "config_step (SetCiphers x) = set_ciphers x"
| "config_step (SetDigests x) = set_digests x"
| "config_step (SetKeyTypes x) = set_key_types x"
| "config_step (SetKex x) = set_kex x"
| "config_step (SetCompression x) = set_compression x"
| "config_step (UseCompression b) = pmodify (use_compression b)"

fun config_run :: "config_op list \<Rightarrow> 'z security_scheme \<Rightarrow> 'z security_scheme" where
  "config_run [] s = s"
| "config_run (op # ops) s = config_run ops (snd (config_step op s))"

section \<open>Every listed algorithm is known\<close>

definition known_security :: "'z security_scheme \<Rightarrow> bool" where
  "known_security s \<longleftrightarrow>
     set (pref_ciphers s) \<subseteq> fst ` set cipher_table \<and>
     set (pref_macs s) \<subseteq> fst ` set mac_table \<and>
     set (pref_keys s) \<subseteq> fst ` set key_table \<and>
     set (pref_kex s) \<subseteq> fst ` set (kex_table (has_curve25519 s)) \<and>
     set (pref_compression s) \<subseteq> fst ` set compression_table"

lemma known_security_init: "known_security (Security_init curve disabled gss_kex)"
  by (cases curve; cases gss_kex)
    (simp_all add: known_security_def Security_init_def default_ciphers_def default_macs_def
      default_keys_def default_kex_def default_gsskex_def default_compression_def
      cipher_table_def mac_table_def key_table_def kex_table_def compression_table_def)

lemma keeps_security_set:
  assumes "\<And>x s. P s \<Longrightarrow> set x \<subseteq> set possible \<Longrightarrow> P (setter x s)"
  shows "keeps P (security_set possible setter x) (\<lambda>_. True)"
proof -
  have "filter (\<lambda>n. n \<notin> set possible) l = [] \<longleftrightarrow> set l \<subseteq> set possible" for l
    by (auto simp: filter_empty_conv)
  with assms show ?thesis
    by (cases x) (auto simp: security_set_def Let_def intro!: keeps_praise keeps_pmodify)
qed

lemma keeps_known_setters:
  "keeps known_security (set_ciphers x) (\<lambda>_. True)" "keeps known_security (set_digests x) (\<lambda>_. True)"
  "keeps known_security (set_key_types x) (\<lambda>_. True)" "keeps known_security (set_compression x) (\<lambda>_. True)"
  unfolding set_ciphers_def set_digests_def set_key_types_def set_compression_def
  by (rule keeps_security_set, simp add: known_security_def)+

lemma keeps_known_set_kex: "known_security s \<Longrightarrow> known_security (snd (set_kex x s))"
proof -
  assume known: "known_security s"
  have "keeps (\<lambda>t. known_security t \<and> has_curve25519 t = has_curve25519 s)
          (security_set (map fst (kex_table (has_curve25519 s))) (\<lambda>x s. s\<lparr>pref_kex := x\<rparr>) x) (\<lambda>_. True)"
    by (rule keeps_security_set) (simp add: known_security_def)
  from keepsD [OF this, of s] known show ?thesis by (simp add: set_kex_def)
qed

lemma known_use_compression: "known_security s \<Longrightarrow> known_security (use_compression b s)"
  by (simp add: use_compression_def known_security_def compression_table_def)

lemma known_security_step: "known_security s \<Longrightarrow> known_security (snd (config_step op s))"
  by (cases op)
    (simp_all add: keeps_known_setters [THEN keepsD] keeps_known_set_kex known_use_compression pmodify_def)

lemma known_security_run: "known_security s \<Longrightarrow> known_security (config_run ops s)"
  by (induction ops arbitrary: s) (simp_all add: known_security_step)

lemma set_filter_algorithm: "set (filter_algorithm type l s) \<subseteq> set l"
  by (auto simp: filter_algorithm_def)

lemma config_disabled: "disabled_algorithms (snd (config_step op s)) = disabled_algorithms s"
  by (cases op)
    (auto simp: set_ciphers_def set_digests_def set_key_types_def set_kex_def set_compression_def
      security_set_def praise_def pmodify_def use_compression_def Let_def split: option.splits)

lemma config_run_disabled: "disabled_algorithms (config_run ops s) = disabled_algorithms s"
  by (induction ops arbitrary: s) (simp_all add: config_disabled)

lemma preferred_known:
  assumes "known_security s"
  shows "set (preferred_ciphers s) \<subseteq> fst ` set cipher_table"
    and "set (preferred_macs s) \<subseteq> fst ` set mac_table"
    and "set (preferred_kex s) \<subseteq> fst ` set (kex_table (has_curve25519 s))"
    and "set (preferred_compression s) \<subseteq> fst ` set compression_table"
  using assms set_filter_algorithm
  unfolding known_security_def preferred_ciphers_def preferred_macs_def preferred_kex_def preferred_compression_def
  by (meson order_trans)+



text \<open>Disabling a certificate type on its own has no effect: \<^verbatim>\<open>preferred_keys\<close> derives the
  certificate types from the plain ones that are left, without looking them up in
  \<^verbatim>\<open>disabled_algorithms\<close>.\<close>

theorem disabled_certificate_offered:
  assumes "x \<in> set (pref_keys s)" "map_of (disabled_algorithms s) (lit ''keys'') = Some [cert_variant x]"
  shows "cert_variant x \<in> set (preferred_keys s)"
proof -
  have "x \<noteq> cert_variant x" by (simp add: cert_variant_def lit_def)
  with assms show ?thesis by (auto simp: preferred_keys_def filter_algorithm_def Let_def)
qed

theorem disabled_certificate_offered_witness:
  "lit ''ssh-rsa-cert-v01@openssh.com'' \<in> set (preferred_keys
     (Security_init True [(lit ''keys'', [lit ''ssh-rsa-cert-v01@openssh.com''])] False))"
proof -
  have "cert_variant (lit ''ssh-rsa'') = lit ''ssh-rsa-cert-v01@openssh.com''"
    by (simp add: cert_variant_def lit_def)
  then show ?thesis
    using disabled_certificate_offered [of "lit ''ssh-rsa''"
        "Security_init True [(lit ''keys'', [lit ''ssh-rsa-cert-v01@openssh.com''])] False"]
    by (simp add: Security_init_def default_keys_def)
qed

end
