(* ===== verification/Transport_Kexinit.thy ===== *)
theory Transport_Kexinit
  imports Transport_Algorithms Packetizer
begin

text \<open>
  The negotiation of algorithms in \<^verbatim>\<open>paramiko/transport.py\<close>: \<^verbatim>\<open>_send_kex_init\<close>,
  \<^verbatim>\<open>_really_parse_kex_init\<close> and \<^verbatim>\<open>_parse_kex_init\<close>, with the server's host keys. The record
  \<open>kexing\<close> extends \<open>security\<close> with the attributes of a transport that key exchange uses, the
  packetizer among them. What lies outside the repository is the record \<open>lib\<close>: the packetizer's
  cryptography, the hash functions, the constructors of ciphers and compressors.
\<close>

section \<open>State\<close>

text \<open>A key: its class, \<^verbatim>\<open>get_name()\<close>, \<^verbatim>\<open>asbytes()\<close> and \<^verbatim>\<open>public_blob\<close>, the type and the bytes of its
  certificate.\<close>

record host_key =
  hk_class :: key_class
  hk_name :: pystr
  hk_blob :: bytes
  hk_public_blob :: "(pystr \<times> bytes) option"

text \<open>\<open>new_engine cls mode encrypt key iv\<close> and \<open>new_aead cls key\<close> are the results of the calls of the
  \<^verbatim>\<open>cryptography\<close> package in \<^verbatim>\<open>_get_engine\<close>; \<open>load_key\<close>, \<open>verify_ssh_sig\<close> and \<open>sign_ssh_data\<close> are the
  constructor and the methods of the key classes, which are not modelled.\<close>

record ('e, 'z) lib =
  crypto_of :: "('e, 'z, hash_class) crypto"
  digest :: "hash_class \<Rightarrow> bytes \<Rightarrow> bytes"
  new_engine :: "cipher_class \<Rightarrow> cipher_mode \<Rightarrow> bool \<Rightarrow> bytes \<Rightarrow> bytes \<Rightarrow> py_error + 'e"
  new_aead :: "cipher_class \<Rightarrow> bytes \<Rightarrow> py_error + 'e"
  zlib_compressor :: 'z
  zlib_decompressor :: 'z
  load_key :: "key_class \<Rightarrow> bytes \<Rightarrow> py_error + host_key"
  verify_ssh_sig :: "host_key \<Rightarrow> bytes \<Rightarrow> bytes \<Rightarrow> py_error + bool"
  sign_ssh_data :: "host_key \<Rightarrow> bytes \<Rightarrow> pystr \<Rightarrow> py_error + bytes"

text \<open>The attributes of \<^verbatim>\<open>KexGex\<close>, as a class and after \<^verbatim>\<open>__init__\<close>.\<close>

record gex_state =
  gex_p :: "int option"
  gex_g :: "int option"
  gex_x :: "int option"
  gex_e :: "int option"
  gex_f :: "int option"
  old_style :: bool
  min_bits :: int
  max_bits :: int
  preferred_bits :: int

definition KexGex_init :: gex_state where
  "KexGex_init = \<lparr>gex_p = None, gex_g = None, gex_x = None, gex_e = None, gex_f = None, old_style = False,
     min_bits = 1024, max_bits = 8192, preferred_bits = 2048\<rparr>"

text \<open>\<open>kex_engine\<close> is the class of the engine, \<open>kex_x\<close>, \<open>kex_e\<close> and \<open>kex_f\<close> its attributes \<^verbatim>\<open>x\<close>, \<^verbatim>\<open>e\<close> and
  \<^verbatim>\<open>f\<close>, \<open>kex_gex\<close> those of an engine for group exchange; \<open>peer_host_key\<close> is \<^verbatim>\<open>host_key\<close>; \<open>has_modulus_pack\<close> is \<^verbatim>\<open>_modulus_pack is not
  None\<close>; \<open>t_K\<close> and \<open>t_H\<close> are the attributes \<^verbatim>\<open>K\<close> and \<^verbatim>\<open>H\<close>.\<close>

record ('e, 'z) kexing = security +
  pktz :: "('e, 'z, hash_class) packetizer"
  server_mode :: bool
  advertise_strict_kex :: bool
  agreed_on_strict_kex :: bool
  local_version :: pystr
  remote_version :: pystr
  local_cipher :: pystr
  remote_cipher :: pystr
  local_mac :: "pystr option"
  remote_mac :: "pystr option"
  local_compression :: "pystr option"
  remote_compression :: "pystr option"
  local_kex_init :: "bytes option"
  remote_kex_init :: "bytes option"
  latest_kex_init :: "bytes option"
  session_id :: "bytes option"
  host_key_type :: "pystr option"
  server_key_dict :: "(pystr \<times> host_key) list"
  has_modulus_pack :: bool
  server_sig_algs :: bool
  remote_ext_info :: "pystr option"
  gss_kex_used :: bool
  kex_engine :: "kex_class option"
  t_H :: "bytes option"
  t_K :: "int option"
  initial_kex_done :: bool
  in_kex :: bool
  authenticated :: bool
  expected_packet :: "byte list"
  clear_to_send :: bool
  peer_host_key :: "host_key option"
  kex_x :: int
  kex_e :: int
  kex_f :: int
  kex_gex :: gex_state

text \<open>These attributes as \<^verbatim>\<open>__init__\<close> leaves them: the preferences, the packetizer on the socket, the
  version string of this end, the arguments \<^verbatim>\<open>strict_kex\<close> and \<^verbatim>\<open>server_sig_algs\<close>, and whether a pack
  of primes was loaded for the class.\<close>

definition Kexing_init ::
  "security \<Rightarrow> ('e, 'z, hash_class) packetizer \<Rightarrow> pystr \<Rightarrow> bool \<Rightarrow> bool \<Rightarrow> bool \<Rightarrow> ('e, 'z) kexing" where
  "Kexing_init sec p version strict sig_algs pack =
     security.extend sec
       (kexing.fields p False strict False version [] [] [] None None None None None None None None None []
          pack sig_algs None False None None None False False False [] False None 0 0 0 KexGex_init)"

text \<open>\<^verbatim>\<open>_send_message\<close>; \<open>rnd\<close> gives the random padding.\<close>

definition on_pktz ::
  "(('e, 'z, hash_class) packetizer, 'a) bpy \<Rightarrow> (('e, 'z, 'y) kexing_scheme, 'a) bpy" where
  "on_pktz m s = (case m (pktz s) of (r, p) \<Rightarrow> (r, s\<lparr>pktz := p\<rparr>))"

definition t_send_message ::
  "('e, 'z) lib \<Rightarrow> (nat \<Rightarrow> bytes) \<Rightarrow> bytes \<Rightarrow> (('e, 'z, 'y) kexing_scheme, unit) bpy" where
  "t_send_message l rnd data = on_pktz (send_message (crypto_of l) rnd data)"

definition expect_packet :: "byte list \<Rightarrow> ('e, 'z, 'y) kexing_scheme \<Rightarrow> ('e, 'z, 'y) kexing_scheme" where
  "expect_packet ptypes s = s\<lparr>expected_packet := ptypes\<rparr>"

section \<open>Server keys\<close>

text \<open>A dict: a new value takes the place of the old one.\<close>

definition dict_set :: "'a \<Rightarrow> 'b \<Rightarrow> ('a \<times> 'b) list \<Rightarrow> ('a \<times> 'b) list" where
  "dict_set k v d = (if k \<in> fst ` set d then map (\<lambda>(k', v'). if k' = k then (k', v) else (k', v')) d else d @ [(k, v)])"

definition add_server_key :: "host_key \<Rightarrow> ('e, 'z, 'y) kexing_scheme \<Rightarrow> ('e, 'z, 'y) kexing_scheme" where
  "add_server_key key s =
     (let d = dict_set (hk_name key) key (server_key_dict s)
      in s\<lparr>server_key_dict :=
           (if hk_class key = RSAKey
            then dict_set (lit ''rsa-sha2-512'') key (dict_set (lit ''rsa-sha2-256'') key d) else d)\<rparr>)"

definition get_server_key :: "('e, 'z, 'y) kexing_scheme \<Rightarrow> host_key option" where
  "get_server_key s = (case host_key_type s of None \<Rightarrow> None | Some n \<Rightarrow> map_of (server_key_dict s) n)"

definition available_server_keys :: "('e, 'z, 'y) kexing_scheme \<Rightarrow> pystr list" where
  "available_server_keys s = filter (\<lambda>x. x \<in> fst ` set (server_key_dict s)) (preferred_keys s)"

section \<open>Sending KEXINIT\<close>

definition startswith :: "pystr \<Rightarrow> pystr \<Rightarrow> bool" where
  "startswith s p \<longleftrightarrow> take (length p) s = p"

definition strict_marker :: "bool \<Rightarrow> pystr" where
  "strict_marker server = (if server then lit ''kex-strict-s-v00@openssh.com'' else lit ''kex-strict-c-v00@openssh.com'')"

definition mp_required :: "pystr \<Rightarrow> bool" where
  "mp_required k \<longleftrightarrow> startswith k (lit ''diffie-hellman-group-exchange-sha'')"

text \<open>A server without a pack of primes takes group exchange out of its list.\<close>

definition drop_group_exchange :: "pystr list \<Rightarrow> (('e, 'z, 'y) kexing_scheme, unit) py" where
  "drop_group_exchange kex_algos s =
     (let kex_mp = filter mp_required kex_algos in
      if \<not> has_modulus_pack s \<and> length kex_mp > 0
      then set_kex (Some (filter (\<lambda>k. \<not> mp_required k) (pref_kex s))) s
      else pret () s)"

definition kexinit_fields ::
  "bytes \<Rightarrow> pystr list \<Rightarrow> pystr list \<Rightarrow> ('e, 'z, 'y) kexing_scheme \<Rightarrow> field list" where
  "kexinit_fields cookie kex_algos keys s =
     [FRaw [MSG_KEXINIT], FRaw cookie, FList kex_algos, FList keys,
      FList (preferred_ciphers s), FList (preferred_ciphers s),
      FList (preferred_macs s), FList (preferred_macs s),
      FList (preferred_compression s), FList (preferred_compression s),
      FString [], FString [], FBool False, FInt 0]"

text \<open>\<^verbatim>\<open>_send_kex_init\<close> up to the message; \<open>cookie\<close> are the 16 random bytes.\<close>

definition make_kex_init :: "bytes \<Rightarrow> (('e, 'z, 'y) kexing_scheme, bytes) py" where
  "make_kex_init cookie =
     pbind (pmodify (\<lambda>s. s\<lparr>clear_to_send := False, gss_kex_used := False, in_kex := True\<rparr>)) (\<lambda>_.
     pbind (pget preferred_kex) (\<lambda>kex_algos.
     pbind (pget server_mode) (\<lambda>server.
     pbind (if server then pbind (drop_group_exchange kex_algos) (\<lambda>_. pget available_server_keys)
            else pget preferred_keys) (\<lambda>keys.
     pbind (pget advertise_strict_kex) (\<lambda>strict.
     let kex_algos = kex_algos @ (if server then [] else [lit ''ext-info-c''])
                     @ (if strict then [strict_marker server] else []) in
     pbind (\<lambda>s. plift (message_of (kexinit_fields cookie kex_algos keys s)) s) (\<lambda>m.
     pbind (pmodify (\<lambda>s. s\<lparr>local_kex_init := Some m, latest_kex_init := Some m\<rparr>)) (\<lambda>_.
     pret m)))))))"

definition send_kex_init ::
  "('e, 'z) lib \<Rightarrow> (nat \<Rightarrow> bytes) \<Rightarrow> bytes \<Rightarrow> (('e, 'z, 'y) kexing_scheme, unit) bpy" where
  "send_kex_init l rnd cookie = bbind (nb (make_kex_init cookie)) (t_send_message l rnd)"

section \<open>Parsing KEXINIT\<close>

record parsed_kexinit =
  kex_algo_list :: "pystr list"
  server_key_algo_list :: "pystr list"
  client_encrypt_algo_list :: "pystr list"
  server_encrypt_algo_list :: "pystr list"
  client_mac_algo_list :: "pystr list"
  server_mac_algo_list :: "pystr list"
  client_compress_algo_list :: "pystr list"
  server_compress_algo_list :: "pystr list"
  client_lang_list :: "pystr list"
  server_lang_list :: "pystr list"
  kex_follows :: bool

definition really_parse_kex_init :: "bool \<Rightarrow> (message, parsed_kexinit) py" where
  "really_parse_kex_init ignore_first_byte =
     pbind (if ignore_first_byte then pbind get_byte (\<lambda>_. pret ()) else pret ()) (\<lambda>_.
     pbind (get_bytes 16) (\<lambda>cookie.
     pbind get_list (\<lambda>kex. pbind get_list (\<lambda>key.
     pbind get_list (\<lambda>cenc. pbind get_list (\<lambda>senc.
     pbind get_list (\<lambda>cmac. pbind get_list (\<lambda>smac.
     pbind get_list (\<lambda>ccmp. pbind get_list (\<lambda>scmp.
     pbind get_list (\<lambda>clang. pbind get_list (\<lambda>slang.
     pbind get_boolean (\<lambda>follows.
     pbind get_int (\<lambda>unused.
     pret \<lparr>kex_algo_list = kex, server_key_algo_list = key,
           client_encrypt_algo_list = cenc, server_encrypt_algo_list = senc,
           client_mac_algo_list = cmac, server_mac_algo_list = smac,
           client_compress_algo_list = ccmp, server_compress_algo_list = scmp,
           client_lang_list = clang, server_lang_list = slang, kex_follows = follows\<rparr>))))))))))))))"

definition get_latest_kex_init :: "(('e, 'z, 'y) kexing_scheme, parsed_kexinit) py" where
  "get_latest_kex_init s =
     (case latest_kex_init s of
        None \<Rightarrow> (Inl OtherException, s)
      | Some b \<Rightarrow> pbind (on_message (really_parse_kex_init True) (Message_init (Some b))) (\<lambda>(p, m). pret p) s)"

text \<open>The entries of the list of key exchange algorithms that are not algorithms.\<close>

definition is_marker :: "pystr \<Rightarrow> bool" where
  "is_marker algo \<longleftrightarrow> startswith algo (lit ''ext-info-'') \<or> startswith algo (lit ''kex-strict-'')"

definition note_marker :: "pystr \<Rightarrow> ('e, 'z, 'y) kexing_scheme \<Rightarrow> ('e, 'z, 'y) kexing_scheme" where
  "note_marker algo s =
     (if startswith algo (lit ''ext-info-'') then s\<lparr>remote_ext_info := Some algo\<rparr>
      else if startswith algo (lit ''kex-strict-'') then
        s\<lparr>agreed_on_strict_kex := (algo = strict_marker (\<not> server_mode s) \<and> advertise_strict_kex s)\<rparr>
      else s)"

text \<open>A server picks the first item of the client's list that it supports, a client the first of
  its own list that the server supports.\<close>

definition agree :: "bool \<Rightarrow> pystr list \<Rightarrow> pystr list \<Rightarrow> pystr list" where
  "agree server preferred offered =
     (if server then filter (\<lambda>x. x \<in> set preferred) offered else filter (\<lambda>x. x \<in> set offered) preferred)"

definition check_kex_order :: "int \<Rightarrow> (('e, 'z, 'y) kexing_scheme, unit) py" where
  "check_kex_order seqno s =
     (if agreed_on_strict_kex s \<and> \<not> initial_kex_done s \<and> seqno \<noteq> 0
      then (Inl (MessageOrderError ''In strict-kex mode, but KEXINIT was not the first packet!''), s)
      else (Inr (), s))"

definition agree_on_kex :: "pystr list \<Rightarrow> (('e, 'z, 'y) kexing_scheme, unit) py" where
  "agree_on_kex offered s =
     (case agree (server_mode s) (preferred_kex s) offered of
        [] \<Rightarrow> (Inl (IncompatiblePeer ''Incompatible ssh peer (no acceptable kex algorithm)''), s)
      | a # _ \<Rightarrow>
          (case map_of (kex_table (has_curve25519 s)) a of
             None \<Rightarrow> (Inl KeyError, s)
           | Some k \<Rightarrow> (Inr (), s\<lparr>kex_engine := Some k, kex_x := 0, kex_e := 0, kex_f := 0, kex_gex := KexGex_init\<rparr>)))"

definition agree_on_host_key :: "pystr list \<Rightarrow> (('e, 'z, 'y) kexing_scheme, unit) py" where
  "agree_on_host_key offered s =
     (case agree (server_mode s) (if server_mode s then available_server_keys s else preferred_keys s) offered of
        [] \<Rightarrow> (Inl (IncompatiblePeer ''Incompatible ssh peer (no acceptable host key)''), s)
      | a # _ \<Rightarrow>
          (let s = s\<lparr>host_key_type := Some a\<rparr>
           in if server_mode s \<and> get_server_key s = None
              then (Inl (IncompatiblePeer ''Incompatible ssh peer (can't match requested host key type)''), s)
              else (Inr (), s)))"

text \<open>The agreement on a pair of algorithms, one for each direction; \<open>client\<close> and \<open>server\<close> are the
  lists that the peer sent for the data of the client and of the server.\<close>

definition agree_on_pair ::
  "string \<Rightarrow> (('e, 'z, 'y) kexing_scheme \<Rightarrow> pystr list) \<Rightarrow> pystr list \<Rightarrow> pystr list
   \<Rightarrow> (pystr \<Rightarrow> pystr \<Rightarrow> ('e, 'z, 'y) kexing_scheme \<Rightarrow> ('e, 'z, 'y) kexing_scheme)
   \<Rightarrow> (('e, 'z, 'y) kexing_scheme, unit) py" where
  "agree_on_pair what preferred client server setter s =
     (let sm = server_mode s;
          locals = agree sm (preferred s) (if sm then server else client);
          remotes = agree sm (preferred s) (if sm then client else server)
      in case (locals, remotes) of
           (a # _, b # _) \<Rightarrow> (Inr (), setter a b s)
         | _ \<Rightarrow> (Inl (IncompatiblePeer what), s))"

text \<open>\<^verbatim>\<open>_parse_kex_init\<close> between the parsing and the copy for the hash.\<close>

definition choose_algorithms :: "parsed_kexinit \<Rightarrow> int \<Rightarrow> (('e, 'z, 'y) kexing_scheme, unit) py" where
  "choose_algorithms parsed seqno =
     pbind (pmodify (\<lambda>s. fold note_marker (kex_algo_list parsed) (s\<lparr>remote_ext_info := None\<rparr>))) (\<lambda>_.
     let kex_algos = filter (\<lambda>x. \<not> is_marker x) (kex_algo_list parsed) in
     pbind (check_kex_order seqno) (\<lambda>_.
     pbind (agree_on_kex kex_algos) (\<lambda>_.
     pbind (agree_on_host_key (server_key_algo_list parsed)) (\<lambda>_.
     pbind (agree_on_pair ''Incompatible ssh server (no acceptable ciphers)'' preferred_ciphers
              (client_encrypt_algo_list parsed) (server_encrypt_algo_list parsed)
              (\<lambda>a b s. s\<lparr>local_cipher := a, remote_cipher := b\<rparr>)) (\<lambda>_.
     pbind (agree_on_pair ''Incompatible ssh server (no acceptable macs)'' preferred_macs
              (client_mac_algo_list parsed) (server_mac_algo_list parsed)
              (\<lambda>a b s. s\<lparr>local_mac := Some a, remote_mac := Some b\<rparr>)) (\<lambda>_.
     agree_on_pair ''Incompatible ssh server (no acceptable compression)'' preferred_compression
              (client_compress_algo_list parsed) (server_compress_algo_list parsed)
              (\<lambda>a b s. s\<lparr>local_compression := Some a, remote_compression := Some b\<rparr>)))))))"

definition parse_kex_init :: "message \<Rightarrow> int \<Rightarrow> (('e, 'z, 'y) kexing_scheme, unit) py" where
  "parse_kex_init m seqno =
     pbind (on_message (really_parse_kex_init False) m) (\<lambda>(parsed, m').
     pbind (choose_algorithms parsed seqno) (\<lambda>_.
     pbind (on_message get_so_far m') (\<lambda>(so_far, _).
     pmodify (\<lambda>s. s\<lparr>remote_kex_init := Some (MSG_KEXINIT # so_far)\<rparr>))))"

end
