(* ===== verification/Transport_Keys.thy ===== *)
theory Transport_Keys
  imports Transport_Kexinit Packet_Link
begin

text \<open>
  From a shared secret to new keys, in \<^verbatim>\<open>paramiko/transport.py\<close>: \<^verbatim>\<open>_set_K_H\<close>, \<^verbatim>\<open>_compute_key\<close>,
  \<^verbatim>\<open>_get_engine\<close>, \<^verbatim>\<open>_activate_inbound\<close>, \<^verbatim>\<open>_activate_outbound\<close> and \<^verbatim>\<open>_auth_trigger\<close>. Shown: the
  derived keys are those of RFC 4253, section 7.2, and when both ends switch, the packetizers
  are in step under the new keys.
\<close>

section \<open>Derivation of keys\<close>

definition set_K_H :: "int \<Rightarrow> bytes \<Rightarrow> ('e, 'z, 'y) kexing_scheme \<Rightarrow> ('e, 'z, 'y) kexing_scheme" where
  "set_K_H k h s =
     (let s = s\<lparr>t_K := Some k, t_H := Some h\<rparr>
      in if session_id s = None then s\<lparr>session_id := Some h\<rparr> else s)"

text \<open>The loop of \<^verbatim>\<open>_compute_key\<close>; with an empty digest it never ends.\<close>

partial_function (option) key_loop ::
  "(bytes \<Rightarrow> bytes) \<Rightarrow> int \<Rightarrow> bytes \<Rightarrow> int \<Rightarrow> bytes \<Rightarrow> bytes \<Rightarrow> (py_error + bytes) option" where
  "key_loop h K H nbytes out sofar =
     (if int (length out) < nbytes then
        (case message_of [FMpint K, FRaw H, FRaw sofar] of
           Inl e \<Rightarrow> Some (Inl e)
         | Inr m \<Rightarrow> key_loop h K H nbytes (out @ h m) (sofar @ h m))
      else Some (Inr out))"

definition kex_hash :: "('e, 'z, 'y) kexing_scheme \<Rightarrow> hash_class" where
  "kex_hash s =
     (case kex_engine s of
        None \<Rightarrow> SHA1
      | Some k \<Rightarrow> (case hash_algo k of None \<Rightarrow> SHA1 | Some h \<Rightarrow> h))"

definition compute_key ::
  "('e, 'z) lib \<Rightarrow> string \<Rightarrow> int \<Rightarrow> (('e, 'z, 'y) kexing_scheme, bytes) bpy" where
  "compute_key l kid nbytes s =
     (case (t_K s, t_H s, session_id s) of
        (Some K, Some H, Some sid) \<Rightarrow>
          (case message_of [FMpint K, FRaw H, FRaw (lit kid), FRaw sid] of
             Inl e \<Rightarrow> braise e s
           | Inr m \<Rightarrow>
               (let h = digest l (kex_hash s); out = h m in
                case key_loop h K H nbytes out out of
                  None \<Rightarrow> (Waiting, s)
                | Some (Inl e) \<Rightarrow> braise e s
                | Some (Inr out) \<Rightarrow> bret (slice_to nbytes out) s))
      | _ \<Rightarrow> braise TypeError s)"

section \<open>Engines\<close>

definition get_engine ::
  "('e, 'z) lib \<Rightarrow> pystr \<Rightarrow> bytes \<Rightarrow> bytes \<Rightarrow> bool \<Rightarrow> bool \<Rightarrow> py_error + 'e" where
  "get_engine l name key iv encrypt aead =
     (case map_of cipher_table name of
        None \<Rightarrow> Inl (SSHException ''Unknown cipher'')
      | Some info \<Rightarrow>
          if aead then new_aead l (ci_class info) key
          else (case ci_mode info of
                  None \<Rightarrow> Inl KeyError
                | Some mode \<Rightarrow> new_engine l (ci_class info) mode encrypt key iv))"

text \<open>\<^verbatim>\<open>p in s\<close> for strings.\<close>

definition contains :: "pystr \<Rightarrow> pystr \<Rightarrow> bool" where
  "contains p s \<longleftrightarrow> list_ex (\<lambda>i. take (length p) (drop i s) = p) [0..<Suc (length s)]"

text \<open>What \<^verbatim>\<open>_activate_inbound\<close> and \<^verbatim>\<open>_activate_outbound\<close> compute alike: \<open>ids\<close> are the letters for the
  initial vector, the key and the MAC key.\<close>

record 'e new_keys =
  nk_engine :: 'e
  nk_block_size :: int
  nk_mac_engine :: "hash_class option"
  nk_mac_size :: int
  nk_mac_key :: "bytes option"
  nk_etm :: bool
  nk_aead :: bool
  nk_iv :: "bytes option"

definition derive_keys ::
  "('e, 'z) lib \<Rightarrow> string \<times> string \<times> string \<Rightarrow> bool \<Rightarrow> pystr \<Rightarrow> pystr option
   \<Rightarrow> (('e, 'z, 'y) kexing_scheme, 'e new_keys) bpy" where
  "derive_keys l ids encrypt cipher mac =
     (case map_of cipher_table cipher of
        None \<Rightarrow> braise KeyError
      | Some info \<Rightarrow>
          (let aead = ci_is_aead info;
               block_size = ci_block_size info;
               key_size = ci_key_size info;
               iv_size = (case ci_iv_size info of None \<Rightarrow> block_size | Some n \<Rightarrow> n) in
           bbind (compute_key l (fst ids) iv_size) (\<lambda>iv.
           bbind (compute_key l (fst (snd ids)) key_size) (\<lambda>key.
           bbind (blift (get_engine l cipher key iv encrypt aead)) (\<lambda>engine.
           case mac of
             None \<Rightarrow> braise (if aead then KeyError else TypeError)
           | Some mac \<Rightarrow>
               (let etm = \<not> aead \<and> contains (lit ''etm@openssh.com'') mac in
                case map_of mac_table mac of
                  None \<Rightarrow> braise KeyError
                | Some (mac_engine, mac_size) \<Rightarrow>
                    bbind (compute_key l (snd (snd ids)) (digest_size mac_engine)) (\<lambda>mac_key.
                    bret \<lparr>nk_engine = engine, nk_block_size = block_size,
                          nk_mac_engine = (if aead then None else Some mac_engine),
                          nk_mac_size = (if aead then 16 else mac_size),
                          nk_mac_key = (if aead then None else Some mac_key),
                          nk_etm = etm, nk_aead = aead, nk_iv = (if aead then Some iv else None)\<rparr>)))))))"

text \<open>The compressor to switch on, if any: \<open>z\<close> is a new one.\<close>

definition new_compressor ::
  "pystr option \<Rightarrow> 'z \<Rightarrow> (('e, 'z, 'y) kexing_scheme, 'z option) bpy" where
  "new_compressor name z s =
     (case name of
        None \<Rightarrow> braise KeyError s
      | Some name \<Rightarrow>
          (case map_of compression_table name of
             None \<Rightarrow> braise KeyError s
           | Some has \<Rightarrow>
               bret (if has \<and> (name \<noteq> lit ''zlib@openssh.com'' \<or> authenticated s) then Some z else None) s))"

definition activate_inbound :: "('e, 'z) lib \<Rightarrow> (('e, 'z, 'y) kexing_scheme, unit) bpy" where
  "activate_inbound l s =
     (bbind (derive_keys l (if server_mode s then (''A'', ''C'', ''E'') else (''B'', ''D'', ''F'')) False
               (remote_cipher s) (remote_mac s)) (\<lambda>k.
      bbind (bmodify (\<lambda>s. s\<lparr>pktz := set_inbound_cipher (nk_engine k) (nk_block_size k) (nk_mac_engine k)
               (nk_mac_size k) (nk_mac_key k) (nk_etm k) (nk_aead k) (nk_iv k) (pktz s)\<rparr>)) (\<lambda>_.
      bbind (new_compressor (remote_compression s) (zlib_decompressor l)) (\<lambda>z.
      bbind (bmodify (\<lambda>s. case z of None \<Rightarrow> s | Some z \<Rightarrow> s\<lparr>pktz := set_inbound_compressor z (pktz s)\<rparr>)) (\<lambda>_.
      bmodify (\<lambda>s. if agreed_on_strict_kex s then s\<lparr>pktz := reset_seqno_in (pktz s)\<rparr> else s)))))) s"

text \<open>\<^verbatim>\<open>_activate_outbound\<close> in three parts: what follows the NEWKEYS message up to the switch of the
  compressor, the extension message, and the whole.\<close>

definition switch_outbound :: "('e, 'z) lib \<Rightarrow> (('e, 'z, 'y) kexing_scheme, unit) bpy" where
  "switch_outbound l =
     bbind (bmodify (\<lambda>s. if agreed_on_strict_kex s then s\<lparr>pktz := reset_seqno_out (pktz s)\<rparr> else s)) (\<lambda>_. \<lambda>s.
     bbind (derive_keys l (if server_mode s then (''B'', ''D'', ''F'') else (''A'', ''C'', ''E'')) True
              (local_cipher s) (local_mac s)) (\<lambda>k.
     let sdctr = drop (length (local_cipher s) - 4) (local_cipher s) = lit ''-ctr'' in
     bbind (bmodify (\<lambda>s. s\<lparr>pktz := set_outbound_cipher (nk_engine k) (nk_block_size k) (nk_mac_engine k)
              (nk_mac_size k) (nk_mac_key k) sdctr (nk_etm k) (nk_aead k) (nk_iv k) (pktz s)\<rparr>)) (\<lambda>_.
     bbind (new_compressor (local_compression s) (zlib_compressor l)) (\<lambda>z.
     bmodify (\<lambda>s. case z of None \<Rightarrow> s | Some z \<Rightarrow> s\<lparr>pktz := set_outbound_compressor z (pktz s)\<rparr>)))) s)"

definition send_ext_info ::
  "('e, 'z) lib \<Rightarrow> (nat \<Rightarrow> bytes) \<Rightarrow> (('e, 'z, 'y) kexing_scheme, unit) bpy" where
  "send_ext_info l rnd s =
     (if server_mode s \<and> server_sig_algs s \<and> remote_ext_info s = Some (lit ''ext-info-c'') then
        bbind (blift (message_of [FRaw [MSG_EXT_INFO], FInt 1, FString (lit ''server-sig-algs''),
                 FString (join_with [comma] (preferred_pubkeys s))])) (t_send_message l rnd) s
      else bret () s)"

definition activate_outbound ::
  "('e, 'z) lib \<Rightarrow> (nat \<Rightarrow> bytes) \<Rightarrow> (('e, 'z, 'y) kexing_scheme, unit) bpy" where
  "activate_outbound l rnd =
     bbind (blift (message_of [FRaw [MSG_NEWKEYS]])) (\<lambda>m.
     bbind (t_send_message l rnd m) (\<lambda>_.
     bbind (switch_outbound l) (\<lambda>_.
     bbind (bmodify (\<lambda>s. if \<not> need_rekey (pktz s) then s\<lparr>in_kex := False\<rparr> else s)) (\<lambda>_.
     bbind (send_ext_info l rnd) (\<lambda>_.
     bmodify (expect_packet [MSG_NEWKEYS]))))))"

definition auth_trigger :: "('e, 'z) lib \<Rightarrow> ('e, 'z, 'y) kexing_scheme \<Rightarrow> ('e, 'z, 'y) kexing_scheme" where
  "auth_trigger l s =
     (let s = s\<lparr>authenticated := True\<rparr>;
          s = (if local_compression s = Some (lit ''zlib@openssh.com'')
               then s\<lparr>pktz := set_outbound_compressor (zlib_compressor l) (pktz s)\<rparr> else s)
      in if remote_compression s = Some (lit ''zlib@openssh.com'')
         then s\<lparr>pktz := set_inbound_compressor (zlib_decompressor l) (pktz s)\<rparr> else s)"

section \<open>The keys are those of RFC 4253\<close>

text \<open>Section 7.2: \<open>K1 = HASH(K || H || X || session_id)\<close>, \<open>K2 = HASH(K || H || K1)\<close>,
  \<open>K3 = HASH(K || H || K1 || K2)\<close>, and so on; \<open>rfc_key \<dots> n\<close> is \<open>K1 || \<dots> || Kn\<close>.\<close>

fun rfc_key :: "(bytes \<Rightarrow> bytes) \<Rightarrow> bytes \<Rightarrow> bytes \<Rightarrow> byte \<Rightarrow> bytes \<Rightarrow> nat \<Rightarrow> bytes" where
  "rfc_key h K H X sid 0 = []"
| "rfc_key h K H X sid (Suc 0) = h (K @ H @ [X] @ sid)"
| "rfc_key h K H X sid (Suc (Suc n)) =
     rfc_key h K H X sid (Suc n) @ h (K @ H @ rfc_key h K H X sid (Suc n))"

lemma rfc_key_length: "(\<And>b. length (h b) = d) \<Longrightarrow> length (rfc_key h K H X sid n) = n * d"
  by (induction h K H X sid n rule: rfc_key.induct) simp_all

lemma rfc_key_prefix: "i \<le> j \<Longrightarrow> \<exists>r. rfc_key h K H X sid j = rfc_key h K H X sid i @ r"
proof (induction j rule: nat.induct)
  case (Suc j)
  show ?case
  proof (cases "i = Suc j")
    case False
    with Suc obtain r where "rfc_key h K H X sid j = rfc_key h K H X sid i @ r" by auto
    then show ?thesis by (cases j) auto
  qed simp
qed simp

lemma take_rfc_key:
  assumes "\<And>b. length (h b) = d" "n \<le> i * d" "n \<le> j * d"
  shows "take n (rfc_key h K H X sid i) = take n (rfc_key h K H X sid j)"
proof -
  have "take n (rfc_key h K H X sid i) = take n (rfc_key h K H X sid j)" if "i \<le> j" "n \<le> i * d" for i j
  proof -
    obtain r where "rfc_key h K H X sid j = rfc_key h K H X sid i @ r" using rfc_key_prefix \<open>i \<le> j\<close> by blast
    with that(2) show ?thesis by (simp add: rfc_key_length [of h d, OF assms(1)])
  qed
  from this [of i j, OF _ assms(2)] this [of j i, OF _ assms(3)] show ?thesis by (metis linorder_le_cases)
qed

lemma key_loop_rfc:
  assumes d: "\<And>b. length (h b) = d" "0 < d" and K: "mpint_ok K"
  shows "\<exists>j. n \<le> int (j * d) \<and>
           key_loop h K H n (rfc_key h (enc_mpint K) H X sid (Suc i)) (rfc_key h (enc_mpint K) H X sid (Suc i)) =
             Some (Inr (rfc_key h (enc_mpint K) H X sid j))"
proof (induction "nat n - Suc i * d" arbitrary: i rule: less_induct)
  case less
  let ?k = "rfc_key h (enc_mpint K) H X sid"
  note len = rfc_key_length [of h d, OF d(1)]
  show ?case
  proof (cases "int (length (?k (Suc i))) < n")
    case False
    then show ?thesis by (subst key_loop.simps) (auto simp: len algebra_simps intro!: exI [of _ "Suc i"])
  next
    case True
    have "message_of [FMpint K, FRaw H, FRaw (?k (Suc i))] = Inr (enc_mpint K @ H @ ?k (Suc i))"
      using K by (subst message_of_ok) (simp_all add: enc_fields_def)
    with True have step: "key_loop h K H n (?k (Suc i)) (?k (Suc i)) = key_loop h K H n (?k (Suc (Suc i))) (?k (Suc (Suc i)))"
      by (subst key_loop.simps) simp
    have "Suc i * d < nat n" using True unfolding len by linarith
    then have "nat n - Suc (Suc i) * d < nat n - Suc i * d" using d(2) by (simp add: diff_less_mono2)
    from less [OF this] show ?thesis by (simp only: step)
  qed
qed

lemma compute_key_eq:
  assumes "t_K s = Some K" "mpint_ok K" "t_H s = Some H" "session_id s = Some sid"
    and "\<And>b. length (digest l (kex_hash s) b) = d" "0 < d" and "0 \<le> n" "n \<le> int (m * d)"
  shows "compute_key l [x] n s =
           (Done (Inr (take (nat n) (rfc_key (digest l (kex_hash s)) (enc_mpint K) H (of_char x) sid m))), s) \<and>
         length (take (nat n) (rfc_key (digest l (kex_hash s)) (enc_mpint K) H (of_char x) sid m)) = nat n"
proof -
  define h where "h = digest l (kex_hash s)"
  let ?k = "rfc_key h (enc_mpint K) H (of_char x) sid"
  have d: "\<And>b. length (h b) = d" using assms(5) by (simp add: h_def)
  obtain j where j: "n \<le> int (j * d)" "key_loop h K H n (?k (Suc 0)) (?k (Suc 0)) = Some (Inr (?k j))"
    using key_loop_rfc [where h = h and H = H and X = "of_char x" and sid = sid and i = 0 and n = n, OF d assms(6,2)] by blast
  have "message_of [FMpint K, FRaw H, FRaw (lit [x]), FRaw sid] = Inr (enc_mpint K @ H @ [of_char x] @ sid)"
    using assms(2) by (subst message_of_ok) (simp_all add: enc_fields_def lit_def)
  with j(2) have "compute_key l [x] n s = (Done (Inr (slice_to n (?k j))), s)"
    using assms(1,3,4) by (simp add: compute_key_def h_def Let_def bret_def)
  moreover have "slice_to n (?k j) = take (nat n) (?k j)"
    using assms(7) by (simp add: slice_to_nonneg)
  moreover have "take (nat n) (?k j) = take (nat n) (?k m)"
    using j(1) assms(7,8) by (intro take_rfc_key [OF d]) (simp_all add: nat_le_iff)
  moreover have "nat n \<le> m * d" using assms(8) by linarith
  then have "length (take (nat n) (?k m)) = nat n" by (simp add: rfc_key_length [of h d, OF d])
  ultimately show ?thesis by (simp add: h_def)
qed

text \<open>C19: Key derivation: \<^verbatim>\<open>_compute_key\<close> ends and returns exactly the first \<open>n\<close> bytes of the key of
  RFC 4253, section 7.2, for its letter, for every size asked for.\<close>

theorem compute_key_rfc4253:
  assumes "t_K s = Some K" "mpint_ok K" "t_H s = Some H" "session_id s = Some sid"
    and "\<And>b. length (digest l (kex_hash s) b) = d" "0 < d" and "0 \<le> n" "n \<le> int (m * d)"
  shows "compute_key l [x] n s =
           (Done (Inr (take (nat n) (rfc_key (digest l (kex_hash s)) (enc_mpint K) H (of_char x) sid m))), s) \<and>
         length (take (nat n) (rfc_key (digest l (kex_hash s)) (enc_mpint K) H (of_char x) sid m)) = nat n"
  by (rule compute_key_eq [OF assms])

section \<open>Both ends under new keys\<close>

text \<open>What the transport relies on of the library besides the laws of \<open>crypto_ok\<close>: digests and HMACs
  have their full size; for each cipher of the table a key and an initial vector of the sizes in
  the table give an encryptor and a decryptor in the same state; a new decompressor fits a new
  compressor.\<close>

definition lib_ok ::
  "('e, 'z) lib \<Rightarrow> (int \<Rightarrow> 'e \<Rightarrow> 'e \<Rightarrow> bool) \<Rightarrow> ('z \<Rightarrow> 'z \<Rightarrow> bool) \<Rightarrow> bool" where
  "lib_ok l R Z \<longleftrightarrow>
     (\<forall>h b. int (length (digest l h b)) = digest_size h) \<and>
     (\<forall>k m h. int (length (hmac (crypto_of l) k m h)) = digest_size h) \<and>
     (\<forall>name info key iv. map_of cipher_table name = Some info \<longrightarrow> int (length key) = ci_key_size info \<longrightarrow>
        (case ci_mode info of
           None \<Rightarrow> (\<exists>e. new_aead l (ci_class info) key = Inr e \<and> R (ci_block_size info) e e)
         | Some mode \<Rightarrow> int (length iv) = ci_block_size info \<longrightarrow>
             (\<exists>eo ei. new_engine l (ci_class info) mode True key iv = Inr eo \<and>
                new_engine l (ci_class info) mode False key iv = Inr ei \<and> R (ci_block_size info) eo ei))) \<and>
     Z (zlib_compressor l) (zlib_decompressor l)"

lemma cipher_table_sizes:
  assumes "map_of cipher_table name = Some info"
  shows "8 \<le> ci_block_size info \<and> ci_block_size info \<le> 252 \<and> 0 < ci_key_size info \<and>
    (case ci_iv_size info of None \<Rightarrow> True | Some n \<Rightarrow> 0 < n) \<and> ci_is_aead info = (ci_mode info = None) \<and>
    (ci_is_aead info \<or> ci_iv_size info = None)"
proof -
  from assms have "(name, info) \<in> set cipher_table" by (rule map_of_SomeD)
  then show ?thesis
    by (auto simp: cipher_table_def block_cipher_def gcm_cipher_def)
qed

lemma mac_table_sizes: "map_of mac_table name = Some (h, n) \<Longrightarrow> 0 < n \<and> n \<le> digest_size h"
  by (drule map_of_SomeD) (auto simp: mac_table_def)

lemma digest_size_pos: "0 < digest_size h"
  by (cases h) simp_all

definition has_secrets :: "('e, 'z, 'y) kexing_scheme \<Rightarrow> bool" where
  "has_secrets s \<longleftrightarrow> (\<exists>K H sid. t_K s = Some K \<and> mpint_ok K \<and> t_H s = Some H \<and> session_id s = Some sid)"

text \<open>Two ends after one key exchange: the same secrets and hash, and the algorithms of \<open>x\<close> for
  sending are those of \<open>y\<close> for receiving.\<close>

definition keys_shared :: "('e, 'z, 'y) kexing_scheme \<Rightarrow> ('e, 'z, 'y) kexing_scheme \<Rightarrow> bool" where
  "keys_shared x y \<longleftrightarrow>
     server_mode x \<noteq> server_mode y \<and> kex_hash x = kex_hash y \<and>
     t_K x = t_K y \<and> t_H x = t_H y \<and> session_id x = session_id y \<and> has_secrets x \<and>
     local_cipher x = remote_cipher y \<and> map_of cipher_table (local_cipher x) \<noteq> None \<and>
     local_mac x = remote_mac y \<and> (\<exists>a. local_mac x = Some a \<and> map_of mac_table a \<noteq> None) \<and>
     local_compression x = remote_compression y \<and>
     (\<exists>a. local_compression x = Some a \<and> map_of compression_table a \<noteq> None) \<and>
     agreed_on_strict_kex x = agreed_on_strict_kex y \<and> authenticated x = authenticated y"

text \<open>The key of one letter.\<close>

definition kex_key :: "('e, 'z) lib \<Rightarrow> ('e, 'z, 'y) kexing_scheme \<Rightarrow> char \<Rightarrow> int \<Rightarrow> bytes" where
  "kex_key l s c n =
     (case (t_K s, t_H s, session_id s) of
        (Some K, Some H, Some sid) \<Rightarrow>
          take (nat n) (rfc_key (digest l (kex_hash s)) (enc_mpint K) H (of_char c) sid (nat n))
      | _ \<Rightarrow> [])"

lemma compute_key_done:
  assumes l: "lib_ok l R Z" and s: "has_secrets s" and n: "0 < n"
  shows "compute_key l [c] n s = (Done (Inr (kex_key l s c n)), s)" "int (length (kex_key l s c n)) = n"
proof -
  let ?d = "nat (digest_size (kex_hash s))"
  have "int (length (digest l (kex_hash s) b)) = digest_size (kex_hash s)" for b
    using l by (simp add: lib_ok_def)
  then have d: "length (digest l (kex_hash s) b) = ?d" for b by (metis nat_int)
  have "0 < ?d" using digest_size_pos by simp
  then have "nat n * 1 \<le> nat n * ?d" by (intro mult_le_mono2) simp
  then have nd: "n \<le> int (nat n * ?d)" using n by linarith
  obtain K H sid where K: "t_K s = Some K" "mpint_ok K" "t_H s = Some H" "session_id s = Some sid"
    using s by (auto simp: has_secrets_def)
  from compute_key_eq [OF K d \<open>0 < ?d\<close> _ nd, of c] n K
  show "compute_key l [c] n s = (Done (Inr (kex_key l s c n)), s)" "int (length (kex_key l s c n)) = n"
    by (simp_all add: kex_key_def)
qed

lemma kex_key_shared:
  "kex_hash x = kex_hash y \<Longrightarrow> t_K x = t_K y \<Longrightarrow> t_H x = t_H y \<Longrightarrow> session_id x = session_id y \<Longrightarrow>
   kex_key l x = kex_key l y \<and> has_secrets x = has_secrets y"
  by (auto simp: kex_key_def has_secrets_def fun_eq_iff split: option.splits)

text \<open>The keys that the two ends derive for one direction.\<close>

definition direction_keys ::
  "('e, 'z) lib \<Rightarrow> ('e, 'z, 'y) kexing_scheme \<Rightarrow> char \<Rightarrow> char \<Rightarrow> cipher_info \<Rightarrow> pystr \<Rightarrow> hash_class \<Rightarrow> int \<Rightarrow> 'e \<Rightarrow> 'e new_keys" where
  "direction_keys l s a c info mac h ms e =
     \<lparr>nk_engine = e, nk_block_size = ci_block_size info,
      nk_mac_engine = (if ci_is_aead info then None else Some h),
      nk_mac_size = (if ci_is_aead info then 16 else ms),
      nk_mac_key = (if ci_is_aead info then None else Some (kex_key l s c (digest_size h))),
      nk_etm = (\<not> ci_is_aead info \<and> contains (lit ''etm@openssh.com'') mac), nk_aead = ci_is_aead info,
      nk_iv = (if ci_is_aead info
               then Some (kex_key l s a (case ci_iv_size info of None \<Rightarrow> ci_block_size info | Some n \<Rightarrow> n)) else None)\<rparr>"

lemma derive_keys_done:
  assumes l: "lib_ok l R Z" and s: "has_secrets s"
    and info: "map_of cipher_table cipher = Some info" and h: "map_of mac_table mac = Some (h, ms)"
    and e: "get_engine l cipher (kex_key l s b (ci_key_size info))
              (kex_key l s a (case ci_iv_size info of None \<Rightarrow> ci_block_size info | Some n \<Rightarrow> n)) enc (ci_is_aead info) = Inr e"
  shows "derive_keys l ([a], [b], [c]) enc cipher (Some mac) s =
           (Done (Inr (direction_keys l s a c info mac h ms e)), s)"
proof -
  have "0 < (case ci_iv_size info of None \<Rightarrow> ci_block_size info | Some n \<Rightarrow> n)" "0 < ci_key_size info"
    using cipher_table_sizes [OF info] by (auto split: option.splits)
  note keys = compute_key_done(1) [OF l s this(1)] compute_key_done(1) [OF l s this(2)]
    compute_key_done(1) [OF l s digest_size_pos]
  show ?thesis
    by (simp add: derive_keys_def info h keys e bbind_def blift_def bret_def direction_keys_def Let_def)
qed

lemma engines_fit:
  assumes l: "lib_ok l R Z" and s: "has_secrets s" and info: "map_of cipher_table cipher = Some info"
    and iv_def: "iv = kex_key l s a (case ci_iv_size info of None \<Rightarrow> ci_block_size info | Some n \<Rightarrow> n)"
    and key_def: "key = kex_key l s b (ci_key_size info)"
  shows "\<exists>eo ei. get_engine l cipher key iv True (ci_is_aead info) = Inr eo \<and>
           get_engine l cipher key iv False (ci_is_aead info) = Inr ei \<and> R (ci_block_size info) eo ei"
proof -
  have sizes: "0 < (case ci_iv_size info of None \<Rightarrow> ci_block_size info | Some n \<Rightarrow> n)" "0 < ci_key_size info"
    using cipher_table_sizes [OF info] by (auto split: option.splits)
  have len: "int (length key) = ci_key_size info"
    "int (length iv) = (case ci_iv_size info of None \<Rightarrow> ci_block_size info | Some n \<Rightarrow> n)"
    using compute_key_done(2) [OF l s] sizes by (simp_all add: iv_def key_def)
  have law: "case ci_mode info of
           None \<Rightarrow> (\<exists>e. new_aead l (ci_class info) key = Inr e \<and> R (ci_block_size info) e e)
         | Some mode \<Rightarrow> int (length iv) = ci_block_size info \<longrightarrow>
             (\<exists>eo ei. new_engine l (ci_class info) mode True key iv = Inr eo \<and>
                new_engine l (ci_class info) mode False key iv = Inr ei \<and> R (ci_block_size info) eo ei)"
    using l info len(1) unfolding lib_ok_def by blast
  show ?thesis
  proof (cases "ci_mode info")
    case None
    with law cipher_table_sizes [OF info] show ?thesis by (auto simp: get_engine_def info)
  next
    case (Some mode)
    with law cipher_table_sizes [OF info] len(2) show ?thesis by (auto simp: get_engine_def info)
  qed
qed

lemma new_compressor_done:
  assumes "map_of compression_table a = Some b"
  shows "new_compressor (Some a) z s =
    (Done (Inr (if b \<and> (a \<noteq> lit ''zlib@openssh.com'' \<or> authenticated s) then Some z else None)), s)"
  using assms by (simp add: new_compressor_def bret_def)

text \<open>The state of the packetizer after the switch.\<close>

lemma switch_outbound_done:
  assumes "derive_keys l (if server_mode x then (''B'', ''D'', ''F'') else (''A'', ''C'', ''E'')) True (local_cipher x)
      (local_mac x) (if agreed_on_strict_kex x then x\<lparr>pktz := reset_seqno_out (pktz x)\<rparr> else x) =
        (Done (Inr k), if agreed_on_strict_kex x then x\<lparr>pktz := reset_seqno_out (pktz x)\<rparr> else x)"
    and "local_compression x = Some a" "map_of compression_table a = Some b"
  defines "on \<equiv> b \<and> (a \<noteq> lit ''zlib@openssh.com'' \<or> authenticated x)"
  shows "\<exists>x' sdctr. switch_outbound l x = (Done (Inr ()), x') \<and>
    pktz x' = (if on then set_outbound_compressor (zlib_compressor l) else (\<lambda>p. p))
      (set_outbound_cipher (nk_engine k) (nk_block_size k) (nk_mac_engine k) (nk_mac_size k) (nk_mac_key k)
         sdctr (nk_etm k) (nk_aead k) (nk_iv k)
         (if agreed_on_strict_kex x then reset_seqno_out (pktz x) else pktz x))"
  using assms(1-3)
  by (cases "agreed_on_strict_kex x")
    (auto simp: switch_outbound_def bbind_def bmodify_def Let_def new_compressor_done on_def)

lemma activate_inbound_done:
  assumes "derive_keys l (if server_mode y then (''A'', ''C'', ''E'') else (''B'', ''D'', ''F'')) False (remote_cipher y)
      (remote_mac y) y = (Done (Inr k), y)"
    and "remote_compression y = Some a" "map_of compression_table a = Some b"
  defines "on \<equiv> b \<and> (a \<noteq> lit ''zlib@openssh.com'' \<or> authenticated y)"
  shows "\<exists>y'. activate_inbound l y = (Done (Inr ()), y') \<and>
    pktz y' = (if agreed_on_strict_kex y then reset_seqno_in else (\<lambda>p. p))
      ((if on then set_inbound_compressor (zlib_decompressor l) else (\<lambda>p. p))
        (set_inbound_cipher (nk_engine k) (nk_block_size k) (nk_mac_engine k) (nk_mac_size k) (nk_mac_key k)
           (nk_etm k) (nk_aead k) (nk_iv k) (pktz y)))"
  using assms(1-3)
  by (auto simp: activate_inbound_def bbind_def bmodify_def Let_def new_compressor_done on_def)

lemma secrets_pktz:
  "kex_hash (x\<lparr>pktz := p\<rparr>) = kex_hash x" "has_secrets (x\<lparr>pktz := p\<rparr>) = has_secrets x"
  "kex_key l (x\<lparr>pktz := p\<rparr>) = kex_key l x"
proof -
  show kh: "kex_hash (x\<lparr>pktz := p\<rparr>) = kex_hash x" by (simp add: kex_hash_def)
  show "has_secrets (x\<lparr>pktz := p\<rparr>) = has_secrets x" "kex_key l (x\<lparr>pktz := p\<rparr>) = kex_key l x"
    using kex_key_shared [OF kh, of l] by simp_all
qed

lemma note_switched_fields [simp]:
  "block_size_out (note_switched b p) = block_size_out p"
  "mac_size_out (note_switched b p) = mac_size_out p"
  "etm_out (note_switched b p) = etm_out p"
  "aead_out (note_switched b p) = aead_out p"
  "sequence_number_out (note_switched b p) = sequence_number_out p"
  "block_engine_out (note_switched b p) = block_engine_out p"
  "iv_out (note_switched b p) = iv_out p"
  "mac_key_out (note_switched b p) = mac_key_out p"
  "mac_engine_out (note_switched b p) = mac_engine_out p"
  "compress_engine_out (note_switched b p) = compress_engine_out p"
  "block_size_in (note_switched b p) = block_size_in p"
  "mac_size_in (note_switched b p) = mac_size_in p"
  "etm_in (note_switched b p) = etm_in p"
  "aead_in (note_switched b p) = aead_in p"
  "sequence_number_in (note_switched b p) = sequence_number_in p"
  "block_engine_in (note_switched b p) = block_engine_in p"
  "iv_in (note_switched b p) = iv_in p"
  "mac_key_in (note_switched b p) = mac_key_in p"
  "mac_engine_in (note_switched b p) = mac_engine_in p"
  "compress_engine_in (note_switched b p) = compress_engine_in p"
  "pk_initial_kex_done (note_switched b p) = pk_initial_kex_done p"
  by (simp_all add: note_switched_def Let_def)

text \<open>New ciphers that fit, and compressors that fit or stay, keep two packetizers in step.\<close>

lemma in_step_new_keys:
  assumes st: "in_step c R Z p q" and bs: "8 \<le> nk_block_size ko" "nk_block_size ko \<le> 252"
    and R: "R (nk_block_size ko) (nk_engine ko) (nk_engine ki)" and Z: "Z zo zi"
    and same: "ki = ko\<lparr>nk_engine := nk_engine ki\<rparr>"
    and mac: "0 \<le> nk_mac_size ko" "\<not> (nk_etm ko \<and> nk_aead ko)" "nk_aead ko \<Longrightarrow> nk_mac_size ko = 16"
      "\<not> nk_aead ko \<Longrightarrow> \<exists>k d. nk_mac_key ko = Some k \<and> nk_mac_engine ko = Some d \<and> (\<forall>m. nk_mac_size ko \<le> int (length (hmac c k m d)))"
  shows "in_step c R Z
    ((if on then set_outbound_compressor zo else (\<lambda>p. p))
      (set_outbound_cipher (nk_engine ko) (nk_block_size ko) (nk_mac_engine ko) (nk_mac_size ko) (nk_mac_key ko)
         sdctr (nk_etm ko) (nk_aead ko) (nk_iv ko) (if strict then reset_seqno_out p else p)))
    ((if strict then reset_seqno_in else (\<lambda>p. p))
      ((if on then set_inbound_compressor zi else (\<lambda>p. p))
        (set_inbound_cipher (nk_engine ki) (nk_block_size ki) (nk_mac_engine ki) (nk_mac_size ki) (nk_mac_key ki)
           (nk_etm ki) (nk_aead ki) (nk_iv ki) q)))"
proof -
  have ki: "nk_block_size ki = nk_block_size ko" "nk_mac_engine ki = nk_mac_engine ko" "nk_mac_size ki = nk_mac_size ko"
    "nk_mac_key ki = nk_mac_key ko" "nk_etm ki = nk_etm ko" "nk_aead ki = nk_aead ko" "nk_iv ki = nk_iv ko"
    by (subst same, simp)+
  have old: "sequence_number_in q = sequence_number_out p" "u32_ok (sequence_number_out p)"
    "pk_initial_kex_done q = pk_initial_kex_done p"
    "case (compress_engine_out p, compress_engine_in q) of
        (None, None) \<Rightarrow> True | (Some zo, Some zi) \<Rightarrow> Z zo zi | _ \<Rightarrow> False"
    using st by (auto simp: in_step_def)
  show ?thesis
    using old bs R Z mac
    by (cases on; cases strict)
      (simp_all add: in_step_def ki set_outbound_cipher_def set_inbound_cipher_def set_outbound_compressor_def
        set_inbound_compressor_def reset_seqno_out_def reset_seqno_in_def u32_ok_def)
qed

text \<open>C18: New keys. After a key exchange (both ends hold the same secret, hash and session identifier,
  and the algorithms of one for sending are those of the other for receiving), once the NEWKEYS
  message has passed under the old keys, the switch of the sender's outbound side and that of
  the receiver's inbound side both succeed and leave the two packetizers in step again, under
  an engine made from the new keys; with strict key exchange both start again at sequence
  number 0. With \<^verbatim>\<open>send_then_read\<close> every message sent from then on is received.\<close>

theorem new_keys_in_step:
  assumes "lib_ok l R Z" "keys_shared x y" "in_step (crypto_of l) R Z (pktz x) (pktz y)"
  shows "\<exists>x' y'. switch_outbound l x = (Done (Inr ()), x') \<and> activate_inbound l y = (Done (Inr ()), y') \<and>
           in_step (crypto_of l) R Z (pktz x') (pktz y') \<and> block_engine_out (pktz x') \<noteq> None \<and>
           (agreed_on_strict_kex x \<longrightarrow> sequence_number_out (pktz x') = 0)"
proof -
  note sh = assms(2) [unfolded keys_shared_def]
  obtain info where info: "map_of cipher_table (local_cipher x) = Some info" using sh by blast
  obtain mac p where "local_mac x = Some mac" "map_of mac_table mac = Some p" using sh by blast
  then obtain h ms where mac: "local_mac x = Some mac" "map_of mac_table mac = Some (h, ms)" by (cases p) simp
  obtain a b where comp: "local_compression x = Some a" "map_of compression_table a = Some b" using sh by blast
  define A B C where "A = (if server_mode x then CHR ''B'' else CHR ''A'')"
    and "B = (if server_mode x then CHR ''D'' else CHR ''C'')" and "C = (if server_mode x then CHR ''F'' else CHR ''E'')"
  define iv where "iv = kex_key l x A (case ci_iv_size info of None \<Rightarrow> ci_block_size info | Some n \<Rightarrow> n)"
  define key where "key = kex_key l x B (ci_key_size info)"
  have sec: "has_secrets x" "has_secrets y" "kex_key l y = kex_key l x" using sh kex_key_shared [of x y l] by simp_all
  obtain eo ei where e: "get_engine l (local_cipher x) key iv True (ci_is_aead info) = Inr eo"
    "get_engine l (local_cipher x) key iv False (ci_is_aead info) = Inr ei" "R (ci_block_size info) eo ei"
    using engines_fit [OF assms(1) sec(1) info iv_def key_def] by blast
  define ko ki where "ko = direction_keys l x A C info mac h ms eo" and "ki = direction_keys l x A C info mac h ms ei"
  have out: "derive_keys l ([A], [B], [C]) True (local_cipher x) (local_mac x) x0 = (Done (Inr ko), x0)"
    if "x0 = (if agreed_on_strict_kex x then x\<lparr>pktz := reset_seqno_out (pktz x)\<rparr> else x)" for x0
    using derive_keys_done [OF assms(1) _ info mac(2), of x0 B A True eo C] e(1) sec(1) that mac(1)
    by (simp add: secrets_pktz iv_def key_def ko_def direction_keys_def split: if_splits)
  have inb: "derive_keys l ([A], [B], [C]) False (remote_cipher y) (remote_mac y) y = (Done (Inr ki), y)"
    using derive_keys_done [OF assms(1) sec(2) info mac(2), of B A False ei C] e(2) sh mac(1)
    by (simp add: sec(3) iv_def key_def ki_def direction_keys_def)
  obtain x' sdctr where x': "switch_outbound l x = (Done (Inr ()), x')"
    "pktz x' = (if b \<and> (a \<noteq> lit ''zlib@openssh.com'' \<or> authenticated x) then set_outbound_compressor (zlib_compressor l) else (\<lambda>p. p))
      (set_outbound_cipher (nk_engine ko) (nk_block_size ko) (nk_mac_engine ko) (nk_mac_size ko) (nk_mac_key ko)
         sdctr (nk_etm ko) (nk_aead ko) (nk_iv ko) (if agreed_on_strict_kex x then reset_seqno_out (pktz x) else pktz x))"
    using switch_outbound_done [of l x ko, OF _ comp] out [OF refl] by (auto simp: A_def B_def C_def split: if_splits)
  obtain y' where y': "activate_inbound l y = (Done (Inr ()), y')"
    "pktz y' = (if agreed_on_strict_kex y then reset_seqno_in else (\<lambda>p. p))
      ((if b \<and> (a \<noteq> lit ''zlib@openssh.com'' \<or> authenticated y) then set_inbound_compressor (zlib_decompressor l) else (\<lambda>p. p))
        (set_inbound_cipher (nk_engine ki) (nk_block_size ki) (nk_mac_engine ki) (nk_mac_size ki) (nk_mac_key ki)
           (nk_etm ki) (nk_aead ki) (nk_iv ki) (pktz y)))"
    using activate_inbound_done [of l y ki, OF _ _ comp(2)] inb sh comp(1) by (auto simp: A_def B_def C_def split: if_splits)
  have hm: "int (length (hmac (crypto_of l) k m d)) = digest_size d" for k m d
    using assms(1) by (simp add: lib_ok_def)
  have Zz: "Z (zlib_compressor l) (zlib_decompressor l)" using assms(1) by (simp add: lib_ok_def)
  have eq: "agreed_on_strict_kex y = agreed_on_strict_kex x" "authenticated y = authenticated x" using sh by simp_all
  have step: "in_step (crypto_of l) R Z (pktz x') (pktz y')"
    unfolding x'(2) y'(2) eq
    by (rule in_step_new_keys [OF assms(3) _ _ _ Zz])
      (use e(3) cipher_table_sizes [OF info] mac_table_sizes [OF mac(2)] in \<open>auto simp: ko_def ki_def direction_keys_def hm\<close>)
  have "block_engine_out (pktz x') \<noteq> None" "agreed_on_strict_kex x \<longrightarrow> sequence_number_out (pktz x') = 0"
    by (simp_all add: x'(2) set_outbound_compressor_def set_outbound_cipher_def reset_seqno_out_def)
  with x'(1) y'(1) step show ?thesis by blast
qed

text \<open>A small library (the engine is the first byte of the key, the cipher adds it with XOR) and the
  two ends of a connection at its first key exchange.\<close>

definition demo_lib :: "(byte, unit) lib" where
  "demo_lib =
     \<lparr>crypto_of = \<lparr>cipher_update = (\<lambda>e d. (map (\<lambda>b. b XOR e) d, e)),
                  aead_encrypt = (\<lambda>e iv d aad. map (\<lambda>b. b XOR e) d @ replicate 16 e),
                  aead_decrypt = (\<lambda>e iv d aad. Inr (map (\<lambda>b. b XOR e) (take (length d - 16) d))),
                  hmac = (\<lambda>k m h. replicate (nat (digest_size h)) (of_nat (length m))),
                  compressor = (\<lambda>z d. (d, z))\<rparr>,
      digest = (\<lambda>h b. replicate (nat (digest_size h)) (of_nat (length b))),
      new_engine = (\<lambda>cls mode enc key iv. Inr (hd key)), new_aead = (\<lambda>cls key. Inr (hd key)),
      zlib_compressor = (), zlib_decompressor = (),
      load_key = (\<lambda>cls b. Inr \<lparr>hk_class = cls, hk_name = [], hk_blob = b, hk_public_blob = None\<rparr>),
      verify_ssh_sig = (\<lambda>k h sig. Inr (sig = hk_blob k @ h)), sign_ssh_data = (\<lambda>k h alg. Inr (hk_blob k @ h))\<rparr>"

lemma demo_lib_ok: "lib_ok demo_lib (\<lambda>b eo ei. eo = ei) (\<lambda>_ _. True)"
proof -
  have "int (nat (digest_size h)) = digest_size h" for h using digest_size_pos [of h] by simp
  then show ?thesis by (auto simp: lib_ok_def demo_lib_def split: option.splits)
qed

definition demo_keyed :: "bool \<Rightarrow> (byte, unit) kexing" where
  "demo_keyed server =
     (Kexing_init (Security_init True [] False) (Packetizer_init [] [SSent 1000] 0) (lit ''SSH-2.0-x'') True True False)
     \<lparr>server_mode := server, agreed_on_strict_kex := True, kex_engine := Some KexNistp256, t_K := Some 5,
      t_H := Some [1, 2], session_id := Some [1, 2], local_cipher := lit ''aes128-ctr'', remote_cipher := lit ''aes128-ctr'',
      local_mac := Some (lit ''hmac-sha1-96''), remote_mac := Some (lit ''hmac-sha1-96''),
      local_compression := Some (lit ''none''), remote_compression := Some (lit ''none'')\<rparr>"

lemmas demo_keyed_simps = demo_keyed_def Kexing_init_def security.defs kexing.defs

lemma demo_mpint: "mpint_ok 5"
proof -
  have "deflate_long 5 True = [5]" by code_simp
  then show ?thesis by (simp add: mpint_ok_def string_ok_def)
qed

lemma demo_secrets:
  "t_K (demo_keyed b) = Some 5" "t_H (demo_keyed b) = Some [1, 2]" "session_id (demo_keyed b) = Some [1, 2]"
  "kex_hash (demo_keyed b) = SHA256"
  by (simp_all add: demo_keyed_simps kex_hash_def)

theorem compute_key_rfc4253_witness:
  "length (take 40 (rfc_key (digest demo_lib SHA256) (enc_mpint 5) [1, 2] (of_char CHR ''A'') [1, 2] 2)) = 40"
  using compute_key_rfc4253 [of "demo_keyed True", OF demo_secrets(1) demo_mpint demo_secrets(2,3),
      where l = demo_lib and d = 32 and n = 40 and m = 2 and x = "CHR ''A''"]
  by (simp add: demo_secrets(4)) (simp add: demo_lib_def)

theorem new_keys_in_step_witness:
  "\<exists>x' y'. switch_outbound demo_lib (demo_keyed False) = (Done (Inr ()), x') \<and>
     activate_inbound demo_lib (demo_keyed True) = (Done (Inr ()), y') \<and>
     in_step (crypto_of demo_lib) (\<lambda>b eo ei. eo = ei) (\<lambda>_ _. True) (pktz x') (pktz y')"
proof -
  have "keys_shared (demo_keyed False) (demo_keyed True)"
    using demo_mpint
    by (simp add: keys_shared_def has_secrets_def demo_secrets)
      (auto simp: demo_keyed_simps cipher_table_def mac_table_def compression_table_def)
  moreover have "in_step (crypto_of demo_lib) (\<lambda>b eo ei. eo = ei) (\<lambda>_ _. True) (pktz (demo_keyed False)) (pktz (demo_keyed True))"
    by (simp add: demo_keyed_simps in_step_def Packetizer_init_def u32_ok_def)
  ultimately show ?thesis using new_keys_in_step [OF demo_lib_ok] by blast
qed

end
