(* ===== verification/Transport_Agreement.thy ===== *)
theory Transport_Agreement
  imports Transport_Kexinit
begin

text \<open>
  What the negotiation of \<^verbatim>\<open>Transport_Kexinit\<close> guarantees: a KEXINIT that one end wrote is read by
  the other as it was meant, and both ends choose the same algorithms, or both give up for the
  same reason. The proof runs both ends in lockstep.
\<close>

section \<open>Names of algorithms\<close>

text \<open>The names in the tables: not empty, ASCII, without comma, and not one of the markers.\<close>

definition name_ok :: "pystr \<Rightarrow> bool" where
  "name_ok x \<longleftrightarrow> x \<noteq> [] \<and> list_all (\<lambda>b. b < 0x80 \<and> b \<noteq> comma) x"

lemma name_ok_lit: "name_ok (lit s) \<longleftrightarrow> s \<noteq> [] \<and> list_all (\<lambda>c. of_char c < (0x80 :: byte) \<and> of_char c \<noteq> comma) s"
  by (simp add: name_ok_def lit_def list_all_length)

lemma cert_name_ok: "name_ok x \<Longrightarrow> name_ok (cert_variant x)"
  by (auto simp: name_ok_def cert_variant_def lit_def comma_def)

lemma table_names:
  "\<forall>x \<in> fst ` set cipher_table. name_ok x" "\<forall>x \<in> fst ` set mac_table. name_ok x"
  "\<forall>x \<in> fst ` set key_table. name_ok x" "\<forall>x \<in> fst ` set (kex_table b). name_ok x"
  "\<forall>x \<in> fst ` set compression_table. name_ok x"
  by (simp_all add: cipher_table_def mac_table_def key_table_def kex_table_def compression_table_def
      name_ok_lit comma_def)

lemma kex_names: "\<forall>x \<in> fst ` set (kex_table b). name_ok x \<and> \<not> is_marker x"
  using table_names(4) [of b]
  by (simp add: kex_table_def is_marker_def startswith_def lit_def)

lemma marker_names: "name_ok (strict_marker b)" "name_ok (lit ''ext-info-c'')"
  by (simp_all add: strict_marker_def name_ok_lit comma_def)

lemma markers: "is_marker (strict_marker b)" "is_marker (lit ''ext-info-c'')"
  by (simp_all add: strict_marker_def is_marker_def startswith_def lit_def)

lemma offered_names:
  assumes "known_security s"
  shows "\<forall>x \<in> set (preferred_ciphers s). name_ok x" "\<forall>x \<in> set (preferred_macs s). name_ok x"
    "\<forall>x \<in> set (preferred_kex s). name_ok x \<and> \<not> is_marker x" "\<forall>x \<in> set (preferred_compression s). name_ok x"
    "\<forall>x \<in> set (preferred_keys s). name_ok x"
proof -
  have sub: "\<forall>x \<in> A. P x" if "A \<subseteq> B" "\<forall>x \<in> B. P x" for A B :: "pystr set" and P
    using that by blast
  show "\<forall>x \<in> set (preferred_ciphers s). name_ok x"
    by (rule sub [OF preferred_known(1) [OF assms] table_names(1)])
  show "\<forall>x \<in> set (preferred_macs s). name_ok x"
    by (rule sub [OF preferred_known(2) [OF assms] table_names(2)])
  show "\<forall>x \<in> set (preferred_kex s). name_ok x \<and> \<not> is_marker x"
    by (rule sub [OF preferred_known(3) [OF assms] kex_names])
  show "\<forall>x \<in> set (preferred_compression s). name_ok x"
    by (rule sub [OF preferred_known(4) [OF assms] table_names(5)])
  have "set (filter_algorithm (lit ''keys'') (pref_keys s) s) \<subseteq> fst ` set key_table"
    using assms set_filter_algorithm [of "lit ''keys''" "pref_keys s" s] by (auto simp: known_security_def)
  then show "\<forall>x \<in> set (preferred_keys s). name_ok x"
    using table_names(3) by (auto simp: preferred_keys_def Let_def intro!: cert_name_ok)
qed

section \<open>Reading a KEXINIT\<close>

text \<open>An empty list is read as a list of one empty name.\<close>

definition wire :: "pystr list \<Rightarrow> pystr list" where
  "wire l = (if l = [] then [[]] else l)"

lemma join_ascii:
  "\<forall>x \<in> set l. name_ok x \<Longrightarrow> \<forall>b \<in> set (join_with [comma] l). b < 0x80"
  by (induction "[comma]" l rule: join_with.induct) (auto simp: name_ok_def list_all_iff comma_def)

lemma get_list_wire:
  assumes names: "\<forall>x \<in> set l. name_ok x" and size: "string_ok (join_with [comma] l)"
  shows "get_list (reading pre (enc_list l @ post)) = (Inr (wire l), reading (pre @ enc_list l) post)"
proof (cases "l = []")
  case True
  have "text_ok []" by (simp add: text_ok_def string_ok_def)
  from text_codec.get_enc [OF this] show ?thesis
    by (simp add: True get_list_def pbind_def pret_def enc_list_def wire_def)
next
  case False
  have "text_ok (join_with [comma] l)" using join_ascii [OF names] size by (simp add: text_ok_def utf8_valid_ascii)
  moreover have "\<forall>w \<in> set l. comma \<notin> set w" using names by (auto simp: name_ok_def list_all_iff)
  ultimately have "list_ok l" using False by (simp add: list_ok_def)
  from list_codec.get_enc [OF this] show ?thesis by (simp add: wire_def False)
qed

text \<open>The lists of a KEXINIT, in the order of the message.\<close>

definition kexinit_read ::
  "pystr list \<Rightarrow> pystr list \<Rightarrow> ('e, 'z, 'y) kexing_scheme \<Rightarrow> parsed_kexinit" where
  "kexinit_read kex_algos keys s =
     \<lparr>kex_algo_list = wire kex_algos, server_key_algo_list = wire keys,
      client_encrypt_algo_list = wire (preferred_ciphers s), server_encrypt_algo_list = wire (preferred_ciphers s),
      client_mac_algo_list = wire (preferred_macs s), server_mac_algo_list = wire (preferred_macs s),
      client_compress_algo_list = wire (preferred_compression s),
      server_compress_algo_list = wire (preferred_compression s),
      client_lang_list = [[]], server_lang_list = [[]], kex_follows = False\<rparr>"

lemma Message_init_tl: "Message_init (Some b) = reading [] b"
  by (simp add: Message_init_def reading_def)

lemma kexinit_read_back:
  assumes m: "message_of (kexinit_fields cookie kex_algos keys s) = Inr m" and cookie: "length cookie = 16"
    and known: "known_security s" and names: "\<forall>x \<in> set kex_algos. name_ok x" "\<forall>x \<in> set keys. name_ok x"
  shows "hd m = MSG_KEXINIT \<and> m \<noteq> [] \<and>
         really_parse_kex_init False (Message_init (Some (tl m))) =
           (Inr (kexinit_read kex_algos keys s), reading (tl m) [])"
proof -
  have enc: "m = enc_fields (kexinit_fields cookie kex_algos keys s)"
    by (rule message_of_Inr [OF m]) (simp add: kexinit_fields_def)
  have sized: "list_all field_sized (kexinit_fields cookie kex_algos keys s)"
    by (rule message_of_sized [OF m])
  have none: "\<forall>x \<in> set ([] :: pystr list). name_ok x" by simp
  have size0: "string_ok (join_with [comma] [])" "u32_ok 0" by (simp_all add: string_ok_def u32_ok_def)
  have lang: "enc_string [] = enc_list []" by (simp add: enc_list_def)
  note readers = get_list_wire [OF names(1)] get_list_wire [OF names(2)] get_list_wire [OF none size0(1)]
    offered_names(1,2,4) [OF known, THEN get_list_wire]
  have raw: "get_bytes 16 (reading pre (cookie @ post)) = (Inr cookie, reading (pre @ cookie) post)" for pre post
    using get_bytes_exact [of cookie 16 pre post] cookie by simp
  show ?thesis
    using sized int_codec.get_enc [OF size0(2), where post = "[]"]
    by (simp add: boolean_codec.get_enc enc enc_fields_def kexinit_fields_def Message_init_tl really_parse_kex_init_def pbind_def pret_def
        raw readers lang kexinit_read_def wire_def append_assoc)
qed

section \<open>Two ends in lockstep\<close>

text \<open>\<open>lockstep P m n Q I\<close>: from states related by \<open>P\<close> both operations raise the same exception and
  leave \<open>I\<close>, or both return and leave \<open>Q\<close>.\<close>

definition lockstep ::
  "('s \<Rightarrow> 't \<Rightarrow> bool) \<Rightarrow> ('s, unit) py \<Rightarrow> ('t, unit) py \<Rightarrow> ('s \<Rightarrow> 't \<Rightarrow> bool) \<Rightarrow> ('s \<Rightarrow> 't \<Rightarrow> bool) \<Rightarrow> bool" where
  "lockstep P m n Q I \<longleftrightarrow>
     (\<forall>x y. P x y \<longrightarrow>
        (\<exists>e x' y'. m x = (Inl e, x') \<and> n y = (Inl e, y') \<and> I x' y') \<or>
        (\<exists>x' y'. m x = (Inr (), x') \<and> n y = (Inr (), y') \<and> Q x' y'))"

lemma lockstep_bind:
  "lockstep P m n Q I \<Longrightarrow> lockstep Q m' n' R I \<Longrightarrow> lockstep P (pbind m (\<lambda>_. m')) (pbind n (\<lambda>_. n')) R I"
  unfolding lockstep_def
proof (intro allI impI)
  fix x y
  assume m: "\<forall>x y. P x y \<longrightarrow> (\<exists>e x' y'. m x = (Inl e, x') \<and> n y = (Inl e, y') \<and> I x' y') \<or>
      (\<exists>x' y'. m x = (Inr (), x') \<and> n y = (Inr (), y') \<and> Q x' y')"
    and m': "\<forall>x y. Q x y \<longrightarrow> (\<exists>e x' y'. m' x = (Inl e, x') \<and> n' y = (Inl e, y') \<and> I x' y') \<or>
      (\<exists>x' y'. m' x = (Inr (), x') \<and> n' y = (Inr (), y') \<and> R x' y')" and "P x y"
  from m \<open>P x y\<close> consider e x' y' where "m x = (Inl e, x')" "n y = (Inl e, y')" "I x' y'"
    | x' y' where "m x = (Inr (), x')" "n y = (Inr (), y')" "Q x' y'" by blast
  then show "(\<exists>e x' y'. pbind m (\<lambda>_. m') x = (Inl e, x') \<and> pbind n (\<lambda>_. n') y = (Inl e, y') \<and> I x' y') \<or>
      (\<exists>x' y'. pbind m (\<lambda>_. m') x = (Inr (), x') \<and> pbind n (\<lambda>_. n') y = (Inr (), y') \<and> R x' y')"
    by cases (use m' in \<open>auto simp: pbind_Inl pbind_Inr\<close>)
qed

lemma lockstep_modify:
  "(\<And>x y. P x y \<Longrightarrow> Q (f x) (g y)) \<Longrightarrow> lockstep P (pmodify f) (pmodify g) Q I"
  by (simp add: lockstep_def pmodify_def)

text \<open>The choice that both ends make: the first of the client's list that is also in the
  server's.\<close>

lemma agree_server: "[] \<notin> set S \<Longrightarrow> agree True S (wire C) = filter (\<lambda>x. x \<in> set S) C"
  by (simp add: agree_def wire_def)

lemma agree_client: "[] \<notin> set C \<Longrightarrow> agree False C (wire S) = filter (\<lambda>x. x \<in> set S) C"
  by (auto simp: agree_def wire_def filter_empty_conv)

lemma name_not_empty: "\<forall>x \<in> set l. name_ok x \<Longrightarrow> [] \<notin> set l"
  by (auto simp: name_ok_def)

text \<open>What stays fixed while two ends negotiate, \<open>c\<close> the client and \<open>s\<close> the server after they sent
  their messages \<open>mc\<close> and \<open>ms\<close>.\<close>

definition negotiating ::
  "('e, 'z, 'y) kexing_scheme \<Rightarrow> ('e, 'z, 'y) kexing_scheme \<Rightarrow> bytes \<Rightarrow> bytes \<Rightarrow> bool
   \<Rightarrow> ('e, 'z, 'y) kexing_scheme \<Rightarrow> ('e, 'z, 'y) kexing_scheme \<Rightarrow> bool" where
  "negotiating c s mc ms strict x y \<longleftrightarrow>
     security.truncate x = security.truncate c \<and> security.truncate y = security.truncate s \<and>
     \<not> server_mode x \<and> server_mode y \<and> server_key_dict y = server_key_dict s \<and>
     local_kex_init x = Some mc \<and> local_kex_init y = Some ms \<and>
     agreed_on_strict_kex x = strict \<and> agreed_on_strict_kex y = strict"

lemma preferred_truncate:
  assumes "security.truncate x = security.truncate c"
  shows "preferred_ciphers x = preferred_ciphers c" "preferred_macs x = preferred_macs c"
    "preferred_kex x = preferred_kex c" "preferred_compression x = preferred_compression c"
    "preferred_keys x = preferred_keys c" "has_curve25519 x = has_curve25519 c"
proof -
  have fields: "pref_ciphers x = pref_ciphers c" "pref_macs x = pref_macs c" "pref_kex x = pref_kex c"
    "pref_compression x = pref_compression c" "pref_keys x = pref_keys c"
    "disabled_algorithms x = disabled_algorithms c"
    using assms by (auto simp add: security.truncate_def)
  show "preferred_ciphers x = preferred_ciphers c" "preferred_macs x = preferred_macs c"
    "preferred_kex x = preferred_kex c" "preferred_compression x = preferred_compression c"
    "preferred_keys x = preferred_keys c"
    by (simp_all only: preferred_ciphers_def preferred_macs_def preferred_kex_def
        preferred_compression_def preferred_keys_def filter_algorithm_def fields)
  show "has_curve25519 x = has_curve25519 c" using assms by (auto simp add: security.truncate_def)
qed

lemma available_truncate:
  "security.truncate y = security.truncate s \<Longrightarrow> server_key_dict y = server_key_dict s \<Longrightarrow>
   available_server_keys y = available_server_keys s"
  by (simp only: available_server_keys_def preferred_truncate(5) [of y s])

lemma lockstep_pair:
  assumes P: "\<And>x y. P x y \<Longrightarrow> pref x = C \<and> pref' y = S \<and> \<not> server_mode x \<and> server_mode y \<and> I x y"
    and Q: "\<And>x y a. P x y \<Longrightarrow> a \<in> set C \<Longrightarrow> a \<in> set S \<Longrightarrow> Q (setter a a x) (setter' a a y)"
    and names: "\<forall>x \<in> set C. name_ok x" "\<forall>x \<in> set S. name_ok x"
  shows "lockstep P (agree_on_pair what pref (wire S) (wire S) setter)
           (agree_on_pair what pref' (wire C) (wire C) setter') Q I"
  unfolding lockstep_def
proof (intro allI impI)
  fix x y assume "P x y"
  note agreed = P [OF \<open>P x y\<close>] agree_client [OF name_not_empty [OF names(1)], of S]
    agree_server [OF name_not_empty [OF names(2)], of C]
  show "(\<exists>e x' y'. agree_on_pair what pref (wire S) (wire S) setter x = (Inl e, x') \<and>
          agree_on_pair what pref' (wire C) (wire C) setter' y = (Inl e, y') \<and> I x' y') \<or>
        (\<exists>x' y'. agree_on_pair what pref (wire S) (wire S) setter x = (Inr (), x') \<and>
          agree_on_pair what pref' (wire C) (wire C) setter' y = (Inr (), y') \<and> Q x' y')"
  proof (cases "filter (\<lambda>x. x \<in> set S) C")
    case Nil
    then show ?thesis by (simp add: agree_on_pair_def agreed Let_def)
  next
    case (Cons a l)
    then have "a \<in> set C \<and> a \<in> set S" by (auto dest: filter_eq_ConsD)
    with Cons Q [OF \<open>P x y\<close>, of a] show ?thesis by (simp add: agree_on_pair_def agreed Let_def)
  qed
qed

text \<open>The same name stands for the same key exchange, with and without Curve25519.\<close>

lemma kex_table_same: "a \<in> fst ` set (kex_table b) \<Longrightarrow> \<exists>k. map_of (kex_table b) a = Some k \<and> map_of (kex_table True) a = Some k"
proof -
  assume "a \<in> fst ` set (kex_table b)"
  then obtain k where k: "map_of (kex_table b) a = Some k" by (metis map_of_eq_None_iff not_Some_eq)
  moreover have "map_of (kex_table True) a = Some k"
  proof (cases b)
    case False
    have "kex_table True = kex_table False @ [(lit ''curve25519-sha256@libssh.org'', KexCurve25519)]"
      by (simp add: kex_table_def)
    with k False show ?thesis by (simp add: map_add_Some_iff)
  qed (use k in simp)
  ultimately show ?thesis by blast
qed

lemma lockstep_kex:
  assumes P: "\<And>x y. P x y \<Longrightarrow> preferred_kex x = C \<and> preferred_kex y = S \<and> \<not> server_mode x \<and> server_mode y
      \<and> has_curve25519 x = bc \<and> has_curve25519 y = bs \<and> I x y"
    and Q: "\<And>x y a k. P x y \<Longrightarrow> Q (x\<lparr>kex_engine := Some k, kex_x := 0, kex_e := 0, kex_f := 0, kex_gex := KexGex_init\<rparr>)
        (y\<lparr>kex_engine := Some k, kex_x := 0, kex_e := 0, kex_f := 0, kex_gex := KexGex_init\<rparr>)"
    and known: "set C \<subseteq> fst ` set (kex_table bc)" "set S \<subseteq> fst ` set (kex_table bs)"
    and offer: "agree False C Os = filter (\<lambda>x. x \<in> set S) C" "agree True S Oc = filter (\<lambda>x. x \<in> set S) C"
  shows "lockstep P (agree_on_kex Os) (agree_on_kex Oc) Q I"
  unfolding lockstep_def
proof (intro allI impI)
  fix x y assume "P x y"
  note facts = P [OF \<open>P x y\<close>] offer
  show "(\<exists>e x' y'. agree_on_kex Os x = (Inl e, x') \<and> agree_on_kex Oc y = (Inl e, y') \<and> I x' y') \<or>
        (\<exists>x' y'. agree_on_kex Os x = (Inr (), x') \<and> agree_on_kex Oc y = (Inr (), y') \<and> Q x' y')"
  proof (cases "filter (\<lambda>x. x \<in> set S) C")
    case Nil
    then show ?thesis by (simp add: agree_on_kex_def facts)
  next
    case (Cons a l)
    then have "a \<in> set C" "a \<in> set S" by (auto dest: filter_eq_ConsD)
    with known have "a \<in> fst ` set (kex_table bc)" "a \<in> fst ` set (kex_table bs)" by blast+
    from this [THEN kex_table_same] obtain k where
      "map_of (kex_table bc) a = Some k" "map_of (kex_table bs) a = Some k" by auto
    with Cons Q [OF \<open>P x y\<close>, of k] show ?thesis by (simp add: agree_on_kex_def facts)
  qed
qed

lemma lockstep_host_key:
  assumes P: "\<And>x y. P x y \<Longrightarrow> preferred_keys x = C \<and> available_server_keys y = S \<and> \<not> server_mode x \<and> server_mode y \<and> I x y"
    and Q: "\<And>x y a. P x y \<Longrightarrow> Q (x\<lparr>host_key_type := Some a\<rparr>) (y\<lparr>host_key_type := Some a\<rparr>)"
    and names: "\<forall>x \<in> set C. name_ok x" "\<forall>x \<in> set S. name_ok x"
  shows "lockstep P (agree_on_host_key (wire S)) (agree_on_host_key (wire C)) Q I"
  unfolding lockstep_def
proof (intro allI impI)
  fix x y assume "P x y"
  note facts = P [OF \<open>P x y\<close>] agree_client [OF name_not_empty [OF names(1)], of S]
    agree_server [OF name_not_empty [OF names(2)], of C]
  show "(\<exists>e x' y'. agree_on_host_key (wire S) x = (Inl e, x') \<and> agree_on_host_key (wire C) y = (Inl e, y') \<and> I x' y') \<or>
        (\<exists>x' y'. agree_on_host_key (wire S) x = (Inr (), x') \<and> agree_on_host_key (wire C) y = (Inr (), y') \<and> Q x' y')"
  proof (cases "filter (\<lambda>x. x \<in> set S) C")
    case Nil
    then show ?thesis by (simp add: agree_on_host_key_def facts)
  next
    case (Cons a l)
    then have "a \<in> set S" by (auto dest: filter_eq_ConsD)
    then have "a \<in> set (available_server_keys y)" by (simp add: facts)
    then have "map_of (server_key_dict y) a \<noteq> None" by (auto simp: available_server_keys_def map_of_eq_None_iff)
    with Cons Q [OF \<open>P x y\<close>, of a] show ?thesis
      by (simp add: agree_on_host_key_def get_server_key_def facts Let_def)
  qed
qed

section \<open>The markers\<close>

lemma note_markers_none: "\<forall>x \<in> set l. \<not> is_marker x \<Longrightarrow> fold note_marker l t = t"
  by (induction l) (simp_all add: note_marker_def is_marker_def)

lemma note_strict_marker:
  "note_marker (strict_marker b) t =
     t\<lparr>agreed_on_strict_kex := (b = (\<not> server_mode t) \<and> advertise_strict_kex t)\<rparr>"
proof -
  have "\<not> startswith (strict_marker b) (lit ''ext-info-'')" "startswith (strict_marker b) (lit ''kex-strict-'')"
    by (simp_all add: strict_marker_def startswith_def lit_def)
  moreover have "strict_marker b = strict_marker b' \<longleftrightarrow> b = b'" for b' by (simp add: strict_marker_def)
  ultimately show ?thesis by (simp add: note_marker_def)
qed

lemma note_ext_info: "note_marker (lit ''ext-info-c'') t = t\<lparr>remote_ext_info := Some (lit ''ext-info-c'')\<rparr>"
  by (simp add: note_marker_def startswith_def lit_def)

lemma filter_markers: "\<forall>x \<in> set l. \<not> is_marker x \<Longrightarrow> filter (\<lambda>x. \<not> is_marker x) l = l"
  by (simp add: filter_id_conv)

section \<open>Both ends agree\<close>

definition client_kex_algos :: "('e, 'z, 'y) kexing_scheme \<Rightarrow> pystr list" where
  "client_kex_algos c = preferred_kex c @ [lit ''ext-info-c''] @ (if advertise_strict_kex c then [strict_marker False] else [])"

definition server_kex_algos :: "('e, 'z, 'y) kexing_scheme \<Rightarrow> pystr list" where
  "server_kex_algos s = preferred_kex s @ (if advertise_strict_kex s then [strict_marker True] else [])"

text \<open>What two ends have agreed on: the same key exchange and host key, and for each direction the
  same algorithms, which both of them offered.\<close>

definition agreed_kex :: "('e, 'z, 'y) kexing_scheme \<Rightarrow> ('e, 'z, 'y) kexing_scheme \<Rightarrow> bool" where
  "agreed_kex x y \<longleftrightarrow> (\<exists>k. kex_engine x = Some k \<and> kex_engine y = Some k)"

definition agreed_host_key :: "('e, 'z, 'y) kexing_scheme \<Rightarrow> ('e, 'z, 'y) kexing_scheme \<Rightarrow> bool" where
  "agreed_host_key x y \<longleftrightarrow> (\<exists>t. host_key_type x = Some t \<and> host_key_type y = Some t)"

definition agreed_ciphers :: "('e, 'z, 'y) kexing_scheme \<Rightarrow> ('e, 'z, 'y) kexing_scheme \<Rightarrow> bool" where
  "agreed_ciphers x y \<longleftrightarrow>
     local_cipher x = remote_cipher y \<and> remote_cipher x = local_cipher y \<and>
     {local_cipher x, remote_cipher x} \<subseteq> set (preferred_ciphers x) \<inter> set (preferred_ciphers y)"

definition agreed_macs :: "('e, 'z, 'y) kexing_scheme \<Rightarrow> ('e, 'z, 'y) kexing_scheme \<Rightarrow> bool" where
  "agreed_macs x y \<longleftrightarrow>
     (\<exists>a b. local_mac x = Some a \<and> remote_mac y = Some a \<and> remote_mac x = Some b \<and> local_mac y = Some b \<and>
        {a, b} \<subseteq> set (preferred_macs x) \<inter> set (preferred_macs y))"

definition agreed_compression :: "('e, 'z, 'y) kexing_scheme \<Rightarrow> ('e, 'z, 'y) kexing_scheme \<Rightarrow> bool" where
  "agreed_compression x y \<longleftrightarrow>
     (\<exists>a b. local_compression x = Some a \<and> remote_compression y = Some a \<and> remote_compression x = Some b \<and> local_compression y = Some b \<and>
        {a, b} \<subseteq> set (preferred_compression x) \<inter> set (preferred_compression y))"

lemmas agreed_defs =
  agreed_kex_def agreed_host_key_def agreed_ciphers_def agreed_macs_def agreed_compression_def

lemma preferred_updates [simp]:
  "preferred_ciphers (x\<lparr>local_cipher := a\<rparr>) = preferred_ciphers x"
  "preferred_ciphers (x\<lparr>remote_cipher := a\<rparr>) = preferred_ciphers x"
  "preferred_ciphers (x\<lparr>local_mac := b\<rparr>) = preferred_ciphers x"
  "preferred_ciphers (x\<lparr>remote_mac := b\<rparr>) = preferred_ciphers x"
  "preferred_ciphers (x\<lparr>local_compression := b\<rparr>) = preferred_ciphers x"
  "preferred_ciphers (x\<lparr>remote_compression := b\<rparr>) = preferred_ciphers x"
  "preferred_macs (x\<lparr>local_mac := b\<rparr>) = preferred_macs x"
  "preferred_macs (x\<lparr>remote_mac := b\<rparr>) = preferred_macs x"
  "preferred_macs (x\<lparr>local_compression := b\<rparr>) = preferred_macs x"
  "preferred_macs (x\<lparr>remote_compression := b\<rparr>) = preferred_macs x"
  "preferred_compression (x\<lparr>local_compression := b\<rparr>) = preferred_compression x"
  "preferred_compression (x\<lparr>remote_compression := b\<rparr>) = preferred_compression x"
  by (rule preferred_truncate, simp add: security.truncate_def)+

lemma fold_wire: "fold note_marker (wire l) t = fold note_marker l t"
  by (simp add: wire_def note_marker_def startswith_def lit_def)

lemma markers_in_lockstep:
  assumes modes: "\<not> server_mode c" "server_mode s" and strict: "\<not> agreed_on_strict_kex c" "\<not> agreed_on_strict_kex s"
    and names: "\<forall>x \<in> set (preferred_kex c). \<not> is_marker x" "\<forall>x \<in> set (preferred_kex s). \<not> is_marker x"
    and sent: "local_kex_init c = Some mc" "local_kex_init s = Some ms"
  shows "negotiating c s mc ms (advertise_strict_kex c \<and> advertise_strict_kex s)
           (fold note_marker (wire (server_kex_algos s)) (c\<lparr>remote_ext_info := None\<rparr>))
           (fold note_marker (wire (client_kex_algos c)) (s\<lparr>remote_ext_info := None\<rparr>))"
  by (simp add: server_kex_algos_def client_kex_algos_def fold_wire note_markers_none names note_strict_marker
      note_ext_info negotiating_def modes strict sent security.truncate_def)

lemma marker_filters:
  assumes "\<forall>x \<in> set (preferred_kex c). name_ok x \<and> \<not> is_marker x" "\<forall>x \<in> set (preferred_kex s). name_ok x \<and> \<not> is_marker x"
  shows "agree False (preferred_kex c) (filter (\<lambda>x. \<not> is_marker x) (wire (server_kex_algos s))) =
           filter (\<lambda>x. x \<in> set (preferred_kex s)) (preferred_kex c)"
    and "agree True (preferred_kex s) (filter (\<lambda>x. \<not> is_marker x) (wire (client_kex_algos c))) =
           filter (\<lambda>x. x \<in> set (preferred_kex s)) (preferred_kex c)"
proof -
  have "[] \<notin> set (preferred_kex c)" using assms(1) by (auto simp: name_ok_def)
  then show "agree False (preferred_kex c) (filter (\<lambda>x. \<not> is_marker x) (wire (server_kex_algos s))) =
           filter (\<lambda>x. x \<in> set (preferred_kex s)) (preferred_kex c)"
    using assms markers by (auto simp: agree_def wire_def server_kex_algos_def intro!: filter_cong)
  show "agree True (preferred_kex s) (filter (\<lambda>x. \<not> is_marker x) (wire (client_kex_algos c))) =
           filter (\<lambda>x. x \<in> set (preferred_kex s)) (preferred_kex c)"
    using assms markers by (simp add: agree_def wire_def client_kex_algos_def filter_id_conv)
qed

lemma choose_in_lockstep:
  assumes known: "known_security c" "known_security s" and modes: "\<not> server_mode c" "server_mode s"
    and strict: "\<not> agreed_on_strict_kex c" "\<not> agreed_on_strict_kex s"
    and sent: "local_kex_init c = Some mc" "local_kex_init s = Some ms"
  defines "I \<equiv> negotiating c s mc ms (advertise_strict_kex c \<and> advertise_strict_kex s)"
  shows "lockstep (\<lambda>x y. x = c \<and> y = s)
           (choose_algorithms (kexinit_read (server_kex_algos s) (available_server_keys s) s) 0)
           (choose_algorithms (kexinit_read (client_kex_algos c) (preferred_keys c) c) 0)
           (\<lambda>x y. I x y \<and> agreed_kex x y \<and> agreed_host_key x y \<and> agreed_ciphers x y \<and> agreed_macs x y
                  \<and> agreed_compression x y) I"
proof -
  have I: "preferred_ciphers x = preferred_ciphers c" "preferred_macs x = preferred_macs c" 
      "preferred_kex x = preferred_kex c" "preferred_compression x = preferred_compression c"
      "preferred_keys x = preferred_keys c" "has_curve25519 x = has_curve25519 c" "\<not> server_mode x"
      "preferred_ciphers y = preferred_ciphers s" "preferred_macs y = preferred_macs s" 
      "preferred_kex y = preferred_kex s" "preferred_compression y = preferred_compression s"
      "available_server_keys y = available_server_keys s" "has_curve25519 y = has_curve25519 s" "server_mode y"
    if "I x y" for x y
    using that preferred_truncate [of x c] preferred_truncate [of y s] available_truncate [of y s]
    unfolding I_def negotiating_def by blast+
  have avail: "\<forall>x \<in> set (available_server_keys s). name_ok x"
    using offered_names(5) [OF known(2)] by (simp add: available_server_keys_def)
  have I_upd: "I (x\<lparr>kex_engine := a, kex_x := 0, kex_e := 0, kex_f := 0, kex_gex := KexGex_init\<rparr>) (y\<lparr>kex_engine := a, kex_x := 0, kex_e := 0, kex_f := 0, kex_gex := KexGex_init\<rparr>)" "I (x\<lparr>host_key_type := b\<rparr>) (y\<lparr>host_key_type := b\<rparr>)"
      "I (x\<lparr>local_cipher := d, remote_cipher := d\<rparr>) (y\<lparr>local_cipher := d, remote_cipher := d\<rparr>)"
      "I (x\<lparr>local_mac := b, remote_mac := b\<rparr>) (y\<lparr>local_mac := b, remote_mac := b\<rparr>)"
      "I (x\<lparr>local_compression := b, remote_compression := b\<rparr>) (y\<lparr>local_compression := b, remote_compression := b\<rparr>)"
    if "I x y" for x y a b d
    using that by (simp_all add: I_def negotiating_def security.truncate_def)
  show ?thesis
    unfolding choose_algorithms_def kexinit_read_def parsed_kexinit.simps Let_def
  proof (intro lockstep_bind)
    show "lockstep (\<lambda>x y. x = c \<and> y = s)
        (pmodify (\<lambda>x. fold note_marker (wire (server_kex_algos s)) (x\<lparr>remote_ext_info := None\<rparr>)))
        (pmodify (\<lambda>x. fold note_marker (wire (client_kex_algos c)) (x\<lparr>remote_ext_info := None\<rparr>))) I I"
      using markers_in_lockstep [OF modes strict _ _ sent] offered_names(3) [OF known(1)] offered_names(3) [OF known(2)]
      by (auto simp: I_def intro!: lockstep_modify)
    show "lockstep I (check_kex_order 0) (check_kex_order 0) I I"
      by (simp add: lockstep_def check_kex_order_def)
    show "lockstep I (agree_on_kex (filter (\<lambda>x. \<not> is_marker x) (wire (server_kex_algos s))))
        (agree_on_kex (filter (\<lambda>x. \<not> is_marker x) (wire (client_kex_algos c)))) (\<lambda>x y. I x y \<and> agreed_kex x y) I"
      by (rule lockstep_kex [OF _ _ preferred_known(3) [OF known(1)] preferred_known(3) [OF known(2)]
          marker_filters [OF offered_names(3) [OF known(1)] offered_names(3) [OF known(2)]]])
        (auto simp: I_upd agreed_defs dest: I)
    show "lockstep (\<lambda>x y. I x y \<and> agreed_kex x y) (agree_on_host_key (wire (available_server_keys s)))
        (agree_on_host_key (wire (preferred_keys c))) (\<lambda>x y. I x y \<and> agreed_kex x y \<and> agreed_host_key x y) I"
      by (rule lockstep_host_key [OF _ _ offered_names(5) [OF known(1)] avail]) (auto simp: I_upd agreed_defs dest: I)
    show "lockstep (\<lambda>x y. I x y \<and> agreed_kex x y \<and> agreed_host_key x y)
        (agree_on_pair ''Incompatible ssh server (no acceptable ciphers)'' preferred_ciphers (wire (preferred_ciphers s))
          (wire (preferred_ciphers s)) (\<lambda>a b s. s\<lparr>local_cipher := a, remote_cipher := b\<rparr>))
        (agree_on_pair ''Incompatible ssh server (no acceptable ciphers)'' preferred_ciphers (wire (preferred_ciphers c))
          (wire (preferred_ciphers c)) (\<lambda>a b s. s\<lparr>local_cipher := a, remote_cipher := b\<rparr>))
        (\<lambda>x y. I x y \<and> agreed_kex x y \<and> agreed_host_key x y \<and> agreed_ciphers x y) I"
      by (rule lockstep_pair [OF _ _ offered_names(1) [OF known(1)] offered_names(1) [OF known(2)]])
        (auto simp: I_upd agreed_defs dest: I)
    show "lockstep (\<lambda>x y. I x y \<and> agreed_kex x y \<and> agreed_host_key x y \<and> agreed_ciphers x y)
        (agree_on_pair ''Incompatible ssh server (no acceptable macs)'' preferred_macs (wire (preferred_macs s))
          (wire (preferred_macs s)) (\<lambda>a b s. s\<lparr>local_mac := Some a, remote_mac := Some b\<rparr>))
        (agree_on_pair ''Incompatible ssh server (no acceptable macs)'' preferred_macs (wire (preferred_macs c))
          (wire (preferred_macs c)) (\<lambda>a b s. s\<lparr>local_mac := Some a, remote_mac := Some b\<rparr>))
        (\<lambda>x y. I x y \<and> agreed_kex x y \<and> agreed_host_key x y \<and> agreed_ciphers x y \<and> agreed_macs x y) I"
      by (rule lockstep_pair [OF _ _ offered_names(2) [OF known(1)] offered_names(2) [OF known(2)]])
        (auto simp: I_upd agreed_defs dest: I)
    show "lockstep (\<lambda>x y. I x y \<and> agreed_kex x y \<and> agreed_host_key x y \<and> agreed_ciphers x y \<and> agreed_macs x y)
        (agree_on_pair ''Incompatible ssh server (no acceptable compression)'' preferred_compression
          (wire (preferred_compression s)) (wire (preferred_compression s))
          (\<lambda>a b s. s\<lparr>local_compression := Some a, remote_compression := Some b\<rparr>))
        (agree_on_pair ''Incompatible ssh server (no acceptable compression)'' preferred_compression
          (wire (preferred_compression c)) (wire (preferred_compression c))
          (\<lambda>a b s. s\<lparr>local_compression := Some a, remote_compression := Some b\<rparr>))
        (\<lambda>x y. I x y \<and> agreed_kex x y \<and> agreed_host_key x y \<and> agreed_ciphers x y \<and> agreed_macs x y
               \<and> agreed_compression x y) I"
      by (rule lockstep_pair [OF _ _ offered_names(4) [OF known(1)] offered_names(4) [OF known(2)]])
        (auto simp: I_upd agreed_defs dest: I)
  qed
qed

section \<open>The exchange of KEXINIT\<close>

lemma kexinit_fields_truncate:
  "security.truncate x = security.truncate s \<Longrightarrow> kexinit_fields k a b x = kexinit_fields k a b s"
  by (simp only: kexinit_fields_def preferred_truncate [of x s])

definition after_kex_init :: "bytes \<Rightarrow> ('e, 'z, 'y) kexing_scheme \<Rightarrow> ('e, 'z, 'y) kexing_scheme" where
  "after_kex_init m s =
     s\<lparr>clear_to_send := False, gss_kex_used := False, in_kex := True, local_kex_init := Some m, latest_kex_init := Some m\<rparr>"

lemma truncate_after: "security.truncate (after_kex_init m s) = security.truncate s"
  by (simp add: after_kex_init_def security.truncate_def)

lemma make_kex_init_client:
  assumes "make_kex_init k c = (Inr m, c1)" "\<not> server_mode c"
  shows "message_of (kexinit_fields k (client_kex_algos c) (preferred_keys c) c) = Inr m \<and> c1 = after_kex_init m c"
proof -
  define t where "t = c\<lparr>clear_to_send := False, gss_kex_used := False, in_kex := True\<rparr>"
  have t: "security.truncate t = security.truncate c" "server_mode t = server_mode c"
    "advertise_strict_kex t = advertise_strict_kex c"
    by (simp_all add: t_def security.truncate_def)
  then show ?thesis
    using assms preferred_truncate [OF t(1)] kexinit_fields_truncate [OF t(1), of k "client_kex_algos c" "preferred_keys c"]
    by (auto simp: make_kex_init_def pbind_def pmodify_def pget_def pret_def plift_def after_kex_init_def
        client_kex_algos_def Let_def t_def [symmetric] t(2,3) split: sum.splits if_splits)
qed

lemma make_kex_init_server:
  assumes "make_kex_init k s = (Inr m, s1)" "server_mode s" "has_modulus_pack s \<or> (\<forall>x \<in> set (preferred_kex s). \<not> mp_required x)"
  shows "message_of (kexinit_fields k (server_kex_algos s) (available_server_keys s) s) = Inr m \<and> s1 = after_kex_init m s"
proof -
  define t where "t = s\<lparr>clear_to_send := False, gss_kex_used := False, in_kex := True\<rparr>"
  have t: "security.truncate t = security.truncate s" "server_key_dict t = server_key_dict s" "server_mode t = server_mode s"
    "advertise_strict_kex t = advertise_strict_kex s" "has_modulus_pack t = has_modulus_pack s"
    by (simp_all add: t_def security.truncate_def)
  have "filter mp_required (preferred_kex s) = []" if "\<not> has_modulus_pack s" using assms(3) that by simp
  then have "drop_group_exchange (preferred_kex s) t = (Inr (), t)"
    by (auto simp: drop_group_exchange_def pret_def t)
  then show ?thesis
    using assms(1,2) available_truncate [OF t(1,2)] preferred_truncate [OF t(1)]
      kexinit_fields_truncate [OF t(1), of k "server_kex_algos s" "available_server_keys s"]
    by (auto simp: make_kex_init_def pbind_def pmodify_def pget_def pret_def plift_def after_kex_init_def
        server_kex_algos_def Let_def t_def [symmetric] t(3,4) split: sum.splits if_splits)
qed

lemma known_truncate: "security.truncate x = security.truncate s \<Longrightarrow> known_security x = known_security s"
  by (auto simp: known_security_def security.truncate_def)

lemma kex_algos_names:
  assumes "known_security c"
  shows "\<forall>x \<in> set (client_kex_algos c). name_ok x" "\<forall>x \<in> set (server_kex_algos c). name_ok x"
  using offered_names(3) [OF assms] marker_names by (auto simp: client_kex_algos_def server_kex_algos_def)

lemma parse_kex_init_read:
  assumes "really_parse_kex_init False (Message_init (Some b)) = (Inr p, reading b [])"
  shows "parse_kex_init (Message_init (Some b)) seqno =
     pbind (choose_algorithms p seqno) (\<lambda>_. pmodify (\<lambda>s. s\<lparr>remote_kex_init := Some (MSG_KEXINIT # b)\<rparr>))"
  by (rule ext)
    (simp add: parse_kex_init_def on_message_def assms pbind_def pmodify_def get_so_far_reading
      split: prod.splits sum.splits)

lemma after_fields:
  "advertise_strict_kex (after_kex_init m c) = advertise_strict_kex c"
  "server_key_dict (after_kex_init m c) = server_key_dict c"
  by (simp_all add: after_kex_init_def)

lemma after_kex_algos:
  "client_kex_algos (after_kex_init m c) = client_kex_algos c"
  "server_kex_algos (after_kex_init m c) = server_kex_algos c"
  "available_server_keys (after_kex_init m c) = available_server_keys c"
  "kexinit_read a b (after_kex_init m c) = kexinit_read a b c"
  by (simp_all only: client_kex_algos_def server_kex_algos_def available_server_keys_def kexinit_read_def
      preferred_truncate [OF truncate_after] after_fields)


text \<open>Two small transports.\<close>

definition demo_end :: "bool \<Rightarrow> (unit, unit) kexing" where
  "demo_end server =
     (Kexing_init
        \<lparr>pref_ciphers = [lit ''aes128-ctr''], pref_macs = [lit ''hmac-sha1''], pref_keys = [lit ''ssh-rsa''],
         pref_pubkeys = [], pref_kex = [lit ''ecdh-sha2-nistp256''], pref_compression = [lit ''none''],
         disabled_algorithms = [], has_curve25519 = server\<rparr>
        (Packetizer_init [] [] 0) (lit ''SSH-2.0-x'') True True False)
     \<lparr>server_mode := server,
      server_key_dict := (if server then [(lit ''ssh-rsa'', \<lparr>hk_class = RSAKey, hk_name = lit ''ssh-rsa'', hk_blob = [1], hk_public_blob = None\<rparr>)] else [])\<rparr>"

lemma demo_end_config:
  "known_security (demo_end b)" "server_mode (demo_end b) = b" "\<not> agreed_on_strict_kex (demo_end b)"
  "preferred_kex (demo_end b) = [lit ''ecdh-sha2-nistp256'']" "advertise_strict_kex (demo_end b)"
  by (simp_all add: demo_end_def Kexing_init_def security.defs kexing.defs known_security_def preferred_kex_def
      filter_algorithm_def cipher_table_def mac_table_def key_table_def kex_table_def compression_table_def)

lemma demo_lists:
  "preferred_ciphers (demo_end b) = [lit ''aes128-ctr'']" "preferred_macs (demo_end b) = [lit ''hmac-sha1'']"
  "preferred_keys (demo_end b) = [lit ''ssh-rsa'', lit ''ssh-rsa-cert-v01@openssh.com'']"
  "preferred_compression (demo_end b) = [lit ''none'']" "available_server_keys (demo_end True) = [lit ''ssh-rsa'']"
  "has_curve25519 (demo_end b) = b" "initial_kex_done (demo_end b) = False"
  by (simp_all add: demo_end_def Kexing_init_def security.defs kexing.defs preferred_ciphers_def preferred_macs_def
      preferred_keys_def preferred_compression_def available_server_keys_def filter_algorithm_def Let_def cert_variant_def)
    (simp_all add: lit_def)

lemma demo_not_mp: "\<not> mp_required (lit ''ecdh-sha2-nistp256'')"
  by (simp add: mp_required_def startswith_def lit_def)

lemma pref_kex_update [simp]:
  "preferred_ciphers (t\<lparr>pref_kex := l\<rparr>) = preferred_ciphers t" "preferred_macs (t\<lparr>pref_kex := l\<rparr>) = preferred_macs t"
  "preferred_compression (t\<lparr>pref_kex := l\<rparr>) = preferred_compression t" "preferred_keys (t\<lparr>pref_kex := l\<rparr>) = preferred_keys t"
  by (simp_all add: preferred_ciphers_def preferred_macs_def preferred_compression_def preferred_keys_def filter_algorithm_def)

lemma pref_kex_update_keys [simp]: "available_server_keys (t\<lparr>pref_kex := l\<rparr>) = available_server_keys t"
  by (simp add: available_server_keys_def)

lemma make_kex_init_ok:
  assumes t: "t = x\<lparr>clear_to_send := False, gss_kex_used := False, in_kex := True\<rparr>"
    and ok: "list_all field_ok (kexinit_fields k (if server_mode x then server_kex_algos x else client_kex_algos x)
      (if server_mode x then available_server_keys x else preferred_keys x) x)"
    and drop: "server_mode x \<Longrightarrow> drop_group_exchange (preferred_kex x) t = (Inr (), t\<lparr>pref_kex := l\<rparr>)"
  shows "\<exists>m t'. make_kex_init k x = (Inr m, t')"
proof -
  have u: "security.truncate t = security.truncate x" "server_key_dict t = server_key_dict x" "server_mode t = server_mode x"
    "advertise_strict_kex t = advertise_strict_kex x"
    by (simp_all add: t security.truncate_def)
  have "kexinit_fields k a b (t\<lparr>pref_kex := l\<rparr>) = kexinit_fields k a b x" for a b
    by (simp add: kexinit_fields_def preferred_truncate [OF u(1)])
  then show ?thesis
    using message_of_ok [OF ok] drop available_truncate [OF u(1,2)] preferred_truncate [OF u(1)]
      kexinit_fields_truncate [OF u(1)]
    by (auto simp: make_kex_init_def pbind_def pmodify_def pget_def pret_def plift_def Let_def t [symmetric] u
        client_kex_algos_def server_kex_algos_def split: if_splits)
qed

lemma demo_make: "\<exists>m t. make_kex_init k (demo_end b) = (Inr m, t)"
proof (rule make_kex_init_ok [OF refl])
  show "list_all field_ok (kexinit_fields k (if server_mode (demo_end b) then server_kex_algos (demo_end b) else client_kex_algos (demo_end b))
      (if server_mode (demo_end b) then available_server_keys (demo_end b) else preferred_keys (demo_end b)) (demo_end b))"
    by (cases b) (simp_all add: kexinit_fields_def demo_lists demo_end_config server_kex_algos_def client_kex_algos_def
        strict_marker_def list_ok_def text_ok_def string_ok_def u32_ok_def lit_def comma_def)
  show "drop_group_exchange (preferred_kex (demo_end b)) (demo_end b\<lparr>clear_to_send := False, gss_kex_used := False, in_kex := True\<rparr>) =
      (Inr (), demo_end b\<lparr>clear_to_send := False, gss_kex_used := False, in_kex := True\<rparr>\<lparr>pref_kex := [lit ''ecdh-sha2-nistp256'']\<rparr>)"
    by (simp add: drop_group_exchange_def demo_end_config demo_not_mp pret_def)
      (simp add: demo_end_def Kexing_init_def security.defs kexing.defs)
qed

lemma demo_markers:
  "note_marker (lit ''ecdh-sha2-nistp256'') t = t" "\<not> is_marker (lit ''ecdh-sha2-nistp256'')"
  by (simp_all add: note_marker_def is_marker_def startswith_def lit_def)

lemma demo_chooses:
  "fst (choose_algorithms (kexinit_read (server_kex_algos (demo_end True)) [lit ''ssh-rsa''] (demo_end True)) 0
     (after_kex_init mc (demo_end False))) = Inr ()"
proof -
  have read: "kexinit_read (server_kex_algos (demo_end True)) [lit ''ssh-rsa''] (demo_end True) =
     \<lparr>kex_algo_list = [lit ''ecdh-sha2-nistp256'', strict_marker True], server_key_algo_list = [lit ''ssh-rsa''],
      client_encrypt_algo_list = [lit ''aes128-ctr''], server_encrypt_algo_list = [lit ''aes128-ctr''],
      client_mac_algo_list = [lit ''hmac-sha1''], server_mac_algo_list = [lit ''hmac-sha1''],
      client_compress_algo_list = [lit ''none''], server_compress_algo_list = [lit ''none''],
      client_lang_list = [[]], server_lang_list = [[]], kex_follows = False\<rparr>"
    by (simp add: kexinit_read_def server_kex_algos_def demo_lists demo_end_config wire_def)
  show ?thesis
    unfolding read choose_algorithms_def parsed_kexinit.simps Let_def
    by (simp add: pbind_def pmodify_def note_strict_marker demo_markers markers check_kex_order_def agree_on_kex_def
        agree_on_host_key_def agree_on_pair_def agree_def after_kex_init_def demo_end_def Kexing_init_def security.defs
        kexing.defs preferred_ciphers_def preferred_macs_def preferred_keys_def preferred_kex_def
        preferred_compression_def filter_algorithm_def kex_table_def)
qed


section \<open>Group exchange without primes\<close>

lemma drop_group_exchange_done:
  assumes "known_security t" "\<not> has_modulus_pack t" "g \<in> set l" "mp_required g"
  shows "drop_group_exchange l t = (Inr (), t\<lparr>pref_kex := filter (\<lambda>k. \<not> mp_required k) (pref_kex t)\<rparr>)"
proof -
  have "filter mp_required l \<noteq> []" using assms(3,4) by (auto simp: filter_empty_conv)
  moreover have "filter (\<lambda>n. n \<notin> set (map fst (kex_table (has_curve25519 t)))) (filter (\<lambda>k. \<not> mp_required k) (pref_kex t)) = []"
    using assms(1) by (auto simp: known_security_def filter_empty_conv)
  ultimately show ?thesis using assms(2)
    by (simp add: drop_group_exchange_def set_kex_def security_set_def pmodify_def Let_def)
qed

text \<open>A server that has no pack of primes nevertheless offers group exchange in its first
  KEXINIT, because the list was copied before group exchange is taken out of it; when the
  client's message arrives it no longer accepts it. A client that puts group exchange first
  therefore chooses it, while the server chooses another algorithm or none.\<close>

theorem group_exchange_offered_without_primes:
  assumes "known_security s" "server_mode s" "\<not> has_modulus_pack s" "length k = 16"
    and "g \<in> set (preferred_kex s)" "mp_required g"
    and "make_kex_init k s = (Inr m, s1)"
  shows "\<exists>p m'. really_parse_kex_init False (Message_init (Some (tl m))) = (Inr p, m') \<and>
           g \<in> set (kex_algo_list p) \<and> (\<forall>offered. g \<notin> set (agree True (preferred_kex s1) offered))"
proof -
  define t where "t = s\<lparr>clear_to_send := False, gss_kex_used := False, in_kex := True\<rparr>"
  define u where "u = t\<lparr>pref_kex := filter (\<lambda>k. \<not> mp_required k) (pref_kex t)\<rparr>"
  have t: "security.truncate t = security.truncate s" "server_key_dict t = server_key_dict s" "server_mode t"
    "advertise_strict_kex t = advertise_strict_kex s" "\<not> has_modulus_pack t"
    using assms(2,3) by (simp_all add: t_def security.truncate_def)
  have "known_security t" using known_truncate [OF t(1)] assms(1) by simp
  from drop_group_exchange_done [OF this t(5) assms(5,6)]
  have drop: "drop_group_exchange (preferred_kex s) t = (Inr (), u)" by (simp add: u_def)
  have u: "preferred_ciphers u = preferred_ciphers t" "preferred_macs u = preferred_macs t"
    "preferred_compression u = preferred_compression t" "available_server_keys u = available_server_keys t"
    "advertise_strict_kex u = advertise_strict_kex t"
    by (simp_all add: u_def)
  have fields: "kexinit_fields k a b u = kexinit_fields k a b s" for a b
    by (simp only: kexinit_fields_def u preferred_truncate [OF t(1)])
  have made: "message_of (kexinit_fields k (server_kex_algos s) (available_server_keys s) s) = Inr m"
    "s1 = u\<lparr>local_kex_init := Some m, latest_kex_init := Some m\<rparr>"
    using assms(7) drop preferred_truncate(3) [OF t(1)] available_truncate [OF t(1,2)]
    by (auto simp: make_kex_init_def pbind_def pmodify_def pget_def pret_def plift_def Let_def t_def [symmetric] t u
        fields server_kex_algos_def split: sum.splits if_splits)
  have "\<forall>x \<in> set (available_server_keys s). name_ok x"
    using offered_names(5) [OF assms(1)] by (simp add: available_server_keys_def)
  from kexinit_read_back [OF made(1) assms(4,1) kex_algos_names(2) [OF assms(1)] this]
  have "really_parse_kex_init False (Message_init (Some (tl m))) =
      (Inr (kexinit_read (server_kex_algos s) (available_server_keys s) s), reading (tl m) [])" by simp
  moreover have "g \<in> set (kex_algo_list (kexinit_read (server_kex_algos s) (available_server_keys s) s))"
    using assms(5) by (auto simp: kexinit_read_def server_kex_algos_def wire_def)
  moreover have "g \<notin> set (preferred_kex s1)"
    using assms(6) by (simp add: made(2) u_def preferred_kex_def filter_algorithm_def)
  ultimately show ?thesis by (simp add: agree_def)
qed

definition demo_gex :: "(unit, unit) kexing" where
  "demo_gex = (demo_end True)\<lparr>pref_kex := [lit ''diffie-hellman-group-exchange-sha256'']\<rparr>"

theorem group_exchange_offered_without_primes_witness:
  "\<exists>m s1 p m'. make_kex_init (replicate 16 9) demo_gex = (Inr m, s1) \<and>
     really_parse_kex_init False (Message_init (Some (tl m))) = (Inr p, m') \<and>
     lit ''diffie-hellman-group-exchange-sha256'' \<in> set (kex_algo_list p)"
proof -
  define g where "g = lit ''diffie-hellman-group-exchange-sha256''"
  have g: "mp_required g" by (simp add: g_def mp_required_def startswith_def lit_def)
  have cfg: "known_security demo_gex" "server_mode demo_gex" "\<not> has_modulus_pack demo_gex" "g \<in> set (preferred_kex demo_gex)"
    by (simp_all add: g_def demo_gex_def demo_end_def Kexing_init_def security.defs kexing.defs known_security_def
        preferred_kex_def filter_algorithm_def cipher_table_def mac_table_def key_table_def kex_table_def compression_table_def)
  have "\<exists>m s1. make_kex_init (replicate 16 9) demo_gex = (Inr m, s1)"
  proof (rule make_kex_init_ok [OF refl])
    show "list_all field_ok (kexinit_fields (replicate 16 9)
        (if server_mode demo_gex then server_kex_algos demo_gex else client_kex_algos demo_gex)
        (if server_mode demo_gex then available_server_keys demo_gex else preferred_keys demo_gex) demo_gex)"
      using cfg(2) by (simp add: kexinit_fields_def server_kex_algos_def strict_marker_def preferred_kex_def filter_algorithm_def
          demo_gex_def demo_lists demo_end_config list_ok_def text_ok_def string_ok_def u32_ok_def lit_def comma_def)
    show "drop_group_exchange (preferred_kex demo_gex) (demo_gex\<lparr>clear_to_send := False, gss_kex_used := False, in_kex := True\<rparr>) =
      (Inr (), demo_gex\<lparr>clear_to_send := False, gss_kex_used := False, in_kex := True\<rparr>\<lparr>pref_kex :=
        filter (\<lambda>k. \<not> mp_required k) (pref_kex demo_gex)\<rparr>)"
      by (subst drop_group_exchange_done [OF _ _ cfg(4) g])
        (use cfg in \<open>simp_all add: known_security_def\<close>)
  qed
  with group_exchange_offered_without_primes [OF cfg(1-3) _ cfg(4) g] show ?thesis
    unfolding g_def by (metis length_replicate)
qed

end
