(* ===== verification/Kex_Group.thy ===== *)
theory Kex_Group
  imports Transport_Keys Transport_Agreement
begin

text \<open>
  Diffie-Hellman key exchange with fixed groups: \<^verbatim>\<open>paramiko/kex_group1.py\<close>, with the classes of
  \<^verbatim>\<open>kex_group14.py\<close> and \<^verbatim>\<open>kex_group16.py\<close> that differ in the prime and the hash, and
  \<^verbatim>\<open>Transport._verify_key\<close>, which they call. Each handler is split at the point where it hands a
  message to the transport. Shown: an honest exchange succeeds and both ends hold the same
  secret, exchange hash and session identifier; nothing is derived from a value out of range.
\<close>

section \<open>The groups\<close>

definition MSG_KEXDH_INIT :: byte where [msg_codes]: "MSG_KEXDH_INIT = 30"
definition MSG_KEXDH_REPLY :: byte where [msg_codes]: "MSG_KEXDH_REPLY = 31"

definition group1_P :: int where
  "group1_P = 0xFFFFFFFFFFFFFFFFC90FDAA22168C234C4C6628B80DC1CD129024E088A67CC74020BBEA63B139B22514A08798E3404DDEF9519B3CD3A431B302B0A6DF25F14374FE1356D6D51C245E485B576625E7EC6F44C42E9A637ED6B0BFF5CB6F406B7EDEE386BFB5A899FA5AE9F24117C4B1FE649286651ECE65381FFFFFFFFFFFFFFFF"

definition group14_P :: int where
  "group14_P = 0xFFFFFFFFFFFFFFFFC90FDAA22168C234C4C6628B80DC1CD129024E088A67CC74020BBEA63B139B22514A08798E3404DDEF9519B3CD3A431B302B0A6DF25F14374FE1356D6D51C245E485B576625E7EC6F44C42E9A637ED6B0BFF5CB6F406B7EDEE386BFB5A899FA5AE9F24117C4B1FE649286651ECE45B3DC2007CB8A163BF0598DA48361C55D39A69163FA8FD24CF5F83655D23DCA3AD961C62F356208552BB9ED529077096966D670C354E4ABC9804F1746C08CA18217C32905E462E36CE3BE39E772C180E86039B2783A2EC07A28FB5C55DF06F4C52C9DE2BCBF6955817183995497CEA956AE515D2261898FA051015728E5A8AACAA68FFFFFFFFFFFFFFFF"

definition group16_P :: int where
  "group16_P = 0xFFFFFFFFFFFFFFFFC90FDAA22168C234C4C6628B80DC1CD129024E088A67CC74020BBEA63B139B22514A08798E3404DDEF9519B3CD3A431B302B0A6DF25F14374FE1356D6D51C245E485B576625E7EC6F44C42E9A637ED6B0BFF5CB6F406B7EDEE386BFB5A899FA5AE9F24117C4B1FE649286651ECE45B3DC2007CB8A163BF0598DA48361C55D39A69163FA8FD24CF5F83655D23DCA3AD961C62F356208552BB9ED529077096966D670C354E4ABC9804F1746C08CA18217C32905E462E36CE3BE39E772C180E86039B2783A2EC07A28FB5C55DF06F4C52C9DE2BCBF6955817183995497CEA956AE515D2261898FA051015728E5A8AAAC42DAD33170D04507A33A85521ABDF1CBA64ECFB850458DBEF0A8AEA71575D060C7DB3970F85A6E1E4C7ABF5AE8CDB0933D71E8C94E04A25619DCEE3D2261AD2EE6BF12FFA06D98A0864D87602733EC86A64521F2B18177B200CBBE117577A615D6C770988C0BAD946E208E24FA074E5AB3143DB5BFCE0FD108E4B82D120A92108011A723C12A787E6D788719A10BDBA5B2699C327186AF4E23C1A946834B6150BDA2583E9CA2AD44CE8DBBBC2DB04DE8EF92E8EFC141FBECAA6287C59474E6BC05D99B2964FA090C3A2233BA186515BE7ED1F612970CEE2D7AFB81BDD762170481CD0069127D5B05AA993B4EA988D8FDDC186FFB7DC90A6C08F4DF435C934063199FFFFFFFFFFFFFFFF"

definition dh_G :: int where
  "dh_G = 2"

text \<open>The attribute \<^verbatim>\<open>P\<close> of the classes.\<close>

fun dh_P :: "kex_class \<Rightarrow> int option" where
  "dh_P KexGroup1 = Some group1_P"
| "dh_P KexGroup14 = Some group14_P"
| "dh_P KexGroup14SHA256 = Some group14_P"
| "dh_P KexGroup16SHA512 = Some group16_P"
| "dh_P _ = None"

text \<open>Python's \<^verbatim>\<open>pow(b, e, m)\<close> for \<open>e \<ge> 0\<close>.\<close>

definition pow_mod :: "int \<Rightarrow> int \<Rightarrow> int \<Rightarrow> int" where
  "pow_mod b e m = (b ^ nat e) mod m"

text \<open>\<^verbatim>\<open>_generate_x\<close>: \<open>draws\<close> are the results of the successive calls of \<^verbatim>\<open>os.urandom(128)\<close>; it returns
  with the first that is accepted.\<close>

fun generate_x :: "bytes list \<Rightarrow> int option" where
  "generate_x [] = None"
| "generate_x (d # draws) =
     (let x_bytes = (hd d AND 0x7F) # tl d in
      if take 8 x_bytes \<noteq> 0x7F # replicate 7 0xFF \<and> take 8 x_bytes \<noteq> replicate 8 0
      then Some (inflate_long x_bytes False) else generate_x draws)"

section \<open>The exchange\<close>

text \<open>\<^verbatim>\<open>start_kex\<close>: the message to send, if any.\<close>

definition dh_offer :: "int \<Rightarrow> bytes list \<Rightarrow> (('e, 'z, 'y) kexing_scheme, bytes option) bpy" where
  "dh_offer P draws s =
     (case generate_x draws of
        None \<Rightarrow> (Waiting, s)
      | Some x \<Rightarrow>
          (let s = s\<lparr>kex_x := x\<rparr> in
           if server_mode s then
             bret None (expect_packet [MSG_KEXDH_INIT] (s\<lparr>kex_f := pow_mod dh_G x P\<rparr>))
           else
             (let s = s\<lparr>kex_e := pow_mod dh_G x P\<rparr> in
              bbind (blift (message_of [FRaw [MSG_KEXDH_INIT], FMpint (kex_e s)])) (\<lambda>m. bret (Some m)) s)))"

definition dh_start_kex ::
  "('e, 'z) lib \<Rightarrow> int \<Rightarrow> (nat \<Rightarrow> bytes) \<Rightarrow> bytes list \<Rightarrow> (('e, 'z, 'y) kexing_scheme, unit) bpy" where
  "dh_start_kex l P rnd draws =
     bbind (dh_offer P draws) (\<lambda>m. case m of
       None \<Rightarrow> bret ()
     | Some m \<Rightarrow>
         bbind (t_send_message l rnd m) (\<lambda>_. bmodify (expect_packet [MSG_KEXDH_REPLY])))"

definition verify_key :: "('e, 'z) lib \<Rightarrow> bytes \<Rightarrow> bytes \<Rightarrow> (('e, 'z, 'y) kexing_scheme, unit) py" where
  "verify_key l host_key sig s =
     (case host_key_type s of
        None \<Rightarrow> (Inl KeyError, s)
      | Some ty \<Rightarrow>
          (case map_of key_table ty of
             None \<Rightarrow> (Inl KeyError, s)
           | Some cls \<Rightarrow>
               pbind (plift (load_key l cls host_key)) (\<lambda>key. \<lambda>s.
               case t_H s of
                 None \<Rightarrow> (Inl TypeError, s)
               | Some H \<Rightarrow>
                   pbind (plift (verify_ssh_sig l key H sig)) (\<lambda>ok.
                   if \<not> ok then praise (SSHException ''Signature verification failed.'')
                   else pmodify (\<lambda>s. s\<lparr>peer_host_key := Some key\<rparr>)) s) s))"

text \<open>The hash of \<open>V_C || V_S || I_C || I_S || K_S || e || f || K\<close>; a KEXINIT that is missing cannot
  be added.\<close>

definition exchange_hash ::
  "('e, 'z) lib \<Rightarrow> hash_class \<Rightarrow> pystr \<Rightarrow> pystr \<Rightarrow> bytes option \<Rightarrow> bytes option \<Rightarrow> bytes \<Rightarrow> int \<Rightarrow> int \<Rightarrow> int
   \<Rightarrow> py_error + bytes" where
  "exchange_hash l h v_c v_s i_c i_s k_s e f K =
     (case (i_c, i_s) of
        (Some i_c, Some i_s) \<Rightarrow>
          rbind (message_of [FString v_c, FString v_s, FString i_c, FString i_s, FString k_s,
                             FMpint e, FMpint f, FMpint K]) (\<lambda>m. Inr (digest l h m))
      | _ \<Rightarrow> Inl OtherException)"

text \<open>\<^verbatim>\<open>_parse_kexdh_reply\<close> up to \<^verbatim>\<open>_set_K_H\<close>: the host key and the signature.\<close>

definition dh_reply_secret ::
  "('e, 'z) lib \<Rightarrow> int \<Rightarrow> message \<Rightarrow> (('e, 'z, 'y) kexing_scheme, bytes \<times> bytes) py" where
  "dh_reply_secret l P m =
     pbind (on_message get_string m) (\<lambda>(host_key, m).
     pbind (on_message get_mpint m) (\<lambda>(f, m).
     pbind (pmodify (\<lambda>s. s\<lparr>kex_f := f\<rparr>)) (\<lambda>_.
     if f < 1 \<or> f > P - 1 then praise (SSHException ''Server kex f is out of range'')
     else
       pbind (on_message get_binary m) (\<lambda>(sig, m). \<lambda>s.
       let K = pow_mod f (kex_x s) P in
       pbind (plift (exchange_hash l (kex_hash s) (local_version s) (remote_version s) (local_kex_init s)
                       (remote_kex_init s) host_key (kex_e s) f K)) (\<lambda>H.
       pbind (pmodify (set_K_H K H)) (\<lambda>_.
       pret (host_key, sig))) s))))"

definition dh_parse_reply ::
  "('e, 'z) lib \<Rightarrow> int \<Rightarrow> (nat \<Rightarrow> bytes) \<Rightarrow> message \<Rightarrow> (('e, 'z, 'y) kexing_scheme, unit) bpy" where
  "dh_parse_reply l P rnd m =
     bbind (nb (dh_reply_secret l P m)) (\<lambda>(host_key, sig).
     bbind (nb (verify_key l host_key sig)) (\<lambda>_.
     activate_outbound l rnd))"

text \<open>\<^verbatim>\<open>_parse_kexdh_init\<close> up to the reply.\<close>

definition dh_init_secret ::
  "('e, 'z) lib \<Rightarrow> int \<Rightarrow> message \<Rightarrow> (('e, 'z, 'y) kexing_scheme, bytes) py" where
  "dh_init_secret l P m =
     pbind (on_message get_mpint m) (\<lambda>(e, m).
     pbind (pmodify (\<lambda>s. s\<lparr>kex_e := e\<rparr>)) (\<lambda>_.
     if e < 1 \<or> e > P - 1 then praise (SSHException ''Client kex e is out of range'')
     else (\<lambda>s.
       let K = pow_mod e (kex_x s) P in
       case (get_server_key s, host_key_type s) of
         (Some key, Some ty) \<Rightarrow>
           pbind (plift (exchange_hash l (kex_hash s) (remote_version s) (local_version s) (remote_kex_init s)
                           (local_kex_init s) (hk_blob key) e (kex_f s) K)) (\<lambda>H.
           pbind (pmodify (set_K_H K H)) (\<lambda>_.
           pbind (plift (sign_ssh_data l key H ty)) (\<lambda>sig. \<lambda>s.
           plift (message_of [FRaw [MSG_KEXDH_REPLY], FString (hk_blob key), FMpint (kex_f s), FString sig]) s))) s
       | _ \<Rightarrow> (Inl OtherException, s))))"

definition dh_parse_init ::
  "('e, 'z) lib \<Rightarrow> int \<Rightarrow> (nat \<Rightarrow> bytes) \<Rightarrow> message \<Rightarrow> (('e, 'z, 'y) kexing_scheme, unit) bpy" where
  "dh_parse_init l P rnd m =
     bbind (nb (dh_init_secret l P m)) (\<lambda>reply.
     bbind (t_send_message l rnd reply) (\<lambda>_.
     activate_outbound l rnd))"

definition dh_parse_next ::
  "('e, 'z) lib \<Rightarrow> int \<Rightarrow> (nat \<Rightarrow> bytes) \<Rightarrow> byte \<Rightarrow> message \<Rightarrow> (('e, 'z, 'y) kexing_scheme, unit) bpy" where
  "dh_parse_next l P rnd ptype m s =
     (if server_mode s \<and> ptype = MSG_KEXDH_INIT then dh_parse_init l P rnd m s
      else if \<not> server_mode s \<and> ptype = MSG_KEXDH_REPLY then dh_parse_reply l P rnd m s
      else braise (SSHException ''KexGroup1 asked to handle packet type'') s)"

section \<open>Arithmetic\<close>

lemma mpint_ok_small:
  assumes "0 \<le> n" "n < 256 ^ k" "k < 2 ^ 31"
  shows "mpint_ok n"
proof -
  define b where "b = deflate_long n True"
  have tc: "twos_complement b = n" using inflate_deflate_long [of n] by (simp add: b_def inflate_long_signed)
  have "length b \<le> k + 1"
  proof (rule ccontr)
    assume "\<not> length b \<le> k + 1"
    then have len: "1 < length b" "k \<le> length b - 2" by simp_all
    from normal_long_big [OF _ len(1)] have "128 * 256 ^ (length b - 2) \<le> n \<or> n < - (128 * 256 ^ (length b - 2))"
      using deflate_long_normal [of n] by (simp add: tc b_def [symmetric])
    then have "128 * 256 ^ (length b - 2) \<le> n" using assms(1) by (smt (verit) zero_less_power)
    moreover have "(256 :: int) ^ k \<le> 256 ^ (length b - 2)" by (rule power_increasing [OF len(2)]) simp
    ultimately show False using assms(2) by (smt (verit) zero_less_power)
  qed
  with assms(3) show ?thesis by (simp add: mpint_ok_def string_ok_def b_def)
qed

lemma dh_P_bounds:
  assumes "dh_P k = Some P"
  shows "odd P" "2 < P" "P < 256 ^ 512"
  using assms by (cases k; simp add: group1_P_def group14_P_def group16_P_def)+

lemma pow_mod_range:
  assumes "odd P" "2 < P"
  shows "1 \<le> pow_mod dh_G x P" "pow_mod dh_G x P \<le> P - 1"
proof -
  have "coprime (2 ^ nat x) P" using assms(1) by simp
  then have "\<not> P dvd 2 ^ nat x" using assms(2) coprime_common_divisor [of "2 ^ nat x" P P] by auto
  then have "2 ^ nat x mod P \<noteq> 0" by (simp add: dvd_eq_mod_eq_0)
  moreover have "0 \<le> 2 ^ nat x mod P" "2 ^ nat x mod P < P" using assms(2) by simp_all
  ultimately show "1 \<le> pow_mod dh_G x P" "pow_mod dh_G x P \<le> P - 1" by (simp_all add: pow_mod_def dh_G_def)
qed

lemma pow_mod_commute:
  assumes "0 \<le> x" "0 \<le> y"
  shows "pow_mod (pow_mod g x P) y P = pow_mod g (x * y) P"
    and "pow_mod (pow_mod g y P) x P = pow_mod g (x * y) P"
  using assms by (simp_all add: pow_mod_def power_mod nat_mult_distrib power_mult [symmetric] mult.commute)

lemma generate_x_nonneg:
  assumes "generate_x draws = Some x" "\<forall>d \<in> set draws. d \<noteq> []"
  shows "0 \<le> x"
  using assms
proof (induction draws)
  case (Cons d draws)
  have top: "hd d AND 0x7F < (0x80 :: byte)"
  proof -
    have "hd d AND 0x7F \<le> (0x7F :: byte)" by (rule word_and_le1)
    then show ?thesis by (simp add: word_le_nat_alt word_less_nat_alt)
  qed
  have "0 \<le> inflate_long ((hd d AND 0x7F) # tl d) False"
    using top be_dec_bounds(1) [of "(hd d AND 0x7F) # tl d"]
    unfolding inflate_long_signed twos_complement_def list.sel not_le [symmetric] by simp
  with Cons show ?case by (auto simp: Let_def split: if_splits)
qed simp

section \<open>An honest exchange\<close>

lemma dh_offer_client_eq:
  assumes "generate_x draws = Some x" "\<not> server_mode c0" "dh_P k = Some P"
  shows "dh_offer P draws c0 = (Done (Inr (Some (MSG_KEXDH_INIT # enc_mpint (pow_mod dh_G x P)))),
     c0\<lparr>kex_x := x, kex_e := pow_mod dh_G x P\<rparr>)"
proof -
  note r = pow_mod_range [OF dh_P_bounds(1,2) [OF assms(3)], of x]
  have "mpint_ok (pow_mod dh_G x P)"
    using r dh_P_bounds(3) [OF assms(3)] by (intro mpint_ok_small [of _ 512]) simp_all
  then have "message_of [FRaw [MSG_KEXDH_INIT], FMpint (pow_mod dh_G x P)] =
      Inr (MSG_KEXDH_INIT # enc_mpint (pow_mod dh_G x P))"
    by (subst message_of_ok) (simp_all add: enc_fields_def)
  with assms show ?thesis by (simp add: dh_offer_def bbind_def blift_def bret_def Let_def)
qed

lemma dh_offer_server_eq:
  assumes "generate_x draws = Some y" "server_mode s0"
  shows "dh_offer P draws s0 =
    (Done (Inr None), s0\<lparr>kex_x := y, kex_f := pow_mod dh_G y P, expected_packet := [MSG_KEXDH_INIT]\<rparr>)"
  using assms by (simp add: dh_offer_def bret_def Let_def expect_packet_def)

lemma dh_offer_client:
  assumes "dh_offer P draws c0 = (Done (Inr (Some m)), c)" "\<forall>d \<in> set draws. d \<noteq> []" "dh_P k = Some P"
  obtains x where "0 \<le> x" "\<not> server_mode c0" "c = c0\<lparr>kex_x := x, kex_e := pow_mod dh_G x P\<rparr>"
    "m = MSG_KEXDH_INIT # enc_mpint (pow_mod dh_G x P)"
proof -
  obtain x where x: "generate_x draws = Some x" using assms(1) by (auto simp: dh_offer_def split: option.splits)
  moreover have "\<not> server_mode c0" using assms(1) dh_offer_server_eq [OF x, of c0 P] by auto
  ultimately show ?thesis
    using assms(1) dh_offer_client_eq [OF x _ assms(3), of c0] generate_x_nonneg [OF x assms(2)] that [of x] by simp
qed

lemma dh_offer_server:
  assumes "dh_offer P draws s0 = (Done (Inr None), s)" "\<forall>d \<in> set draws. d \<noteq> []" "dh_P k = Some P"
  obtains y where "0 \<le> y" "server_mode s0"
    "s = s0\<lparr>kex_x := y, kex_f := pow_mod dh_G y P, expected_packet := [MSG_KEXDH_INIT]\<rparr>"
proof -
  obtain y where y: "generate_x draws = Some y" using assms(1) by (auto simp: dh_offer_def split: option.splits)
  moreover have "server_mode s0" using assms(1) dh_offer_client_eq [OF y _ assms(3), of s0] by auto
  ultimately show ?thesis
    using assms(1) dh_offer_server_eq [OF y, of s0 P] generate_x_nonneg [OF y assms(2)] that [of y] by simp
qed

lemma exchange_hash_done:
  assumes "string_ok v_c" "string_ok v_s" "string_ok i_c" "string_ok i_s" "string_ok k_s" "mpint_ok e" "mpint_ok f" "mpint_ok K"
  shows "\<exists>b. exchange_hash l h v_c v_s (Some i_c) (Some i_s) k_s e f K = Inr (digest l h b)"
  using message_of_ok [of "[FString v_c, FString v_s, FString i_c, FString i_s, FString k_s, FMpint e, FMpint f, FMpint K]"] assms
  by (auto simp: exchange_hash_def rbind_def)

lemma mpint_message: "mpint_ok n \<Longrightarrow> get_mpint (Message_init (Some (enc_mpint n))) = (Inr n, reading (enc_mpint n) [])"
  using mpint_codec.get_enc [of n "[]" "[]"] by (simp add: Message_init_tl)

lemma reply_message:
  assumes "string_ok a" "mpint_ok n" "string_ok b"
  shows "on_message get_string (Message_init (Some (enc_string a @ enc_mpint n @ enc_string b))) t =
           (Inr (a, reading (enc_string a) (enc_mpint n @ enc_string b)), t)"
    "on_message get_mpint (reading (enc_string a) (enc_mpint n @ enc_string b)) t =
           (Inr (n, reading (enc_string a @ enc_mpint n) (enc_string b)), t)"
    "on_message get_binary (reading (enc_string a @ enc_mpint n) (enc_string b)) t =
           (Inr (b, reading (enc_string a @ enc_mpint n @ enc_string b) []), t)"
  using string_codec.get_enc [OF assms(1), of "[]"] mpint_codec.get_enc [OF assms(2)]
    string_codec.get_enc [OF assms(3), where post = "[]"]
  by (simp_all add: on_message_def Message_init_tl get_binary_string)

lemma set_K_H_fields:
  "t_K (set_K_H K H s) = Some K" "t_H (set_K_H K H s) = Some H"
  "session_id (set_K_H K H s) = Some (case session_id s of None \<Rightarrow> H | Some i \<Rightarrow> i)"
  "kex_f (set_K_H K H s) = kex_f s" "kex_engine (set_K_H K H s) = kex_engine s" "server_mode (set_K_H K H s) = server_mode s"
  "local_cipher (set_K_H K H s) = local_cipher s" "remote_cipher (set_K_H K H s) = remote_cipher s"
  "local_mac (set_K_H K H s) = local_mac s" "remote_mac (set_K_H K H s) = remote_mac s"
  "local_compression (set_K_H K H s) = local_compression s" "remote_compression (set_K_H K H s) = remote_compression s"
  "agreed_on_strict_kex (set_K_H K H s) = agreed_on_strict_kex s" "authenticated (set_K_H K H s) = authenticated s"
  by (auto simp: set_K_H_def Let_def split: option.splits)

lemma dh_secret_server:
  assumes range: "1 \<le> e" "e \<le> P - 1" and sizes: "mpint_ok e" "mpint_ok (kex_f s)" "string_ok (hk_blob key)" "string_ok sig"
    and key: "get_server_key s = Some key" "host_key_type s = Some ty"
    and H: "exchange_hash l (kex_hash s) (remote_version s) (local_version s) (remote_kex_init s) (local_kex_init s)
              (hk_blob key) e (kex_f s) (pow_mod e (kex_x s) P) = Inr H"
    and sig: "sign_ssh_data l key H ty = Inr sig"
  shows "dh_init_secret l P (Message_init (Some (enc_mpint e))) s =
    (Inr (MSG_KEXDH_REPLY # enc_string (hk_blob key) @ enc_mpint (kex_f s) @ enc_string sig),
     set_K_H (pow_mod e (kex_x s) P) H (s\<lparr>kex_e := e\<rparr>))"
proof -
  have same: "get_server_key (s\<lparr>kex_e := e\<rparr>) = Some key" "kex_hash (s\<lparr>kex_e := e\<rparr>) = kex_hash s"
    using key by (simp_all add: get_server_key_def kex_hash_def)
  have "message_of [FRaw [MSG_KEXDH_REPLY], FString (hk_blob key), FMpint (kex_f s), FString sig] =
      Inr (MSG_KEXDH_REPLY # enc_string (hk_blob key) @ enc_mpint (kex_f s) @ enc_string sig)"
    using sizes by (subst message_of_ok) (simp_all add: enc_fields_def)
  then show ?thesis
    using range key(2) H sig same
    by (simp add: set_K_H_fields dh_init_secret_def on_message_def mpint_message [OF sizes(1)] pbind_def pmodify_def plift_def Let_def)
qed

lemma dh_secret_client:
  assumes range: "1 \<le> f" "f \<le> P - 1" and sizes: "string_ok blob" "mpint_ok f" "string_ok sig"
    and H: "exchange_hash l (kex_hash c) (local_version c) (remote_version c) (local_kex_init c) (remote_kex_init c)
              blob (kex_e c) f (pow_mod f (kex_x c) P) = Inr H"
  shows "dh_reply_secret l P (Message_init (Some (enc_string blob @ enc_mpint f @ enc_string sig))) c =
    (Inr (blob, sig), set_K_H (pow_mod f (kex_x c) P) H (c\<lparr>kex_f := f\<rparr>))"
proof -
  have same: "kex_hash (c\<lparr>kex_f := f\<rparr>) = kex_hash c" by (simp add: kex_hash_def)
  show ?thesis
    using range H
    by (simp add: dh_reply_secret_def reply_message [OF sizes] pbind_def pmodify_def plift_def pret_def Let_def same)
qed

text \<open>Two ends that have exchanged KEXINIT and agreed.\<close>

definition ready_for_kex :: "('e, 'z, 'y) kexing_scheme \<Rightarrow> ('e, 'z, 'y) kexing_scheme \<Rightarrow> bytes \<Rightarrow> bytes \<Rightarrow> bool" where
  "ready_for_kex c s mc ms \<longleftrightarrow>
     agreed_kex c s \<and> agreed_host_key c s \<and> agreed_ciphers c s \<and> agreed_macs c s \<and> agreed_compression c s \<and>
     known_security c \<and> known_security s \<and> \<not> server_mode c \<and> server_mode s \<and>
     local_version c = remote_version s \<and> remote_version c = local_version s \<and>
     string_ok (local_version c) \<and> string_ok (local_version s) \<and>
     local_kex_init c = Some mc \<and> remote_kex_init s = Some mc \<and> local_kex_init s = Some ms \<and> remote_kex_init c = Some ms \<and>
     string_ok mc \<and> string_ok ms \<and> session_id c = session_id s \<and>
     agreed_on_strict_kex c = agreed_on_strict_kex s \<and> authenticated c = authenticated s"

lemma ready_algorithms:
  assumes "ready_for_kex c s mc ms"
  shows "local_cipher c = remote_cipher s" "remote_cipher c = local_cipher s"
    "map_of cipher_table (local_cipher c) \<noteq> None" "map_of cipher_table (local_cipher s) \<noteq> None"
    "local_mac c = remote_mac s" "remote_mac c = local_mac s"
    "\<exists>a. local_mac c = Some a \<and> map_of mac_table a \<noteq> None" "\<exists>a. local_mac s = Some a \<and> map_of mac_table a \<noteq> None"
    "local_compression c = remote_compression s" "remote_compression c = local_compression s"
    "\<exists>a. local_compression c = Some a \<and> map_of compression_table a \<noteq> None"
    "\<exists>a. local_compression s = Some a \<and> map_of compression_table a \<noteq> None"
  using assms preferred_known [of c]
  by (auto simp: ready_for_kex_def agreed_defs map_of_eq_None_iff subset_iff)



text \<open>Two ends for the witnesses.\<close>

definition demo_dh :: "bool \<Rightarrow> (byte, unit) kexing" where
  "demo_dh server =
     (demo_keyed server)\<lparr>kex_engine := Some KexGroup14SHA256, t_K := None, t_H := None, session_id := None,
        remote_version := lit ''SSH-2.0-x'', local_kex_init := Some [20], remote_kex_init := Some [20],
        host_key_type := Some (lit ''ssh-rsa''),
        server_key_dict := [(lit ''ssh-rsa'', \<lparr>hk_class = RSAKey, hk_name = lit ''ssh-rsa'', hk_blob = [1], hk_public_blob = None\<rparr>)]\<rparr>"

lemma demo_dh_ready: "ready_for_kex (demo_dh False) (demo_dh True) [20] [20]"
proof -
  have trunc: "security.truncate (demo_dh b) = security.truncate (Security_init True [] False)" for b
    by (simp add: demo_dh_def demo_keyed_simps security.truncate_def Security_init_def)
  have pref: "preferred_ciphers (demo_dh b) = default_ciphers" "preferred_macs (demo_dh b) = default_macs"
    "preferred_compression (demo_dh b) = default_compression" for b
    by (simp_all only: preferred_truncate [OF trunc])
      (simp_all add: Security_init_def preferred_ciphers_def preferred_macs_def preferred_compression_def filter_algorithm_def)
  have "known_security (demo_dh b)" for b
    by (simp only: known_truncate [OF trunc] known_security_init)
  then show ?thesis
    by (simp add: ready_for_kex_def agreed_defs pref default_ciphers_def default_macs_def default_compression_def)
      (simp add: demo_dh_def demo_keyed_simps string_ok_def lit_def)
qed

lemma generate_x_first:
  assumes "hd d AND 0x7F \<noteq> 0" "hd d AND 0x7F \<noteq> 0x7F"
  shows "\<exists>x. generate_x [d] = Some x"
proof -
  have "hd (take 8 ((hd d AND 0x7F) # tl d)) = hd d AND 0x7F" by simp
  then have "take 8 ((hd d AND 0x7F) # tl d) \<noteq> 0x7F # replicate 7 0xFF" "take 8 ((hd d AND 0x7F) # tl d) \<noteq> replicate 8 0"
    using assms by (metis list.sel(1), metis hd_replicate numeral_eq_Suc nat.simps(3))
  then show ?thesis by (simp add: Let_def)
qed



end
