(* ===== verification/Channel_Map.thy ===== *)
theory Channel_Map
  imports Ssh_Common "HOL-Library.AList"
begin

text \<open>
  The table of open channels of a transport: \<^verbatim>\<open>ChannelMap\<close> and \<^verbatim>\<open>Transport._next_channel\<close> of
  \<^verbatim>\<open>paramiko/transport.py\<close>. The table is an association list, in the order of insertion as
  \<^verbatim>\<open>values\<close> returns it. It holds its channels weakly: an entry also disappears when nobody
  else refers to the channel; that is \<open>chan_delete\<close> at any time. What the transport relies
  on is the locale \<open>id_table\<close>.
\<close>

section \<open>The table\<close>

type_synonym 'c channel_map = "(int \<times> 'c) list"

definition ChannelMap_init :: "'c channel_map" where
  "ChannelMap_init = []"

definition chan_put :: "int \<Rightarrow> 'c \<Rightarrow> 'c channel_map \<Rightarrow> 'c channel_map" where
  "chan_put chanid chan m = AList.update chanid chan m"

definition chan_get :: "int \<Rightarrow> 'c channel_map \<Rightarrow> 'c option" where
  "chan_get chanid m = map_of m chanid"

definition chan_delete :: "int \<Rightarrow> 'c channel_map \<Rightarrow> 'c channel_map" where
  "chan_delete chanid m = AList.delete chanid m"

definition chan_values :: "'c channel_map \<Rightarrow> 'c list" where
  "chan_values m = map snd m"

definition chan_len :: "'c channel_map \<Rightarrow> nat" where
  "chan_len m = length m"

text \<open>The loop of \<^verbatim>\<open>_next_channel\<close>: it passes over the numbers in use. When every number is in
  use it never ends, hence the option.\<close>

definition next_counter :: "int \<Rightarrow> int" where
  "next_counter n = (n + 1) AND 0xFFFFFF"

partial_function (option) next_channel_loop :: "'c channel_map \<Rightarrow> int \<Rightarrow> int option" where
  "next_channel_loop m counter =
     (if chan_get counter m \<noteq> None then next_channel_loop m (next_counter counter) else Some counter)"

text \<open>The number, and the counter afterwards.\<close>

definition next_channel :: "'c channel_map \<Rightarrow> int \<Rightarrow> (int \<times> int) option" where
  "next_channel m counter = map_option (\<lambda>n. (n, next_counter n)) (next_channel_loop m counter)"

section \<open>The laws of the table\<close>

locale id_table =
  fixes get :: "int \<Rightarrow> 't \<Rightarrow> 'c option"
    and put :: "int \<Rightarrow> 'c \<Rightarrow> 't \<Rightarrow> 't"
    and delete :: "int \<Rightarrow> 't \<Rightarrow> 't"
    and empty :: 't
    and wf :: "'t \<Rightarrow> bool"
    and contents :: "'t \<Rightarrow> 'c list"
  assumes wf_empty: "wf empty"
    and wf_put: "wf t \<Longrightarrow> wf (put i c t)"
    and wf_delete: "wf t \<Longrightarrow> wf (delete i t)"
    and get_empty: "get i empty = None"
    and get_put: "get i (put j c t) = (if i = j then Some c else get i t)"
    and get_delete: "wf t \<Longrightarrow> get i (delete j t) = (if i = j then None else get i t)"
    and contents_get: "wf t \<Longrightarrow> set (contents t) = {c. \<exists>i. get i t = Some c}"
begin

lemma put_keeps_others: "get i t = Some c \<Longrightarrow> get j t = None \<Longrightarrow> get i (put j d t) = Some c"
  by (auto simp: get_put)

lemma contents_put: "wf t \<Longrightarrow> get i t = None \<Longrightarrow> set (contents (put i c t)) = insert c (set (contents t))"
proof -
  assume wf: "wf t" and new: "get i t = None"
  have "(\<exists>j. get j (put i c t) = Some x) \<longleftrightarrow> x = c \<or> (\<exists>j. get j t = Some x)" for x
    using new by (metis get_put option.distinct(1) option.inject)
  with wf show ?thesis by (simp add: contents_get wf_put) auto
qed

lemma delete_put: "wf t \<Longrightarrow> get i t = None \<Longrightarrow> get j (delete i (put i c t)) = get j t"
  by (auto simp: get_put get_delete wf_put)

end

definition chan_wf :: "'c channel_map \<Rightarrow> bool" where
  "chan_wf m \<longleftrightarrow> distinct (map fst m)"

interpretation channel_table: id_table chan_get chan_put chan_delete ChannelMap_init chan_wf chan_values
proof
  fix t :: "'c channel_map"
  assume "chan_wf t"
  then have "set (map snd t) = ran (map_of t)"
    using ran_distinct [of t] by (simp add: chan_wf_def)
  then show "set (chan_values t) = {c. \<exists>i. chan_get i t = Some c}"
    by (auto simp: chan_values_def chan_get_def ran_def)
qed (auto simp: chan_wf_def chan_get_def chan_put_def chan_delete_def ChannelMap_init_def
       distinct_update distinct_delete update_conv' delete_conv')

lemmas chan_get_simps [simp] =
  channel_table.get_empty channel_table.get_put channel_table.get_delete

lemmas chan_wf_simps [simp] =
  channel_table.wf_empty channel_table.wf_put channel_table.wf_delete

lemma chan_len_ids: "chan_wf m \<Longrightarrow> chan_len m = card {i. chan_get i m \<noteq> None}"
proof -
  assume "chan_wf m"
  then have "card (fst ` set m) = length m" unfolding chan_wf_def by (metis distinct_card length_map set_map)
  moreover have "{i. chan_get i m \<noteq> None} = fst ` set m"
    by (auto simp: chan_get_def dom_map_of_conv_image_fst [symmetric])
  ultimately show ?thesis by (simp add: chan_len_def)
qed

section \<open>Fresh numbers\<close>

lemma next_counter_mod: "next_counter n = (n + 1) mod 2 ^ 24"
proof -
  have "(n + 1) AND mask 24 = (n + 1) mod 2 ^ 24" by (simp only: take_bit_eq_mask [symmetric] take_bit_eq_mod)
  then show ?thesis by (simp add: next_counter_def mask_eq_exp_minus_1)
qed

lemma next_counter_range: "0 \<le> next_counter n \<and> next_counter n < 2 ^ 24"
  by (simp add: next_counter_mod)

lemma next_channel_loop_sound:
  "next_channel_loop m n = Some i \<Longrightarrow> chan_get i m = None \<and> (i = n \<or> 0 \<le> i \<and> i < 2 ^ 24)"
proof (rule next_channel_loop.raw_induct
    [where P = "\<lambda>m n i. chan_get i m = None \<and> (i = n \<or> 0 \<le> i \<and> i < 2 ^ 24)"], goal_cases)
  case (1 loop m n i)
  then show ?case using next_counter_range [of n] by (fastforce split: if_splits)
qed

lemma next_channel_loop_reaches:
  "chan_get ((n + int k) mod 2 ^ 24) m = None \<Longrightarrow> 0 \<le> n \<Longrightarrow> n < 2 ^ 24 \<Longrightarrow>
   \<exists>i. next_channel_loop m n = Some i"
proof (induction k arbitrary: n)
  case 0
  then show ?case by (subst next_channel_loop.simps) simp
next
  case (Suc k)
  have "(next_counter n + int k) mod 2 ^ 24 = (n + int (Suc k)) mod 2 ^ 24"
    by (simp add: next_counter_mod mod_simps ac_simps)
  with Suc.IH [of "next_counter n"] Suc.prems(1) next_counter_range [of n]
  have "\<exists>i. next_channel_loop m (next_counter n) = Some i" by simp
  then show ?case by (subst next_channel_loop.simps) auto
qed

text \<open>A number is found exactly when one is free; it is new and fits in 24 bits.\<close>

lemma next_channel_fresh:
  assumes "next_channel m n = Some (i, n')" "0 \<le> n" "n < 2 ^ 24"
  shows "chan_get i m = None" "0 \<le> i" "i < 2 ^ 24" "0 \<le> n'" "n' < 2 ^ 24"
  using assms next_channel_loop_sound [of m n i] next_counter_range [of i]
  by (auto simp: next_channel_def)

text \<open>C25: The numbering of channels: as long as one of the 2^24 channel numbers is free,
  \<^verbatim>\<open>_next_channel\<close> returns, with a number that is in range and not in use, and leaves a counter
  in range; when all are in use its loop never ends (the table is given as the numbers in
  use; \<^verbatim>\<open>_next_channel\<close> is called with the transport's lock held).\<close>

theorem next_channel_total:
  assumes "0 \<le> n" "n < 2 ^ 24"
  shows "case next_channel m n of
           Some (i, n') \<Rightarrow> chan_get i m = None \<and> 0 \<le> i \<and> i < 2 ^ 24 \<and> n' = (i + 1) mod 2 ^ 24
         | None \<Rightarrow> (\<forall>i. 0 \<le> i \<and> i < 2 ^ 24 \<longrightarrow> chan_get i m \<noteq> None)"
proof (cases "next_channel m n")
  case None
  have False if "0 \<le> i" "i < 2 ^ 24" "chan_get i m = None" for i
  proof -
    have "(n + int (nat ((i - n) mod 2 ^ 24))) mod 2 ^ 24 = i" using that by (simp add: mod_simps)
    with next_channel_loop_reaches [of n "nat ((i - n) mod 2 ^ 24)" m] that(3) assms None
    show False by (simp add: next_channel_def)
  qed
  with None show ?thesis by fastforce
next
  case (Some p)
  with assms next_channel_fresh [of m n "fst p" "snd p"] show ?thesis
    by (cases p) (auto simp: next_channel_def next_counter_mod)
qed

theorem next_channel_total_witness:
  "next_channel [(0xFFFFFF, ()), (0, ())] 0xFFFFFF = Some (1, 2) \<and>
   chan_get 1 [(0xFFFFFF, ()), (0, ())] = None"
proof -
  have "next_channel [(0xFFFFFF, ()), (0, ())] 0xFFFFFF = Some (1, 2)"
    by (simp add: next_channel_def next_channel_loop.simps chan_get_def next_counter_mod)
  with next_channel_total [of "0xFFFFFF" "[(0xFFFFFF, ()), (0, ())]"] show ?thesis by simp
qed

end
