(* ===== verification/Transport_State.thy ===== *)
theory Transport_State
  imports Kex_Group Channel Channel_Map
begin

text \<open>
  The state of \<^verbatim>\<open>Transport\<close> and of its \<^verbatim>\<open>AuthHandler\<close> (\<^verbatim>\<open>paramiko/transport.py\<close>,
  \<^verbatim>\<open>paramiko/auth_handler.py\<close>), what the application supplies (\<^verbatim>\<open>ServerInterface\<close> of
  \<^verbatim>\<open>paramiko/server.py\<close>), and the operations on which the handlers of messages are built: sending,
  methods of channels, \<^verbatim>\<open>close\<close>. The record \<open>transport\<close> extends \<open>kexing\<close>. Key exchange
  classes other than the fixed groups are the functions of the record \<open>parts\<close>.
\<close>

section \<open>State\<close>

text \<open>A handler for incoming channels: the default one, which queues them for \<^verbatim>\<open>accept\<close>, or one of
  the application, whose calls are recorded.\<close>

datatype chan_handler = QueueHandler | UserHandler

text \<open>The authentication handler: first what a client uses, then what a server uses; \<open>auth_event\<close> is the
  state of the event of the thread that waits, if there is one.\<close>

record auth_state =
  ah_username :: "pystr option"
  ah_authenticated :: bool
  auth_event :: "bool option"
  auth_method :: pystr
  auth_banner :: "bytes option"
  auth_password :: bytes
  private_key :: "host_key option"
  interactive_handler :: "pystr \<Rightarrow> pystr \<Rightarrow> (pystr \<times> bool) list \<Rightarrow> pystr list"
  submethods :: pystr
  auth_username :: "pystr option"
  auth_fail_count :: int

definition AuthHandler_init :: auth_state where
  "AuthHandler_init =
     \<lparr>ah_username = None, ah_authenticated = False, auth_event = None, auth_method = [], auth_banner = None,
      auth_password = [], private_key = None, interactive_handler = (\<lambda>_ _ _. []), submethods = [],
      auth_username = None, auth_fail_count = 0\<rparr>"

text \<open>\<open>channel_events\<close> says for each channel that is being opened whether its event is set;
  \<open>completion_event\<close> is the state of the event, if there is one;
  \<open>server_accepts\<close> and \<open>callbacks\<close> hold channel numbers; \<open>gone_channels\<close> are the channel objects
  that have left the table.\<close>

record ('e, 'z) transport = "('e, 'z) kexing" +
  t_active :: bool
  channels :: "channel channel_map"
  gone_channels :: "channel list"
  channel_events :: "(int \<times> bool) list"
  channels_seen :: "int list"
  channel_counter :: int
  default_window_size :: int
  default_max_packet_size :: int
  forward_agent_handler :: "chan_handler option"
  x11_handler :: "chan_handler option"
  tcp_handler :: "chan_handler option"
  t_saved_exception :: "py_error option"
  global_response :: "message option"
  completion_event :: "bool option"
  auth_handler :: "auth_state option"
  server_accepts :: "int list"
  callbacks :: "int list"
  server_extensions :: "(pystr \<times> bytes) list"

text \<open>What the application's \<^verbatim>\<open>ServerInterface\<close> answers. A global request is answered by a bool or a
  tuple.\<close>

datatype global_answer = GBool bool | GTuple "item list"

text \<open>A password is text, or bytes when it is not valid UTF-8. An answer to interactive authentication is
  a result or another query.\<close>

datatype password = PText pystr | PBytes bytes

record auth_query =
  query_name :: pystr
  query_instructions :: pystr
  query_prompts :: "(pystr \<times> bool) list"

datatype interactive_answer = IResult int | IQuery auth_query

record server_iface =
  check_port_forward_request :: "pystr \<Rightarrow> int \<Rightarrow> int"
  check_global_request :: "pystr \<Rightarrow> message \<Rightarrow> global_answer"
  check_channel_request :: "pystr \<Rightarrow> int \<Rightarrow> int"
  check_channel_direct_tcpip_request :: "int \<Rightarrow> pystr \<times> int \<Rightarrow> pystr \<times> int \<Rightarrow> int"
  check_chan_request :: "chan_request \<Rightarrow> bool"
  get_banner :: "pystr option \<times> pystr"
  get_allowed_auths :: "pystr option \<Rightarrow> pystr"
  check_auth_none :: "pystr \<Rightarrow> int"
  check_auth_password :: "pystr \<Rightarrow> password \<Rightarrow> int"
  check_auth_publickey :: "pystr \<Rightarrow> host_key \<Rightarrow> int"
  check_auth_interactive :: "pystr \<Rightarrow> bytes \<Rightarrow> interactive_answer"
  check_auth_interactive_response :: "pystr list \<Rightarrow> interactive_answer"

text \<open>\<open>other_start\<close> and \<open>other_next\<close>: \<^verbatim>\<open>start_kex\<close> and \<^verbatim>\<open>parse_next\<close> of the other engines.\<close>

record ('e, 'z) parts =
  other_start :: "kex_class \<Rightarrow> (('e, 'z) transport, unit) bpy"
  other_next :: "kex_class \<Rightarrow> byte \<Rightarrow> message \<Rightarrow> (('e, 'z) transport, unit) bpy"

text \<open>The surroundings of a step: the libraries, the other parts, the server object, the random bytes
  for padding, cookie and secret.\<close>

record ('e, 'z) surroundings =
  su_lib :: "('e, 'z) lib"
  su_parts :: "('e, 'z) parts"
  su_server :: server_iface
  su_rnd :: "nat \<Rightarrow> bytes"
  su_cookie :: bytes
  su_draws :: "bytes list"

definition Transport_init :: "('e, 'z) kexing \<Rightarrow> int \<Rightarrow> int \<Rightarrow> ('e, 'z) transport" where
  "Transport_init k window packet =
     kexing.extend k
       (transport.fields False ChannelMap_init [] [] [] 0 window packet None None None None None None None [] [] [])"

text \<open>The attributes of the authentication handler; a transport without one is like a transport with a
  fresh one. \<open>authed\<close> is \<^verbatim>\<open>auth_handler.is_authenticated()\<close>.\<close>

definition auth_self :: "('e, 'z) transport \<Rightarrow> auth_state" where
  "auth_self s = (case auth_handler s of Some h \<Rightarrow> h | None \<Rightarrow> AuthHandler_init)"

definition authed :: "('e, 'z) transport \<Rightarrow> bool" where
  "authed s \<longleftrightarrow> ah_authenticated (auth_self s)"

definition is_authenticated :: "('e, 'z) transport \<Rightarrow> bool" where
  "is_authenticated s \<longleftrightarrow> t_active s \<and> authed s"

definition send_msg :: "('e, 'z) surroundings \<Rightarrow> field list \<Rightarrow> (('e, 'z) transport, unit) bpy" where
  "send_msg su fs = bbind (blift (message_of fs)) (t_send_message (su_lib su) (su_rnd su))"

text \<open>\<^verbatim>\<open>self.completion_event.set()\<close>, when there is one.\<close>

definition set_completion :: "('e, 'z) transport \<Rightarrow> ('e, 'z) transport" where
  "set_completion s = s\<lparr>completion_event := map_option (\<lambda>_. True) (completion_event s)\<rparr>"

section \<open>Channels and the transport\<close>

definition unlink_channel :: "int \<Rightarrow> ('e, 'z) transport \<Rightarrow> ('e, 'z) transport" where
  "unlink_channel n s =
     (case chan_get n (channels s) of
        None \<Rightarrow> s
      | Some c \<Rightarrow> s\<lparr>channels := chan_delete n (channels s), gone_channels := gone_channels s @ [c]\<rparr>)"

definition queue_incoming_channel :: "int \<Rightarrow> ('e, 'z) transport \<Rightarrow> ('e, 'z) transport" where
  "queue_incoming_channel n s = s\<lparr>server_accepts := server_accepts s @ [n]\<rparr>"

text \<open>\<^verbatim>\<open>_send_user_message\<close> in the transport's own thread: only that thread makes it clear to send
  again, so waiting ends with the timeout.\<close>

definition kex_timeout :: py_error where
  "kex_timeout = SSHException ''Key-exchange timed out waiting for key negotiation''"

definition t_send_user_message :: "('e, 'z) surroundings \<Rightarrow> bytes \<Rightarrow> (('e, 'z) transport, unit) bpy" where
  "t_send_user_message su m s =
     (if \<not> t_active s then bret () s
      else if clear_to_send s then t_send_message (su_lib su) (su_rnd su) m s
      else braise kex_timeout s)"

text \<open>The calls that a channel made, in order.\<close>

fun perform_call :: "('e, 'z) surroundings \<Rightarrow> tcall \<Rightarrow> (('e, 'z) transport, unit) bpy" where
  "perform_call su (SendUserMessage m) = t_send_user_message su m"
| "perform_call su (UnlinkChannel n) = bmodify (unlink_channel n)"
| "perform_call su (SetX11Handler h) = bmodify (\<lambda>s. s\<lparr>x11_handler := Some (if h = 0 then QueueHandler else UserHandler)\<rparr>)"
| "perform_call su (SetForwardAgentHandler h) =
     bmodify (\<lambda>s. s\<lparr>forward_agent_handler := Some (if h = 0 then QueueHandler else UserHandler)\<rparr>)"

fun perform_calls :: "('e, 'z) surroundings \<Rightarrow> tcall list \<Rightarrow> (('e, 'z) transport, unit) bpy" where
  "perform_calls su [] = bret ()"
| "perform_calls su (c # cs) = bbind (perform_call su c) (\<lambda>_. perform_calls su cs)"

text \<open>A method of the channel \<open>n\<close>: the channel sees whether its sends will fail, and what it asked of
  the transport is done. In the methods called here the sends are the last actions.\<close>

definition chan_view :: "('e, 'z) transport \<Rightarrow> channel \<Rightarrow> channel" where
  "chan_view s c =
     c\<lparr>send_error := (if t_active s \<and> \<not> clear_to_send s then Some kex_timeout else None),
       saved_exception := t_saved_exception s, calls := []\<rparr>"

definition on_channel ::
  "('e, 'z) surroundings \<Rightarrow> int \<Rightarrow> (channel, unit) py \<Rightarrow> (('e, 'z) transport, unit) bpy" where
  "on_channel su n op s =
     (case chan_get n (channels s) of
        None \<Rightarrow> bret () s
      | Some c \<Rightarrow>
          (case op (chan_view s c) of
             (r, c') \<Rightarrow>
               bbind (perform_calls su (calls c')) (\<lambda>_. blift r)
                 (s\<lparr>channels := chan_put n c' (channels s)\<rparr>)))"

text \<open>\<^verbatim>\<open>chan._unlink()\<close>, and \<^verbatim>\<open>close\<close> in the transport's own thread.\<close>

definition unlink_one :: "channel \<Rightarrow> ('e, 'z) transport \<Rightarrow> ('e, 'z) transport" where
  "unlink_one c s =
     (if chan_closed c then s
      else unlink_channel (chanid c) (s\<lparr>channels := chan_put (chanid c) (set_closed c) (channels s)\<rparr>))"

definition t_close :: "('e, 'z) transport \<Rightarrow> ('e, 'z) transport" where
  "t_close s =
     (if \<not> t_active s then s
      else let s = s\<lparr>t_active := False, pktz := close_packetizer (pktz s)\<rparr>
           in fold unlink_one (chan_values (channels s)) s)"

end
