(* ===== verification/Auth_Handler.thy ===== *)
theory Auth_Handler
  imports Transport_State
begin

text \<open>
  User authentication, \<^verbatim>\<open>paramiko/auth_handler.py\<close>: the handlers of messages on the side of the
  server and of the client, the choice of the algorithm of a signature, and the methods by which a
  client asks for authentication. GSS-API is left out: the server is one whose
  \<^verbatim>\<open>enable_auth_gssapi\<close> answers \<^verbatim>\<open>False\<close>, as the one of \<^verbatim>\<open>ServerInterface\<close> does, and the client
  does not use these methods.
\<close>

section \<open>Constants\<close>

definition MSG_USERAUTH_PK_OK :: byte where [msg_codes]: "MSG_USERAUTH_PK_OK = 60"
definition MSG_USERAUTH_INFO_REQUEST :: byte where [msg_codes]: "MSG_USERAUTH_INFO_REQUEST = 60"
definition MSG_USERAUTH_INFO_RESPONSE :: byte where [msg_codes]: "MSG_USERAUTH_INFO_RESPONSE = 61"

definition AUTH_SUCCESSFUL :: int where "AUTH_SUCCESSFUL = 0"
definition AUTH_PARTIALLY_SUCCESSFUL :: int where "AUTH_PARTIALLY_SUCCESSFUL = 1"
definition AUTH_FAILED :: int where "AUTH_FAILED = 2"

definition DISCONNECT_SERVICE_NOT_AVAILABLE :: int where "DISCONNECT_SERVICE_NOT_AVAILABLE = 7"
definition DISCONNECT_NO_MORE_AUTH_METHODS_AVAILABLE :: int where "DISCONNECT_NO_MORE_AUTH_METHODS_AVAILABLE = 14"

section \<open>The handler object\<close>

text \<open>A change of its attributes; its methods are only called when there is one.\<close>

definition on_auth :: "(auth_state \<Rightarrow> auth_state) \<Rightarrow> ('e, 'z) transport \<Rightarrow> ('e, 'z) transport" where
  "on_auth f s = s\<lparr>auth_handler := Some (f (auth_self s))\<rparr>"

definition set_auth_event :: "auth_state \<Rightarrow> auth_state" where
  "set_auth_event h = h\<lparr>auth_event := map_option (\<lambda>_. True) (auth_event h)\<rparr>"

definition auth_abort :: "('e, 'z) transport \<Rightarrow> ('e, 'z) transport" where
  "auth_abort s = (if auth_handler s = None then s else on_auth set_auth_event s)"

definition get_username :: "('e, 'z) transport \<Rightarrow> pystr option" where
  "get_username s = (if server_mode s then auth_username (auth_self s) else ah_username (auth_self s))"

definition disconnect_service_not_available :: "('e, 'z) surroundings \<Rightarrow> (('e, 'z) transport, unit) bpy" where
  "disconnect_service_not_available su =
     bbind (send_msg su [FRaw [MSG_DISCONNECT], FInt DISCONNECT_SERVICE_NOT_AVAILABLE,
              FString (lit ''Service not available''), FString (lit ''en'')]) (\<lambda>_. bmodify t_close)"

definition disconnect_no_more_auth :: "('e, 'z) surroundings \<Rightarrow> (('e, 'z) transport, unit) bpy" where
  "disconnect_no_more_auth su =
     bbind (send_msg su [FRaw [MSG_DISCONNECT], FInt DISCONNECT_NO_MORE_AUTH_METHODS_AVAILABLE,
              FString (lit ''No more auth methods available''), FString (lit ''en'')]) (\<lambda>_. bmodify t_close)"

section \<open>Keys and algorithms\<close>

text \<open>\<^verbatim>\<open>s.replace(p, "")\<close> for a nonempty \<open>p\<close>.\<close>

function remove_all :: "pystr \<Rightarrow> pystr \<Rightarrow> pystr" where
  "remove_all p s =
     (if s = [] then [] else if p \<noteq> [] \<and> startswith s p then remove_all p (drop (length p) s)
      else hd s # remove_all p (tl s))"
  by pat_completeness auto
termination by (relation "measure (\<lambda>(p, s). length s)") auto

declare remove_all.simps [simp del]

definition cert_suffix :: pystr where
  "cert_suffix = lit ''-cert-v01@openssh.com''"

definition endswith :: "pystr \<Rightarrow> pystr \<Rightarrow> bool" where
  "endswith s p \<longleftrightarrow> length p \<le> length s \<and> drop (length s - length p) s = p"

text \<open>\<^verbatim>\<open>_get_key_type_and_bits\<close>: of a certificate its own, otherwise those of the key.\<close>

definition get_key_type_and_bits :: "host_key \<Rightarrow> pystr \<times> bytes" where
  "get_key_type_and_bits key = (case hk_public_blob key of Some b \<Rightarrow> b | None \<Rightarrow> (hk_name key, hk_blob key))"

definition get_session_blob ::
  "('e, 'z) transport \<Rightarrow> host_key \<Rightarrow> pystr \<Rightarrow> pystr \<Rightarrow> pystr \<Rightarrow> py_error + bytes" where
  "get_session_blob s key service username algorithm =
     (case session_id s of
        None \<Rightarrow> Inl TypeError
      | Some sid \<Rightarrow>
          message_of [FString sid, FRaw [MSG_USERAUTH_REQUEST], FString username, FString service,
            FString (lit ''publickey''), FBool True, FString algorithm, FString (snd (get_key_type_and_bits key))])"

definition generate_key_from_request ::
  "('e, 'z) lib \<Rightarrow> pystr \<Rightarrow> bytes \<Rightarrow> ('e, 'z) transport \<Rightarrow> py_error + host_key option" where
  "generate_key_from_request l algorithm keyblob s =
     (if remove_all cert_suffix algorithm \<notin> set (preferred_pubkeys s) then Inr None
      else case map_of key_table algorithm of
        None \<Rightarrow> Inl KeyError
      | Some cls \<Rightarrow> rbind (load_key l cls keyblob) (\<lambda>k. Inr (Some k)))"

text \<open>The search of \<^verbatim>\<open>-OpenSSH_(?:[1-6]|7\.[0-7])\<close> in the version of the server.\<close>

definition old_openssh_at :: "pystr \<Rightarrow> bool" where
  "old_openssh_at s \<longleftrightarrow> startswith s (lit ''-OpenSSH_'') \<and>
     (case drop 9 s of
        c # d # e # _ \<Rightarrow> 0x31 \<le> c \<and> c \<le> 0x36 \<or> c = 0x37 \<and> d = 0x2E \<and> 0x30 \<le> e \<and> e \<le> 0x37
      | c # _ \<Rightarrow> 0x31 \<le> c \<and> c \<le> 0x36
      | [] \<Rightarrow> False)"

fun old_openssh :: "pystr \<Rightarrow> bool" where
  "old_openssh [] = False"
| "old_openssh (c # s) = (old_openssh_at (c # s) \<or> old_openssh s)"

definition choose_fallback_pubkey_algorithm :: "pystr \<Rightarrow> pystr list \<Rightarrow> pystr" where
  "choose_fallback_pubkey_algorithm key_type my_algos = hd my_algos"

text \<open>\<^verbatim>\<open>AuthOnlyHandler._choose_fallback_pubkey_algorithm\<close>.\<close>

definition choose_fallback_auth_only :: "pystr \<Rightarrow> pystr list \<Rightarrow> pystr" where
  "choose_fallback_auth_only key_type my_algos =
     (if key_type \<in> set my_algos then key_type
      else if remove_all cert_suffix key_type \<in> set my_algos then remove_all cert_suffix key_type
      else hd my_algos)"

text \<open>\<^verbatim>\<open>_finalize_pubkey_algorithm\<close>, with the method that chooses when the server has sent no list; the
  attribute \<^verbatim>\<open>_agreed_pubkey_algorithm\<close>, which is never read, is left out.\<close>

definition finalize_pubkey_algorithm ::
  "(pystr \<Rightarrow> pystr list \<Rightarrow> pystr) \<Rightarrow> pystr \<Rightarrow> ('e, 'z) transport \<Rightarrow> py_error + pystr" where
  "finalize_pubkey_algorithm fallback key_type s =
     (if \<not> contains (lit ''rsa'') key_type then Inr key_type
      else if endswith key_type cert_suffix \<and> old_openssh (remote_version s)
      then Inr (lit ''ssh-rsa-cert-v01@openssh.com'')
      else
        let my_algos = filter (contains (lit ''rsa'')) (preferred_pubkeys s) in
        if my_algos = [] then Inl (SSHException ''An RSA key was specified, but no RSA pubkey algorithms are configured!'')
        else
          rbind (utf8_decode (case map_of (server_extensions s) (lit ''server-sig-algs'') of Some b \<Rightarrow> b | None \<Rightarrow> [])) (\<lambda>server_algo_str.
          rbind (if server_algo_str \<noteq> [] then
                   (case filter (\<lambda>a. a \<in> set (split_on 0x2C server_algo_str)) my_algos of
                      a # _ \<Rightarrow> Inr a
                    | [] \<Rightarrow> Inl (AuthenticationException ''Unable to agree on a pubkey algorithm''))
                 else Inr (fallback key_type my_algos)) (\<lambda>pubkey_algo.
          Inr (if endswith key_type cert_suffix then pubkey_algo @ cert_suffix else pubkey_algo))))"

section \<open>The server\<close>

definition parse_service_request :: "('e, 'z) surroundings \<Rightarrow> message \<Rightarrow> (('e, 'z) transport, unit) bpy" where
  "parse_service_request su m =
     bbind (nb (on_message get_text m)) (\<lambda>(service, m). \<lambda>s.
     if server_mode s \<and> service = lit ''ssh-userauth'' then
       bbind (send_msg su [FRaw [MSG_SERVICE_ACCEPT], FString service]) (\<lambda>_.
       case get_banner (su_server su) of
         (Some banner, language) \<Rightarrow>
           (if banner \<noteq> [] then send_msg su [FRaw [MSG_USERAUTH_BANNER], FString banner, FString language] else bret ())
       | (None, _) \<Rightarrow> bret ()) s
     else disconnect_service_not_available su s)"

definition send_auth_result ::
  "('e, 'z) surroundings \<Rightarrow> pystr option \<Rightarrow> int \<Rightarrow> (('e, 'z) transport, unit) bpy" where
  "send_auth_result su username result =
     bbind
       (if result = AUTH_SUCCESSFUL then
          bbind (bmodify (on_auth (\<lambda>h. h\<lparr>ah_authenticated := True\<rparr>))) (\<lambda>_. send_msg su [FRaw [MSG_USERAUTH_SUCCESS]])
        else
          bbind (blift (message_of [FRaw [MSG_USERAUTH_FAILURE], FString (get_allowed_auths (su_server su) username),
                   FBool (result = AUTH_PARTIALLY_SUCCESSFUL)])) (\<lambda>m.
          bbind (bmodify (on_auth (\<lambda>h. if result = AUTH_PARTIALLY_SUCCESSFUL then h
                   else h\<lparr>auth_fail_count := auth_fail_count h + 1\<rparr>))) (\<lambda>_.
          t_send_message (su_lib su) (su_rnd su) m))) (\<lambda>_.
     bbind (\<lambda>s. if auth_fail_count (auth_self s) \<ge> 10 then disconnect_no_more_auth su s else bret () s) (\<lambda>_.
     if result = AUTH_SUCCESSFUL then bmodify (auth_trigger (su_lib su)) else bret ()))"

fun prompt_fields :: "(pystr \<times> bool) list \<Rightarrow> field list" where
  "prompt_fields [] = []"
| "prompt_fields ((prompt, echo) # ps) = FString prompt # FBool echo # prompt_fields ps"

definition interactive_query :: "('e, 'z) surroundings \<Rightarrow> auth_query \<Rightarrow> (('e, 'z) transport, unit) bpy" where
  "interactive_query su q =
     send_msg su ([FRaw [MSG_USERAUTH_INFO_REQUEST], FString (query_name q), FString (query_instructions q), FString [],
       FInt (int (length (query_prompts q)))] @ prompt_fields (query_prompts q))"

text \<open>What a method of authentication comes to: a result that is still to be sent, or nothing more to
  do.\<close>

datatype verdict = Verdict int | Answered

definition auth_by_password ::
  "('e, 'z) surroundings \<Rightarrow> pystr \<Rightarrow> message \<Rightarrow> (('e, 'z) transport, verdict) bpy" where
  "auth_by_password su username m =
     bbind (nb (on_message get_boolean m)) (\<lambda>(changereq, m).
     bbind (nb (on_message get_binary m)) (\<lambda>(password, m).
     let password = (case utf8_decode password of Inr t \<Rightarrow> PText t | Inl _ \<Rightarrow> PBytes password) in
     if changereq then bbind (nb (on_message get_binary m)) (\<lambda>_. bret (Verdict AUTH_FAILED))
     else bret (Verdict (check_auth_password (su_server su) username password))))"

definition check_publickey ::
  "('e, 'z) surroundings \<Rightarrow> pystr \<Rightarrow> pystr \<Rightarrow> bool \<Rightarrow> pystr \<Rightarrow> bytes \<Rightarrow> message \<Rightarrow> (('e, 'z) transport, verdict) bpy" where
  "check_publickey su username service sig_attached algorithm keyblob m s =
     (case generate_key_from_request (su_lib su) algorithm keyblob s of
        Inr (Some key) \<Rightarrow>
          let result = check_auth_publickey (su_server su) username key in
          if result = AUTH_FAILED then bret (Verdict result) s
          else if \<not> sig_attached then
            bbind (send_msg su [FRaw [MSG_USERAUTH_PK_OK], FString algorithm, FString keyblob]) (\<lambda>_. bret Answered) s
          else
            bbind (nb (on_message get_binary m)) (\<lambda>(sig, m).
            bbind (blift (get_session_blob s key service username algorithm)) (\<lambda>blob.
            bbind (blift (verify_ssh_sig (su_lib su) key blob sig)) (\<lambda>ok.
            bret (Verdict (if ok then result else AUTH_FAILED))))) s
      | _ \<Rightarrow> bbind (disconnect_no_more_auth su) (\<lambda>_. bret Answered) s)"

definition auth_by_publickey ::
  "('e, 'z) surroundings \<Rightarrow> pystr \<Rightarrow> pystr \<Rightarrow> message \<Rightarrow> (('e, 'z) transport, verdict) bpy" where
  "auth_by_publickey su username service m =
     bbind (nb (on_message get_boolean m)) (\<lambda>(sig_attached, m).
     bbind (nb (on_message get_text m)) (\<lambda>(algorithm, m).
     bbind (nb (on_message get_binary m)) (\<lambda>(keyblob, m).
     check_publickey su username service sig_attached algorithm keyblob m)))"

definition auth_by_interactive ::
  "('e, 'z) surroundings \<Rightarrow> pystr \<Rightarrow> message \<Rightarrow> (('e, 'z) transport, verdict) bpy" where
  "auth_by_interactive su username m =
     bbind (nb (on_message get_string m)) (\<lambda>(submethods, m).
     case check_auth_interactive (su_server su) username submethods of
       IQuery q \<Rightarrow> bbind (interactive_query su q) (\<lambda>_. bret Answered)
     | IResult result \<Rightarrow> bret (Verdict result))"

definition auth_by_method ::
  "('e, 'z) surroundings \<Rightarrow> pystr \<Rightarrow> pystr \<Rightarrow> pystr \<Rightarrow> message \<Rightarrow> (('e, 'z) transport, verdict) bpy" where
  "auth_by_method su username service method m =
     (if method = lit ''password'' then auth_by_password su username m
      else if method = lit ''publickey'' then auth_by_publickey su username service m
      else if method = lit ''keyboard-interactive'' then auth_by_interactive su username m
      else bret (Verdict (check_auth_none (su_server su) username)))"

text \<open>The request once its first fields are read.\<close>

definition check_userauth_request ::
  "('e, 'z) surroundings \<Rightarrow> pystr \<Rightarrow> pystr \<Rightarrow> pystr \<Rightarrow> message \<Rightarrow> (('e, 'z) transport, unit) bpy" where
  "check_userauth_request su username service method m s =
     (if service \<noteq> lit ''ssh-connection'' then disconnect_service_not_available su s
      else if auth_username (auth_self s) \<noteq> None \<and> auth_username (auth_self s) \<noteq> Some username
      then disconnect_no_more_auth su s
      else
        bbind (auth_by_method su username service method m) (\<lambda>v.
          case v of Verdict result \<Rightarrow> send_auth_result su (Some username) result | Answered \<Rightarrow> bret ())
        (on_auth (\<lambda>h. h\<lparr>auth_username := Some username\<rparr>) s))"

definition parse_userauth_request :: "('e, 'z) surroundings \<Rightarrow> message \<Rightarrow> (('e, 'z) transport, unit) bpy" where
  "parse_userauth_request su m s =
     (if \<not> server_mode s then send_msg su [FRaw [MSG_USERAUTH_FAILURE], FString (lit ''none''), FBool False] s
      else if ah_authenticated (auth_self s) then bret () s
      else
        bbind (nb (on_message get_text m)) (\<lambda>(username, m).
        bbind (nb (on_message get_text m)) (\<lambda>(service, m).
        bbind (nb (on_message get_text m)) (\<lambda>(method, m).
        check_userauth_request su username service method m))) s)"

fun text_loop :: "nat \<Rightarrow> (message, pystr list) py" where
  "text_loop 0 = pret []"
| "text_loop (Suc n) = pbind get_text (\<lambda>t. pbind (text_loop n) (\<lambda>ts. pret (t # ts)))"

definition parse_userauth_info_response :: "('e, 'z) surroundings \<Rightarrow> message \<Rightarrow> (('e, 'z) transport, unit) bpy" where
  "parse_userauth_info_response su m s =
     (if \<not> server_mode s then braise (SSHException ''Illegal info response from server'') s
      else
        bbind (nb (on_message (pbind get_int (\<lambda>n. text_loop (nat n))) m)) (\<lambda>(responses, _).
        case check_auth_interactive_response (su_server su) responses of
          IQuery q \<Rightarrow> interactive_query su q
        | IResult result \<Rightarrow> (\<lambda>s. send_auth_result su (auth_username (auth_self s)) result s)) s)"

section \<open>The client\<close>

definition parse_service_accept :: "('e, 'z) surroundings \<Rightarrow> message \<Rightarrow> (('e, 'z) transport, unit) bpy" where
  "parse_service_accept su m =
     bbind (nb (on_message get_text m)) (\<lambda>(service, _). \<lambda>s.
     let h = auth_self s; username = (case ah_username h of Some u \<Rightarrow> u | None \<Rightarrow> []);
         head = [FRaw [MSG_USERAUTH_REQUEST], FString username, FString (lit ''ssh-connection''), FString (auth_method h)]
     in
     if service \<noteq> lit ''ssh-userauth'' then bret () s
     else if ah_username h = None then braise OtherException s
     else if auth_method h = lit ''password'' then
       send_msg su (head @ [FBool False, FString (auth_password h)]) s
     else if auth_method h = lit ''publickey'' then
       (case private_key h of
          None \<Rightarrow> braise OtherException s
        | Some key \<Rightarrow>
            let (key_type, bits) = get_key_type_and_bits key in
            bbind (blift (finalize_pubkey_algorithm choose_fallback_pubkey_algorithm key_type s)) (\<lambda>algorithm.
            bbind (blift (get_session_blob s key (lit ''ssh-connection'') username algorithm)) (\<lambda>blob.
            bbind (blift (sign_ssh_data (su_lib su) key blob algorithm)) (\<lambda>sig.
            send_msg su (head @ [FBool True, FString algorithm, FString bits, FString sig])))) s)
     else if auth_method h = lit ''keyboard-interactive'' then
       send_msg su (head @ [FString [], FString (submethods h)]) s
     else if auth_method h = lit ''none'' then send_msg su head s
     else braise (SSHException ''Unknown auth method'') s)"

definition parse_userauth_success :: "('e, 'z) surroundings \<Rightarrow> (('e, 'z) transport, unit) bpy" where
  "parse_userauth_success su =
     bmodify (\<lambda>s. on_auth set_auth_event (auth_trigger (su_lib su) (on_auth (\<lambda>h. h\<lparr>ah_authenticated := True\<rparr>) s)))"

definition parse_userauth_failure :: "message \<Rightarrow> (('e, 'z) transport, unit) bpy" where
  "parse_userauth_failure m =
     bbind (nb (on_message get_list m)) (\<lambda>(authlist, m).
     bbind (nb (on_message get_boolean m)) (\<lambda>(partial, m).
     bmodify (\<lambda>s.
       let s = (if partial then s\<lparr>t_saved_exception := Some (PartialAuthentication authlist)\<rparr>
                else if auth_method (auth_self s) \<notin> set authlist
                then s\<lparr>t_saved_exception := Some (BadAuthenticationType authlist)\<rparr> else s)
       in on_auth (\<lambda>h. set_auth_event (h\<lparr>ah_authenticated := False, ah_username := None\<rparr>)) s)))"

definition parse_userauth_banner :: "message \<Rightarrow> (('e, 'z) transport, unit) bpy" where
  "parse_userauth_banner m =
     bbind (nb (on_message get_string m)) (\<lambda>(banner, m). bmodify (on_auth (\<lambda>h. h\<lparr>auth_banner := Some banner\<rparr>)))"

fun prompt_loop :: "nat \<Rightarrow> (message, (pystr \<times> bool) list) py" where
  "prompt_loop 0 = pret []"
| "prompt_loop (Suc n) = pbind get_text (\<lambda>t. pbind get_boolean (\<lambda>b. pbind (prompt_loop n) (\<lambda>ps. pret ((t, b) # ps))))"

definition parse_userauth_info_request :: "('e, 'z) surroundings \<Rightarrow> message \<Rightarrow> (('e, 'z) transport, unit) bpy" where
  "parse_userauth_info_request su m s =
     (if auth_method (auth_self s) \<noteq> lit ''keyboard-interactive''
      then braise (SSHException ''Illegal info request from server'') s
      else
        bbind (nb (on_message get_text m)) (\<lambda>(title, m).
        bbind (nb (on_message get_text m)) (\<lambda>(instructions, m).
        bbind (nb (on_message get_binary m)) (\<lambda>(lang, m).
        bbind (nb (on_message (pbind get_int (\<lambda>n. prompt_loop (nat n))) m)) (\<lambda>(prompt_list, m).
        let response_list = interactive_handler (auth_self s) title instructions prompt_list in
        send_msg su ([FRaw [MSG_USERAUTH_INFO_RESPONSE], FInt (int (length response_list))] @ map FString response_list))))) s)"

section \<open>The table\<close>

definition auth_types :: "bool \<Rightarrow> byte list" where
  "auth_types server =
     (if server then [MSG_SERVICE_REQUEST, MSG_USERAUTH_REQUEST, MSG_USERAUTH_INFO_RESPONSE]
      else [MSG_SERVICE_ACCEPT, MSG_USERAUTH_SUCCESS, MSG_USERAUTH_FAILURE, MSG_USERAUTH_BANNER, MSG_USERAUTH_INFO_REQUEST])"

definition auth_next :: "('e, 'z) surroundings \<Rightarrow> byte \<Rightarrow> message \<Rightarrow> (('e, 'z) transport, unit) bpy" where
  "auth_next su ptype m s =
     (if server_mode s then
        (if ptype = MSG_SERVICE_REQUEST then parse_service_request su m s
         else if ptype = MSG_USERAUTH_REQUEST then parse_userauth_request su m s
         else parse_userauth_info_response su m s)
      else
        (if ptype = MSG_SERVICE_ACCEPT then parse_service_accept su m s
         else if ptype = MSG_USERAUTH_SUCCESS then parse_userauth_success su s
         else if ptype = MSG_USERAUTH_FAILURE then parse_userauth_failure m s
         else if ptype = MSG_USERAUTH_BANNER then parse_userauth_banner m s
         else parse_userauth_info_request su m s))"

section \<open>Asking for authentication\<close>

text \<open>\<^verbatim>\<open>Transport.auth_none\<close>, \<^verbatim>\<open>auth_password\<close>, \<^verbatim>\<open>auth_publickey\<close> and \<^verbatim>\<open>auth_interactive\<close> up to the wait: a new
  handler, its attributes, and the request for the service.\<close>

definition start_auth :: "('e, 'z) surroundings \<Rightarrow> (auth_state \<Rightarrow> auth_state) \<Rightarrow> (('e, 'z) transport, unit) bpy" where
  "start_auth su attributes s =
     (if \<not> t_active s \<or> \<not> initial_kex_done s then braise (SSHException ''No existing session'') s
      else
        bbind (bmodify (\<lambda>s. s\<lparr>auth_handler := Some (attributes (AuthHandler_init\<lparr>auth_event := Some False\<rparr>))\<rparr>)) (\<lambda>_.
        send_msg su [FRaw [MSG_SERVICE_REQUEST], FString (lit ''ssh-userauth'')]) s)"

definition start_auth_none :: "('e, 'z) surroundings \<Rightarrow> pystr \<Rightarrow> (('e, 'z) transport, unit) bpy" where
  "start_auth_none su u = start_auth su (\<lambda>h. h\<lparr>auth_method := lit ''none'', ah_username := Some u\<rparr>)"

definition start_auth_publickey :: "('e, 'z) surroundings \<Rightarrow> pystr \<Rightarrow> host_key \<Rightarrow> (('e, 'z) transport, unit) bpy" where
  "start_auth_publickey su u key =
     start_auth su (\<lambda>h. h\<lparr>auth_method := lit ''publickey'', ah_username := Some u, private_key := Some key\<rparr>)"

definition start_auth_password :: "('e, 'z) surroundings \<Rightarrow> pystr \<Rightarrow> bytes \<Rightarrow> (('e, 'z) transport, unit) bpy" where
  "start_auth_password su u p =
     start_auth su (\<lambda>h. h\<lparr>auth_method := lit ''password'', ah_username := Some u, auth_password := p\<rparr>)"

definition start_auth_interactive ::
  "('e, 'z) surroundings \<Rightarrow> pystr \<Rightarrow> (pystr \<Rightarrow> pystr \<Rightarrow> (pystr \<times> bool) list \<Rightarrow> pystr list) \<Rightarrow> pystr \<Rightarrow> (('e, 'z) transport, unit) bpy" where
  "start_auth_interactive su u handler sub =
     start_auth su (\<lambda>h. h\<lparr>auth_method := lit ''keyboard-interactive'', ah_username := Some u,
                         interactive_handler := handler, submethods := sub\<rparr>)"

text \<open>\<^verbatim>\<open>wait_for_response\<close>: each element of the list is the state of the transport when a wait for the
  event ends, and whether the time is up. The result is the list of methods that may continue.\<close>

fun wait_for_response :: "(('e, 'z) transport \<times> bool) list \<Rightarrow> pystr list blocking" where
  "wait_for_response [] = Waiting"
| "wait_for_response ((s, late) # seen) =
     (if \<not> t_active s then
        Done (Inl (case t_saved_exception s of
                None \<Rightarrow> AuthenticationException ''Authentication failed: transport shut down or saw EOF''
              | Some EOFError \<Rightarrow> AuthenticationException ''Authentication failed: transport shut down or saw EOF''
              | Some e \<Rightarrow> e))
      else if auth_event (auth_self s) = Some True then
        (if authed s then Done (Inr [])
         else case t_saved_exception s of
                None \<Rightarrow> Done (Inl (AuthenticationException ''Authentication failed.''))
              | Some (PartialAuthentication types) \<Rightarrow> Done (Inr types)
              | Some e \<Rightarrow> Done (Inl e))
      else if late then Done (Inl (AuthenticationException ''Authentication timeout.''))
      else wait_for_response seen)"

end
