(* ===== verification/Transport.thy ===== *)
theory Transport
  imports Auth_Handler
begin

text \<open>
  The class \<^verbatim>\<open>Transport\<close> of \<^verbatim>\<open>paramiko/transport.py\<close>: the handlers of messages and the loop of \<^verbatim>\<open>run\<close>
  that reads and dispatches them. Handlers run in the transport's own thread.
\<close>

section \<open>Handlers\<close>

fun ext_info_loop :: "nat \<Rightarrow> (pystr \<times> bytes) list \<Rightarrow> (message, (pystr \<times> bytes) list) py" where
  "ext_info_loop 0 ext = pret ext"
| "ext_info_loop (Suc n) ext =
     pbind get_text (\<lambda>name. pbind get_string (\<lambda>value. ext_info_loop n (dict_set name value ext)))"

definition parse_ext_info :: "message \<Rightarrow> (('e, 'z) transport, unit) bpy" where
  "parse_ext_info m =
     bbind (nb (on_message (pbind get_int (\<lambda>n. ext_info_loop (nat n) [])) m)) (\<lambda>(ext, _).
     bmodify (\<lambda>s. s\<lparr>server_extensions := ext\<rparr>))"

definition parse_newkeys :: "('e, 'z) surroundings \<Rightarrow> (('e, 'z) transport, unit) bpy" where
  "parse_newkeys su =
     bbind (activate_inbound (su_lib su)) (\<lambda>_.
     bmodify (\<lambda>s.
       let s = s\<lparr>local_kex_init := None, remote_kex_init := None, t_K := None, kex_engine := None\<rparr>;
           s = (if server_mode s \<and> auth_handler s = None then s\<lparr>auth_handler := Some AuthHandler_init\<rparr> else s);
           s = (if \<not> initial_kex_done s
                then s\<lparr>initial_kex_done := True, pktz := (pktz s)\<lparr>pk_initial_kex_done := True\<rparr>\<rparr> else s);
           s = set_completion s;
           s = (if \<not> need_rekey (pktz s) then s\<lparr>in_kex := False\<rparr> else s)
       in s\<lparr>clear_to_send := True\<rparr>))"

text \<open>\<^verbatim>\<open>kex_engine.start_kex()\<close> and \<^verbatim>\<open>kex_engine.parse_next(ptype, m)\<close>.\<close>

definition start_kex :: "('e, 'z) surroundings \<Rightarrow> (('e, 'z) transport, unit) bpy" where
  "start_kex su s =
     (case kex_engine s of
        None \<Rightarrow> braise OtherException s
      | Some k \<Rightarrow>
          (case dh_P k of
             Some P \<Rightarrow> dh_start_kex (su_lib su) P (su_rnd su) (su_draws su) s
           | None \<Rightarrow> other_start (su_parts su) k s))"

definition kex_parse_next :: "('e, 'z) surroundings \<Rightarrow> byte \<Rightarrow> message \<Rightarrow> (('e, 'z) transport, unit) bpy" where
  "kex_parse_next su ptype m s =
     (case kex_engine s of
        None \<Rightarrow> braise OtherException s
      | Some k \<Rightarrow>
          (case dh_P k of
             Some P \<Rightarrow> dh_parse_next (su_lib su) P (su_rnd su) ptype m s
           | None \<Rightarrow> other_next (su_parts su) k ptype m s))"

definition negotiate_keys :: "('e, 'z) surroundings \<Rightarrow> message \<Rightarrow> int \<Rightarrow> (('e, 'z) transport, unit) bpy" where
  "negotiate_keys su m seqno =
     bbind (bmodify (\<lambda>s. s\<lparr>clear_to_send := False\<rparr>)) (\<lambda>_.
     bbind (\<lambda>s. if local_kex_init s = None then send_kex_init (su_lib su) (su_rnd su) (su_cookie su) s else bret () s) (\<lambda>_.
     bbind (nb (parse_kex_init m seqno)) (\<lambda>_.
     start_kex su)))"

definition parse_global_request :: "('e, 'z) surroundings \<Rightarrow> message \<Rightarrow> (('e, 'z) transport, unit) bpy" where
  "parse_global_request su m =
     bbind (nb (on_message get_text m)) (\<lambda>(kind, m).
     bbind (nb (on_message get_boolean m)) (\<lambda>(want_reply, m).
     bbind (\<lambda>s.
       if \<not> server_mode s then bret (GBool False) s
       else if kind = lit ''tcpip-forward'' then
         bbind (nb (on_message get_text m)) (\<lambda>(address, m).
         bbind (nb (on_message get_int m)) (\<lambda>(port, m).
         let ok = check_port_forward_request (su_server su) address port
         in bret (if ok \<noteq> 0 then GTuple [IInt ok] else GBool False))) s
       else if kind = lit ''cancel-tcpip-forward'' then
         bbind (nb (on_message get_text m)) (\<lambda>(address, m).
         bbind (nb (on_message get_int m)) (\<lambda>(port, m).
         bret (GBool True))) s
       else bret (check_global_request (su_server su) kind m) s) (\<lambda>ok.
     if want_reply then
       (case ok of
          GTuple extra \<Rightarrow>
            bbind (blift (case add_byte [MSG_REQUEST_SUCCESS] (Message_init None) of
                            (Inl e, _) \<Rightarrow> Inl e
                          | (Inr _, msg) \<Rightarrow>
                              (case add_items extra msg of (Inl e, _) \<Rightarrow> Inl e | (Inr _, msg) \<Rightarrow> Inr (msg_asbytes msg))))
              (t_send_message (su_lib su) (su_rnd su))
        | GBool True \<Rightarrow> send_msg su [FRaw [MSG_REQUEST_SUCCESS]]
        | GBool False \<Rightarrow> send_msg su [FRaw [MSG_REQUEST_FAILURE]])
     else bret ())))"

definition parse_request_success :: "message \<Rightarrow> (('e, 'z) transport, unit) bpy" where
  "parse_request_success m = bmodify (\<lambda>s. set_completion (s\<lparr>global_response := Some m\<rparr>))"

definition parse_request_failure :: "message \<Rightarrow> (('e, 'z) transport, unit) bpy" where
  "parse_request_failure m = bmodify (\<lambda>s. set_completion (s\<lparr>global_response := None\<rparr>))"

text \<open>\<^verbatim>\<open>str(n)\<close> for a channel number.\<close>

fun decimal :: "nat \<Rightarrow> pystr" where
  "decimal n = (if n < 10 then [of_nat (48 + n)] else decimal (n div 10) @ [of_nat (48 + n mod 10)])"

declare decimal.simps [simp del]

definition new_channel :: "int \<Rightarrow> channel" where
  "new_channel n = set_transport (Channel_init n (decimal (nat n)))"

text \<open>\<^verbatim>\<open>_next_channel\<close>; when every number is in use it does not return.\<close>

definition alloc_channel :: "(('e, 'z) transport, int) bpy" where
  "alloc_channel s =
     (case next_channel (channels s) (channel_counter s) of
        None \<Rightarrow> (Waiting, s)
      | Some (n, c) \<Rightarrow> bret n (s\<lparr>channel_counter := c\<rparr>))"

definition set_channel_event :: "int \<Rightarrow> ('e, 'z) transport \<Rightarrow> ('e, 'z) transport" where
  "set_channel_event n s = s\<lparr>channel_events := filter (\<lambda>(k, _). k \<noteq> n) (channel_events s)\<rparr>"

definition parse_channel_open_success :: "message \<Rightarrow> (('e, 'z) transport, unit) bpy" where
  "parse_channel_open_success m =
     bbind (nb (on_message get_int m)) (\<lambda>(chanid, m).
     bbind (nb (on_message get_int m)) (\<lambda>(server_chanid, m).
     bbind (nb (on_message get_int m)) (\<lambda>(server_window_size, m).
     bbind (nb (on_message get_int m)) (\<lambda>(server_max_packet_size, m).
     bmodify (\<lambda>s. case chan_get chanid (channels s) of
       None \<Rightarrow> s
     | Some c \<Rightarrow>
         set_channel_event chanid (s\<lparr>channels := chan_put chanid
           (set_remote_channel server_chanid server_window_size server_max_packet_size c) (channels s)\<rparr>))))))"

definition parse_channel_open_failure :: "message \<Rightarrow> (('e, 'z) transport, unit) bpy" where
  "parse_channel_open_failure m =
     bbind (nb (on_message get_int m)) (\<lambda>(chanid, m).
     bbind (nb (on_message get_int m)) (\<lambda>(reason, m).
     bbind (nb (on_message get_text m)) (\<lambda>(reason_str, m).
     bbind (nb (on_message get_text m)) (\<lambda>(lang, m).
     bmodify (\<lambda>s.
       let s = s\<lparr>t_saved_exception := Some (ChannelException reason)\<rparr> in
       if chanid \<in> fst ` set (channel_events s) then set_channel_event chanid (unlink_channel chanid s) else s)))))"

text \<open>The first part of \<^verbatim>\<open>_parse_channel_open\<close>: the reason to reject, or the new number; in the latter
  case the flag says whether the variables with the origin of the connection are bound.\<close>

definition decide_channel_open ::
  "('e, 'z) surroundings \<Rightarrow> pystr \<Rightarrow> message \<Rightarrow> (('e, 'z) transport, int + int \<times> bool) bpy" where
  "decide_channel_open su kind m s =
     (if kind = lit ''auth-agent@openssh.com'' \<and> forward_agent_handler s \<noteq> None then
        bbind alloc_channel (\<lambda>n. bret (Inr (n, False))) s
      else if kind = lit ''x11'' \<and> x11_handler s \<noteq> None then
        bbind (nb (on_message get_text m)) (\<lambda>(origin_addr, m).
        bbind (nb (on_message get_int m)) (\<lambda>(origin_port, m).
        bbind alloc_channel (\<lambda>n. bret (Inr (n, True))))) s
      else if kind = lit ''forwarded-tcpip'' \<and> tcp_handler s \<noteq> None then
        bbind (nb (on_message get_text m)) (\<lambda>(server_addr, m).
        bbind (nb (on_message get_int m)) (\<lambda>(server_port, m).
        bbind (nb (on_message get_text m)) (\<lambda>(origin_addr, m).
        bbind (nb (on_message get_int m)) (\<lambda>(origin_port, m).
        bbind alloc_channel (\<lambda>n. bret (Inr (n, True))))))) s
      else if \<not> server_mode s then bret (Inl OPEN_FAILED_ADMINISTRATIVELY_PROHIBITED) s
      else
        bbind alloc_channel (\<lambda>n.
        bbind
          (if kind = lit ''direct-tcpip'' then
             bbind (nb (on_message get_text m)) (\<lambda>(dest_addr, m).
             bbind (nb (on_message get_int m)) (\<lambda>(dest_port, m).
             bbind (nb (on_message get_text m)) (\<lambda>(origin_addr, m).
             bbind (nb (on_message get_int m)) (\<lambda>(origin_port, m).
             bret (check_channel_direct_tcpip_request (su_server su) n (origin_addr, origin_port) (dest_addr, dest_port))))))
           else bret (check_channel_request (su_server su) kind n)) (\<lambda>reason.
        bret (if reason \<noteq> OPEN_SUCCEEDED then Inl reason else Inr (n, False)))) s)"

definition call_handler :: "chan_handler option \<Rightarrow> int \<Rightarrow> (('e, 'z) transport, unit) bpy" where
  "call_handler h n =
     (case h of
        None \<Rightarrow> braise TypeError
      | Some QueueHandler \<Rightarrow> bmodify (queue_incoming_channel n)
      | Some UserHandler \<Rightarrow> bmodify (\<lambda>s. s\<lparr>callbacks := callbacks s @ [n]\<rparr>))"

definition announce_channel :: "pystr \<Rightarrow> bool \<Rightarrow> int \<Rightarrow> (('e, 'z) transport, unit) bpy" where
  "announce_channel kind origin n s =
     (if kind = lit ''auth-agent@openssh.com'' then call_handler (forward_agent_handler s) n s
      else if kind = lit ''x11'' then
        (if origin then call_handler (x11_handler s) n s else braise OtherException s)
      else if kind = lit ''forwarded-tcpip'' then
        (if origin then call_handler (tcp_handler s) n s else braise OtherException s)
      else bmodify (queue_incoming_channel n) s)"

definition parse_channel_open :: "('e, 'z) surroundings \<Rightarrow> message \<Rightarrow> (('e, 'z) transport, unit) bpy" where
  "parse_channel_open su m =
     bbind (nb (on_message get_text m)) (\<lambda>(kind, m).
     bbind (nb (on_message get_int m)) (\<lambda>(chanid, m).
     bbind (nb (on_message get_int m)) (\<lambda>(initial_window_size, m).
     bbind (nb (on_message get_int m)) (\<lambda>(max_packet_size, m).
     bbind (decide_channel_open su kind m) (\<lambda>d. case d of
       Inl reason \<Rightarrow>
         send_msg su [FRaw [MSG_CHANNEL_OPEN_FAILURE], FInt chanid, FInt reason, FString [], FString (lit ''en'')]
     | Inr (n, origin) \<Rightarrow>
         bbind (bmodify (\<lambda>s.
           s\<lparr>channels := chan_put n
               (set_remote_channel chanid initial_window_size max_packet_size
                 (set_window (default_window_size s) (default_max_packet_size s) (new_channel n))) (channels s),
             channels_seen := n # channels_seen s\<rparr>)) (\<lambda>_.
         bbind (\<lambda>s. send_msg su [FRaw [MSG_CHANNEL_OPEN_SUCCESS], FInt chanid, FInt n,
                 FInt (default_window_size s), FInt (default_max_packet_size s)] s) (\<lambda>_.
         announce_channel kind origin n)))))))"

definition parse_disconnect :: "message \<Rightarrow> (('e, 'z) transport, unit) bpy" where
  "parse_disconnect m =
     bbind (nb (on_message get_int m)) (\<lambda>(code, m). bbind (nb (on_message get_text m)) (\<lambda>_. bret ()))"

definition parse_debug :: "message \<Rightarrow> (('e, 'z) transport, unit) bpy" where
  "parse_debug m =
     bbind (nb (on_message get_boolean m)) (\<lambda>(always, m).
     bbind (nb (on_message get_string m)) (\<lambda>(msg, m).
     bbind (nb (on_message get_string m)) (\<lambda>_. bret ())))"

section \<open>Dispatch\<close>

text \<open>\<^verbatim>\<open>_ensure_authed\<close>: the reply that rejects the message, if it is to be rejected. A \<^verbatim>\<open>Message\<close> is true
  also when it is empty.\<close>

definition ensure_authed :: "byte \<Rightarrow> message \<Rightarrow> ('e, 'z) transport \<Rightarrow> py_error + bytes option" where
  "ensure_authed ptype m s =
     (if \<not> server_mode s \<or> ptype \<le> HIGHEST_USERAUTH_MESSAGE_ID \<or> is_authenticated s then Inr None
      else if ptype = MSG_GLOBAL_REQUEST then
        rbind (message_of [FRaw [MSG_REQUEST_FAILURE]]) (\<lambda>r. Inr (Some r))
      else if ptype = MSG_CHANNEL_OPEN then
        (case pbind get_text (\<lambda>kind. get_int) m of
           (Inl e, _) \<Rightarrow> Inl e
         | (Inr n, _) \<Rightarrow>
             rbind (message_of [FRaw [MSG_CHANNEL_OPEN_FAILURE], FInt n,
                      FInt OPEN_FAILED_ADMINISTRATIVELY_PROHIBITED, FString [], FString (lit ''en'')]) (\<lambda>r. Inr (Some r)))
      else Inr (Some []))"

definition enforce_strict_kex :: "(('e, 'z) transport, unit) bpy" where
  "enforce_strict_kex s =
     (if agreed_on_strict_kex s \<and> \<not> initial_kex_done s
      then braise (MessageOrderError ''In strict-kex mode, but was sent'') s else bret () s)"

definition handler_table :: "byte list" where
  "handler_table =
     [MSG_EXT_INFO, MSG_NEWKEYS, MSG_GLOBAL_REQUEST, MSG_REQUEST_SUCCESS, MSG_REQUEST_FAILURE,
      MSG_CHANNEL_OPEN_SUCCESS, MSG_CHANNEL_OPEN_FAILURE, MSG_CHANNEL_OPEN, MSG_KEXINIT]"

definition handle_message ::
  "('e, 'z) surroundings \<Rightarrow> byte \<Rightarrow> message \<Rightarrow> int \<Rightarrow> (('e, 'z) transport, unit) bpy" where
  "handle_message su ptype m seqno =
     (if ptype = MSG_EXT_INFO then parse_ext_info m
      else if ptype = MSG_NEWKEYS then parse_newkeys su
      else if ptype = MSG_GLOBAL_REQUEST then parse_global_request su m
      else if ptype = MSG_REQUEST_SUCCESS then parse_request_success m
      else if ptype = MSG_REQUEST_FAILURE then parse_request_failure m
      else if ptype = MSG_CHANNEL_OPEN_SUCCESS then parse_channel_open_success m
      else if ptype = MSG_CHANNEL_OPEN_FAILURE then parse_channel_open_failure m
      else if ptype = MSG_CHANNEL_OPEN then parse_channel_open su m
      else negotiate_keys su m seqno)"

definition channel_handler_table :: "byte list" where
  "channel_handler_table =
     [MSG_CHANNEL_SUCCESS, MSG_CHANNEL_FAILURE, MSG_CHANNEL_DATA, MSG_CHANNEL_EXTENDED_DATA,
      MSG_CHANNEL_WINDOW_ADJUST, MSG_CHANNEL_REQUEST, MSG_CHANNEL_EOF, MSG_CHANNEL_CLOSE]"

definition channel_handler :: "('e, 'z) surroundings \<Rightarrow> bool \<Rightarrow> byte \<Rightarrow> message \<Rightarrow> (channel, unit) py" where
  "channel_handler su server ptype m =
     (if ptype = MSG_CHANNEL_SUCCESS then request_success
      else if ptype = MSG_CHANNEL_FAILURE then request_failed
      else if ptype = MSG_CHANNEL_DATA then feed_message m
      else if ptype = MSG_CHANNEL_EXTENDED_DATA then feed_extended m
      else if ptype = MSG_CHANNEL_WINDOW_ADJUST then window_adjust m
      else if ptype = MSG_CHANNEL_REQUEST then
        handle_request (if server then Some (check_chan_request (su_server su)) else None) m
      else if ptype = MSG_CHANNEL_EOF then handle_eof
      else handle_close)"

text \<open>The keys of \<^verbatim>\<open>MSG_NAMES\<close>.\<close>

definition msg_names :: "byte list" where
  "msg_names = [1, 2, 3, 4, 5, 6, 20, 7, 21, 30, 31, 32, 33, 34, 40, 41, 50, 51, 52, 53, 60, 61,
     80, 81, 82, 90, 91, 92, 93, 94, 95, 96, 97, 98, 99, 100, 63, 64, 65, 66]"

text \<open>What becomes of the loop after a message: \<^verbatim>\<open>continue\<close>, \<^verbatim>\<open>break\<close>, or the end of its body.\<close>

datatype loop_end = LContinue | LBreak | LBodyEnd

definition dispatch_rest ::
  "('e, 'z) surroundings \<Rightarrow> byte \<Rightarrow> message \<Rightarrow> int \<Rightarrow> (('e, 'z) transport, loop_end) bpy" where
  "dispatch_rest su ptype m seqno s =
     (if ptype \<in> set handler_table then
        bbind (blift (ensure_authed ptype m s)) (\<lambda>error_msg. case error_msg of
          Some reply \<Rightarrow> bbind (t_send_message (su_lib su) (su_rnd su) reply) (\<lambda>_. bret LBodyEnd)
        | None \<Rightarrow> bbind (handle_message su ptype m seqno) (\<lambda>_. bret LBodyEnd)) s
      else if ptype \<in> set channel_handler_table then
        bbind (nb (on_message get_int m)) (\<lambda>(chanid, m). \<lambda>s.
        if chan_get chanid (channels s) \<noteq> None then
          bbind (on_channel su chanid (channel_handler su (server_mode s) ptype m)) (\<lambda>_. bret LBodyEnd) s
        else if chanid \<in> set (channels_seen s) then bret LBodyEnd s
        else bret LBreak s) s
      else if auth_handler s \<noteq> None \<and> ptype \<in> set (auth_types (server_mode s)) then
        bbind (auth_next su ptype m) (\<lambda>_. \<lambda>s.
        bret (if length (expected_packet s) > 0 then LContinue else LBodyEnd) s) s
      else if ptype \<notin> set msg_names then braise KeyError s
      else if ptype \<noteq> MSG_UNIMPLEMENTED then
        bbind (send_msg su [FRaw [MSG_UNIMPLEMENTED], FInt seqno]) (\<lambda>_. bret LBodyEnd) s
      else bret LBodyEnd s)"

definition dispatch ::
  "('e, 'z) surroundings \<Rightarrow> byte \<Rightarrow> message \<Rightarrow> int \<Rightarrow> (('e, 'z) transport, loop_end) bpy" where
  "dispatch su ptype m seqno s =
     (if ptype = MSG_IGNORE then bbind enforce_strict_kex (\<lambda>_. bret LContinue) s
      else if ptype = MSG_DISCONNECT then bbind (parse_disconnect m) (\<lambda>_. bret LBreak) s
      else if ptype = MSG_DEBUG then
        bbind enforce_strict_kex (\<lambda>_. bbind (parse_debug m) (\<lambda>_. bret LContinue)) s
      else if length (expected_packet s) > 0 then
        (if ptype \<notin> set (expected_packet s)
         then braise (if agreed_on_strict_kex s then MessageOrderError ''Expecting packet'' else SSHException ''Expecting packet'') s
         else (let s = s\<lparr>expected_packet := []\<rparr> in
               if ptype \<ge> 30 \<and> ptype \<le> 41 then bbind (kex_parse_next su ptype m) (\<lambda>_. bret LContinue) s
               else dispatch_rest su ptype m seqno s))
      else dispatch_rest su ptype m seqno s)"

definition end_turn :: "loop_end \<Rightarrow> (('e, 'z) transport, bool) bpy" where
  "end_turn r =
     (case r of
        LContinue \<Rightarrow> bret True
      | LBreak \<Rightarrow> bret False
      | LBodyEnd \<Rightarrow> bbind (bmodify (\<lambda>s. s\<lparr>pktz := complete_handshake (pktz s)\<rparr>)) (\<lambda>_. bret True))"

text \<open>One turn of the loop of \<^verbatim>\<open>run\<close>: whether to go on.\<close>

definition run_turn :: "('e, 'z) surroundings \<Rightarrow> (('e, 'z) transport, bool) bpy" where
  "run_turn su =
     bbind (\<lambda>s. if need_rekey (pktz s) \<and> \<not> in_kex s
                then send_kex_init (su_lib su) (su_rnd su) (su_cookie su) s else bret () s) (\<lambda>_. \<lambda>s.
     case on_pktz (read_message (crypto_of (su_lib su))) s of
       (Waiting, s) \<Rightarrow> (Waiting, s)
     | (Done (Inl e), s) \<Rightarrow> (if e = NeedRekeyException then bret True s else braise e s)
     | (Done (Inr (ptype, m, seqno)), s) \<Rightarrow>
         bbind (dispatch su ptype (Message_init (Some m)) seqno) end_turn s)"

text \<open>The end of \<^verbatim>\<open>run\<close>: the exception that ended the loop is saved, every channel is unlinked, and
  everybody who waits is woken.\<close>

definition run_finish :: "py_error option \<Rightarrow> ('e, 'z) transport \<Rightarrow> ('e, 'z) transport" where
  "run_finish e s =
     (let s = (case e of None \<Rightarrow> s | Some e \<Rightarrow> s\<lparr>t_saved_exception := Some e\<rparr>);
          s = fold unlink_one (chan_values (channels s)) s
      in if t_active s then
           auth_abort (set_completion (s\<lparr>t_active := False, pktz := close_packetizer (pktz s),
             channel_events := map (\<lambda>(k, _). (k, True)) (channel_events s)\<rparr>))
         else s)"

text \<open>The loop itself, over the given surroundings of its turns; it is still running when they end.\<close>

fun run_loop :: "('e, 'z) surroundings list \<Rightarrow> ('e, 'z) transport \<Rightarrow> bool \<times> ('e, 'z) transport" where
  "run_loop [] s = (if t_active s then (True, s) else (False, run_finish None s))"
| "run_loop (su # sus) s =
     (if \<not> t_active s then (False, run_finish None s)
      else case run_turn su s of
        (Waiting, s) \<Rightarrow> (True, s)
      | (Done (Inl e), s) \<Rightarrow> (False, run_finish (Some e) s)
      | (Done (Inr True), s) \<Rightarrow> run_loop sus s
      | (Done (Inr False), s) \<Rightarrow> (False, run_finish None s))"

declare next_channel_loop.simps [code] key_loop.simps [code]

end
