(* ===== verification/Transport_Frame.thy ===== *)
theory Transport_Frame
  imports Transport
begin

text \<open>
  What the operations of key exchange leave alone: everything that \<open>transport\<close> adds to \<open>kexing\<close>,
  the role of this end, and, except in \<^verbatim>\<open>_set_K_H\<close>, the session identifier. The rules are collected
  in \<open>frame_rules\<close> and used by all invariants of the transport.
\<close>

section \<open>Operations that may wait\<close>

text \<open>As \<open>keeps\<close>, for operations that may wait.\<close>

definition bkeeps :: "('s \<Rightarrow> bool) \<Rightarrow> ('s, 'a) bpy \<Rightarrow> bool" where
  "bkeeps P m \<longleftrightarrow> (\<forall>s. P s \<longrightarrow> P (snd (m s)))"

named_theorems frame_rules

lemma bbind_bbind: "bbind (bbind m f) g = bbind m (\<lambda>x. bbind (f x) g)"
  by (rule ext) (simp add: bbind_def split: prod.splits blocking.splits sum.splits)

lemma bkeepsD: "bkeeps P m \<Longrightarrow> P s \<Longrightarrow> P (snd (m s))"
  by (simp add: bkeeps_def)

lemma bkeeps_bret [frame_rules]: "bkeeps P (bret x)"
  by (simp add: bkeeps_def bret_def)

lemma bkeeps_braise [frame_rules]: "bkeeps P (braise e)"
  by (simp add: bkeeps_def braise_def)

lemma bkeeps_blift [frame_rules]: "bkeeps P (blift r)"
  by (simp add: bkeeps_def blift_def)

lemma bkeeps_blift_state [frame_rules]: "bkeeps P (\<lambda>s. blift (r s) s)"
  by (simp add: bkeeps_def blift_def)

lemma bkeeps_bget [frame_rules]: "bkeeps P (bget f)"
  by (simp add: bkeeps_def bget_def)

lemma bkeeps_bmodify: "(\<And>s. P s \<Longrightarrow> P (f s)) \<Longrightarrow> bkeeps P (bmodify f)"
  by (simp add: bkeeps_def bmodify_def)

lemma bkeeps_bbind [frame_rules]: "bkeeps P m \<Longrightarrow> (\<And>x. bkeeps P (f x)) \<Longrightarrow> bkeeps P (bbind m f)"
  unfolding bkeeps_def bbind_def by (auto split: prod.splits blocking.splits sum.splits)

text \<open>For operations that begin by looking at the state.\<close>

lemma bkeeps_stateI: "(\<And>s. P s \<Longrightarrow> P (snd (m s))) \<Longrightarrow> bkeeps P m"
  by (simp add: bkeeps_def)

lemma bkeeps_bbindD: "P s \<Longrightarrow> bkeeps P m \<Longrightarrow> (\<And>x. bkeeps P (f x)) \<Longrightarrow> P (snd (bbind m f s))"
  by (rule bkeepsD [OF bkeeps_bbind])

lemma bkeeps_basicD:
  "P s \<Longrightarrow> P (snd (bret x s))" "P s \<Longrightarrow> P (snd (braise e s))" "P s \<Longrightarrow> P (snd (blift r s))"
  by (simp_all add: bret_def braise_def blift_def)

lemma bkeeps_if [frame_rules]:
  "(\<And>s. b s \<Longrightarrow> bkeeps P (m s)) \<Longrightarrow> (\<And>s. \<not> b s \<Longrightarrow> bkeeps P (n s)) \<Longrightarrow> bkeeps P (\<lambda>s. if b s then m s s else n s s)"
  by (simp add: bkeeps_def)

lemma bkeeps_nb: "keeps P m (\<lambda>_. True) \<Longrightarrow> bkeeps P (nb m)"
  by (auto simp: bkeeps_def keeps_def nb_def split: prod.splits)

lemma bkeeps_nb_message [frame_rules]: "bkeeps P (nb (on_message r m))"
  by (rule bkeeps_nb [OF keeps_on_message])

section \<open>The frame\<close>

definition outer :: "('e, 'z, 'y) kexing_scheme \<Rightarrow> bool \<times> bool \<times> 'y" where
  "outer s = (server_mode s, initial_kex_done s, kexing.more s)"

lemma on_pktz_frame [frame_rules]: "(\<And>s p. P s \<Longrightarrow> P (s\<lparr>pktz := p\<rparr>)) \<Longrightarrow> bkeeps P (on_pktz m)"
  by (simp add: bkeeps_def on_pktz_def split: prod.splits)

text \<open>A predicate that looks only at the frame, at the session identifier and at the agreement on strict
  key exchange.\<close>

definition framed :: "(('e, 'z, 'y) kexing_scheme \<Rightarrow> bool) \<Rightarrow> bool" where
  "framed P \<longleftrightarrow> (\<forall>s s'. outer s' = outer s \<longrightarrow> session_id s' = session_id s \<longrightarrow>
     agreed_on_strict_kex s' = agreed_on_strict_kex s \<longrightarrow> P s \<longrightarrow> P s')"

lemma framed_update [frame_rules]:
  assumes "framed P" "\<And>s. outer (f s) = outer s" "\<And>s. session_id (f s) = session_id s"
    "\<And>s. agreed_on_strict_kex (f s) = agreed_on_strict_kex s"
  shows "bkeeps P (bmodify f)"
  using assms unfolding framed_def by (intro bkeeps_bmodify) blast

lemma framed_pmodify:
  assumes "framed P" "\<And>s. outer (f s) = outer s" "\<And>s. session_id (f s) = session_id s"
    "\<And>s. agreed_on_strict_kex (f s) = agreed_on_strict_kex s"
  shows "keeps P (pmodify f) (\<lambda>_. True)"
  using assms unfolding framed_def by (intro keeps_pmodify) blast

lemma framedD: "framed P \<Longrightarrow> P s \<Longrightarrow> outer s' = outer s \<Longrightarrow> session_id s' = session_id s \<Longrightarrow>
     agreed_on_strict_kex s' = agreed_on_strict_kex s \<Longrightarrow> P s'"
  unfolding framed_def by blast

lemma send_frame: "framed P \<Longrightarrow> bkeeps P (t_send_message l rnd m)"
  unfolding t_send_message_def by (rule on_pktz_frame) (erule (1) framedD, simp_all add: outer_def)

section \<open>Negotiation\<close>

lemma keeps_pbind': "keeps P m (\<lambda>_. True) \<Longrightarrow> (\<And>x. keeps P (f x) (\<lambda>_. True)) \<Longrightarrow> keeps P (pbind m f) (\<lambda>_. True)"
  by (rule keeps_pbind)

lemma keeps_pget: "keeps P (pget f) (\<lambda>_. True)"
  by (simp add: keeps_def pget_def)

lemma keeps_plift': "keeps P (\<lambda>s. plift (r s) s) (\<lambda>_. True)" "keeps P (plift q) (\<lambda>_. True)"
  by (simp_all add: keeps_def plift_def)

lemma keeps_frame:
  assumes "framed P" "\<And>s. outer (snd (m s)) = outer s" "\<And>s. session_id (snd (m s)) = session_id s"
    "\<And>s. agreed_on_strict_kex (snd (m s)) = agreed_on_strict_kex s"
  shows "keeps P m (\<lambda>_. True)"
  using assms unfolding keeps_def framed_def by blast

lemma agree_frames:
  assumes "framed P"
  shows "keeps P (drop_group_exchange l) (\<lambda>_. True)" "keeps P (check_kex_order n) (\<lambda>_. True)"
    "keeps P (agree_on_kex l) (\<lambda>_. True)" "keeps P (agree_on_host_key l) (\<lambda>_. True)"
  by (rule keeps_frame [OF assms];
      simp add: drop_group_exchange_def set_kex_def security_set_def check_kex_order_def agree_on_kex_def
        agree_on_host_key_def praise_def pmodify_def pret_def Let_def outer_def split: list.splits option.splits)+

lemma agree_pair_frame:
  assumes "framed P" "\<And>a b s. outer (setter a b s) = outer s" "\<And>a b s. session_id (setter a b s) = session_id s"
    "\<And>a b s. agreed_on_strict_kex (setter a b s) = agreed_on_strict_kex s"
  shows "keeps P (agree_on_pair w pref x y setter) (\<lambda>_. True)"
  by (rule keeps_frame [OF assms(1)]) (simp_all add: agree_on_pair_def Let_def assms(2-4) split: list.splits)

lemma make_kex_init_frame: "framed P \<Longrightarrow> keeps P (make_kex_init k) (\<lambda>_. True)"
  unfolding make_kex_init_def Let_def
  by (intro keeps_pbind' keeps_pget keeps_plift' keeps_pret framed_pmodify agree_frames TrueI)
    (auto simp: outer_def intro!: keeps_pbind' keeps_pget agree_frames)

text \<open>The agreement on strict key exchange is a matter of the markers.\<close>

lemma fold_marker_kept: "(\<And>a s. P s \<Longrightarrow> P (note_marker a s)) \<Longrightarrow> P s \<Longrightarrow> P (fold note_marker l s)"
  by (induction l arbitrary: s) simp_all

lemma parse_kex_init_frame:
  assumes "framed P" "\<And>a s. P s \<Longrightarrow> P (note_marker a s)"
  shows "keeps P (parse_kex_init m n) (\<lambda>_. True)"
proof -
  have markers: "keeps P (pmodify (\<lambda>s. fold note_marker l (s\<lparr>remote_ext_info := None\<rparr>))) (\<lambda>_. True)" for l
    by (rule keeps_pmodify, rule fold_marker_kept [of P, OF assms(2)], assumption, erule framedD [OF assms(1)])
      (simp_all add: outer_def)
  have "keeps P (choose_algorithms p n) (\<lambda>_. True)" for p
    unfolding choose_algorithms_def Let_def
    by (intro keeps_pbind' markers agree_frames agree_pair_frame assms(1)) (simp_all add: outer_def)
  then show ?thesis
    unfolding parse_kex_init_def
    by (auto simp: outer_def intro!: keeps_pbind' keeps_on_message framed_pmodify assms(1))
qed

lemma send_kex_init_frame: "framed P \<Longrightarrow> bkeeps P (send_kex_init l rnd k)"
  unfolding send_kex_init_def by (intro bkeeps_bbind bkeeps_nb make_kex_init_frame send_frame)

section \<open>Keys\<close>

lemma compute_key_frame: "bkeeps P (compute_key l i n)"
  by (auto simp: bkeeps_def compute_key_def bret_def braise_def Let_def split: option.splits sum.splits)

lemma derive_keys_frame: "bkeeps P (derive_keys l i e c m)"
  unfolding derive_keys_def Let_def
  by (auto intro!: bkeeps_bbind compute_key_frame bkeeps_blift bkeeps_bret bkeeps_braise split: option.splits)

lemma new_compressor_frame: "bkeeps P (new_compressor a z)"
  by (auto simp: bkeeps_def new_compressor_def bret_def braise_def split: option.splits)

lemma activate_inbound_frame: "framed P \<Longrightarrow> bkeeps P (activate_inbound l)"
  unfolding activate_inbound_def
  by (rule bkeeps_stateI, erule bkeeps_bbindD, rule derive_keys_frame,
      intro bkeeps_bbind new_compressor_frame framed_update)
    (auto simp: outer_def split: option.splits)

lemma switch_outbound_frame: "framed P \<Longrightarrow> bkeeps P (switch_outbound l)"
  unfolding switch_outbound_def Let_def
  by (rule bkeeps_bbind, rule framed_update, assumption, simp add: outer_def, simp, simp, rule bkeeps_stateI,
      erule bkeeps_bbindD, rule derive_keys_frame, intro bkeeps_bbind new_compressor_frame framed_update)
    (auto simp: outer_def split: option.splits)

lemma send_ext_info_frame:
  assumes "framed P" shows "bkeeps P (send_ext_info l rnd)"
proof (rule bkeeps_stateI)
  fix s assume "P s"
  then have "P (snd (bbind (blift r) (t_send_message l rnd) s))" for r
    by (rule bkeeps_bbindD) (intro bkeeps_blift send_frame assms)+
  with \<open>P s\<close> show "P (snd (send_ext_info l rnd s))" by (simp add: send_ext_info_def bret_def)
qed

lemma activate_outbound_frame: "framed P \<Longrightarrow> bkeeps P (activate_outbound l rnd)"
  unfolding activate_outbound_def
  by (intro bkeeps_bbind bkeeps_blift send_frame switch_outbound_frame send_ext_info_frame framed_update)
    (auto simp: outer_def expect_packet_def)

section \<open>Diffie-Hellman\<close>

text \<open>Predicates that also survive a new secret, and those that survive a whole key exchange.\<close>

definition secret_closed :: "(('e, 'z, 'y) kexing_scheme \<Rightarrow> bool) \<Rightarrow> bool" where
  "secret_closed P \<longleftrightarrow> framed P \<and> (\<forall>s K H. P s \<longrightarrow> P (set_K_H K H s))"

definition kex_closed :: "(('e, 'z, 'y) kexing_scheme \<Rightarrow> bool) \<Rightarrow> bool" where
  "kex_closed P \<longleftrightarrow> secret_closed P \<and> (\<forall>s a. P s \<longrightarrow> P (note_marker a s))"

lemma secret_closed_framed: "secret_closed P \<Longrightarrow> framed P"
  by (simp add: secret_closed_def)

lemma kex_closed_framed: "kex_closed P \<Longrightarrow> framed P"
  by (simp add: kex_closed_def secret_closed_def)

lemma kex_closed_secret: "kex_closed P \<Longrightarrow> secret_closed P"
  by (simp add: kex_closed_def)

lemma kex_closed_marker: "kex_closed P \<Longrightarrow> P s \<Longrightarrow> P (note_marker a s)"
  by (simp add: kex_closed_def)

lemma set_K_H_outer: "outer (set_K_H K H s) = outer s"
  by (simp add: set_K_H_def outer_def Let_def)

lemma note_marker_frame: "outer (note_marker a s) = outer s" "session_id (note_marker a s) = session_id s"
  by (simp_all add: note_marker_def outer_def)

lemma kex_closed_outer:
  assumes "\<And>s s'. outer s' = outer s \<Longrightarrow> P s \<Longrightarrow> P s'"
  shows "kex_closed P"
  unfolding kex_closed_def secret_closed_def framed_def using assms set_K_H_outer note_marker_frame(1) by blast

lemma secret_closed_set: "secret_closed P \<Longrightarrow> keeps P (pmodify (set_K_H K H)) (\<lambda>_. True)"
  by (rule keeps_pmodify) (simp add: secret_closed_def)

lemma dh_offer_frame: "framed P \<Longrightarrow> bkeeps P (dh_offer G draws)"
  by (rule bkeeps_stateI)
    (auto simp: dh_offer_def bbind_def blift_def bret_def expect_packet_def outer_def Let_def
      split: option.splits sum.splits elim!: framedD)

lemma dh_start_kex_frame: "framed P \<Longrightarrow> bkeeps P (dh_start_kex l G rnd draws)"
  unfolding dh_start_kex_def
  by (rule bkeeps_bbind [OF dh_offer_frame])
    (auto intro!: bkeeps_bret bkeeps_bbind send_frame framed_update simp: outer_def expect_packet_def split: option.splits)

lemma verify_key_frame: "framed P \<Longrightarrow> keeps P (verify_key l k sig) (\<lambda>_. True)"
  by (rule keeps_frame)
    (auto simp: verify_key_def pbind_def plift_def praise_def pmodify_def outer_def split: option.splits sum.splits)

lemma keeps_stateI: "(\<And>s. P s \<Longrightarrow> P (snd (m s))) \<Longrightarrow> keeps P m (\<lambda>_. True)"
  by (simp add: keeps_def)

lemma keeps_pbindD: "P s \<Longrightarrow> keeps P m (\<lambda>_. True) \<Longrightarrow> (\<And>x. keeps P (f x) (\<lambda>_. True)) \<Longrightarrow> P (snd (pbind m f s))"
  by (rule keepsD [OF keeps_pbind'])

lemma dh_reply_secret_frame:
  assumes "secret_closed P" shows "keeps P (dh_reply_secret l G m) (\<lambda>_. True)"
proof -
  have "keeps P (\<lambda>s. pbind (plift (r s)) (\<lambda>H. pbind (pmodify (set_K_H (k s) H)) (\<lambda>_. pret (v s))) s) (\<lambda>_. True)" for r k v
    by (rule keeps_stateI, erule keeps_pbindD)
      (intro keeps_plift' keeps_pbind' secret_closed_set assms keeps_pret TrueI)+
  moreover have "keeps P (pmodify (\<lambda>s. s\<lparr>kex_f := f\<rparr>)) (\<lambda>_. True)" for f
    by (rule framed_pmodify [OF secret_closed_framed [OF assms]]) (simp_all add: outer_def)
  ultimately show ?thesis
    unfolding dh_reply_secret_def Let_def
    by (auto intro!: keeps_pbind' keeps_on_message keeps_praise split: prod.splits)
qed

lemma dh_init_secret_frame:
  assumes "secret_closed P" shows "keeps P (dh_init_secret l G m) (\<lambda>_. True)"
proof -
  have body: "P (snd (pbind (plift r) (\<lambda>H. pbind (pmodify (set_K_H k H)) (\<lambda>_. pbind (plift (q H)) (\<lambda>sig s. plift (v sig s) s))) s))"
    if "P s" for r k q v s
    using that by (rule keeps_pbindD) (intro keeps_plift' keeps_pbind' secret_closed_set assms)+
  have "keeps P (\<lambda>s. case (a s, b s) of
      (Some key, Some ty) \<Rightarrow> pbind (plift (r s key)) (\<lambda>H. pbind (pmodify (set_K_H (k s) H)) (\<lambda>_.
        pbind (plift (q key H ty)) (\<lambda>sig s. plift (v key sig s) s))) s
    | _ \<Rightarrow> (Inl OtherException, s)) (\<lambda>_. True)" for a b r k q v
    by (rule keeps_stateI) (auto intro!: body split: option.splits)
  moreover have "keeps P (pmodify (\<lambda>s. s\<lparr>kex_e := e\<rparr>)) (\<lambda>_. True)" for e
    by (rule framed_pmodify [OF secret_closed_framed [OF assms]]) (simp_all add: outer_def)
  ultimately show ?thesis
    unfolding dh_init_secret_def Let_def
    by (auto intro!: keeps_pbind' keeps_on_message keeps_praise split: prod.splits)
qed

lemma dh_parse_next_frame:
  assumes "secret_closed P" shows "bkeeps P (dh_parse_next l G rnd ptype m)"
proof -
  note f = secret_closed_framed [OF assms]
  have "bkeeps P (dh_parse_init l G rnd m)" unfolding dh_parse_init_def
    by (intro bkeeps_bbind bkeeps_nb dh_init_secret_frame assms send_frame activate_outbound_frame f)
  moreover have "bkeeps P (dh_parse_reply l G rnd m)" unfolding dh_parse_reply_def
    by (auto intro!: bkeeps_bbind bkeeps_nb dh_reply_secret_frame assms verify_key_frame activate_outbound_frame f split: prod.splits)
  ultimately show ?thesis by (auto simp: bkeeps_def dh_parse_next_def braise_def)
qed

section \<open>Messages\<close>

lemma send_msg_frame: "framed P \<Longrightarrow> bkeeps P (send_msg su fs)"
  unfolding send_msg_def by (intro bkeeps_bbind bkeeps_blift send_frame)

lemma nb_bbindI:
  assumes "P s" "\<And>x. P (snd (f x s))"
  shows "P (snd (bbind (nb (on_message r m)) f s))"
  using assms by (auto simp: bbind_def nb_def on_message_def split: prod.splits sum.splits)

lemma nb_message_done: "nb (on_message r m) s = (Done (Inr x), s') \<Longrightarrow> s' = s"
  by (auto simp: nb_def on_message_def split: prod.splits sum.splits)

section \<open>A server for the witnesses\<close>

text \<open>A server after its first key exchange, before the client has authenticated, that has received the
  given bytes.\<close>

definition demo_parts :: "(byte, unit) parts" where
  "demo_parts = \<lparr>other_start = (\<lambda>k. bret ()), other_next = (\<lambda>k t m. bret ())\<rparr>"

definition demo_iface :: server_iface where
  "demo_iface =
     \<lparr>check_port_forward_request = (\<lambda>a p. p), check_global_request = (\<lambda>k m. GBool True),
      check_channel_request = (\<lambda>k n. 0), check_channel_direct_tcpip_request = (\<lambda>n a b. 0), check_chan_request = (\<lambda>r. True),
      get_banner = (None, []), get_allowed_auths = (\<lambda>u. lit ''password''), check_auth_none = (\<lambda>u. AUTH_FAILED),
      check_auth_password = (\<lambda>u p. if p = PText (lit ''secret'') then AUTH_SUCCESSFUL else AUTH_FAILED),
      check_auth_publickey = (\<lambda>u k. AUTH_FAILED), check_auth_interactive = (\<lambda>u s. IResult AUTH_FAILED),
      check_auth_interactive_response = (\<lambda>r. IResult AUTH_FAILED)\<rparr>"

definition demo_su :: "(byte, unit) surroundings" where
  "demo_su =
     \<lparr>su_lib = demo_lib, su_parts = demo_parts, su_server = demo_iface, su_rnd = (\<lambda>n. replicate n 0),
      su_cookie = replicate 16 0, su_draws = []\<rparr>"

definition demo_server :: "bytes \<Rightarrow> (byte, unit) transport" where
  "demo_server inp =
     (Transport_init ((demo_keyed True)\<lparr>pktz := Packetizer_init [RData inp] [SSent 1000] 0, in_kex := False,
        initial_kex_done := True, clear_to_send := True\<rparr>) 2097152 32768)\<lparr>t_active := True, auth_handler := Some AuthHandler_init\<rparr>"

text \<open>A packet that asks to open a session.\<close>

definition demo_open :: bytes where
  "demo_open = [0, 0, 0, 36, 11, 90, 0, 0, 0, 7, 115, 101, 115, 115, 105, 111, 110, 0, 0, 0, 1, 0, 1, 134, 160, 0, 0, 3, 232,
     0, 0, 0, 0, 0, 0, 0, 0, 0, 0, 0]"

end
