(* ===== verification/Auth_Frame.thy ===== *)
theory Auth_Frame
  imports Transport_Frame
begin

text \<open>
  Invariants of the authentication handler. The locale \<open>auth_invariant\<close> lists what a predicate
  has to survive to be kept by every handler of authentication messages; the decisive assumption is
  \<open>grant\<close>: the predicate has to survive that the client becomes authenticated only
  when the application has accepted it (\<open>accepted\<close>).
\<close>

section \<open>What counts as acceptance\<close>

text \<open>The application has accepted the user who asks: without credentials, by a password, by a key whose
  signature over this session was verified, or interactively. The last case does not depend on a
  user.\<close>

definition accepted :: "('e, 'z) surroundings \<Rightarrow> pystr option \<Rightarrow> bytes option \<Rightarrow> bool" where
  "accepted su user sid \<longleftrightarrow>
     (\<exists>u. user = Some u \<and>
        (check_auth_none (su_server su) u = AUTH_SUCCESSFUL
       \<or> (\<exists>p. check_auth_password (su_server su) u p = AUTH_SUCCESSFUL)
       \<or> (\<exists>key algorithm blob sig i. check_auth_publickey (su_server su) u key = AUTH_SUCCESSFUL \<and> sid = Some i
            \<and> message_of [FString i, FRaw [MSG_USERAUTH_REQUEST], FString u, FString (lit ''ssh-connection''),
                FString (lit ''publickey''), FBool True, FString algorithm, FString (snd (get_key_type_and_bits key))] = Inr blob
            \<and> verify_ssh_sig (su_lib su) key blob sig = Inr True)
       \<or> (\<exists>submethods. check_auth_interactive (su_server su) u submethods = IResult AUTH_SUCCESSFUL)))
     \<or> (\<exists>responses. check_auth_interactive_response (su_server su) responses = IResult AUTH_SUCCESSFUL)"

text \<open>A method of authentication that comes to a result leaves the state alone, and its result is
  success only when the application has accepted the user.\<close>

lemma auth_by_method_verdict:
  assumes "auth_by_method su u (lit ''ssh-connection'') method m s = (Done (Inr (Verdict r)), s')"
  shows "s' = s \<and> (r = AUTH_SUCCESSFUL \<longrightarrow> accepted su (Some u) (session_id s))"
proof -
  have "AUTH_FAILED \<noteq> AUTH_SUCCESSFUL" by (simp add: AUTH_FAILED_def AUTH_SUCCESSFUL_def)
  moreover have "s' = s \<and> (r = AUTH_SUCCESSFUL \<longrightarrow> r = AUTH_FAILED \<or> accepted su (Some u) (session_id s))"
    if "auth_by_password su u m s = (Done (Inr (Verdict r)), s')"
    using that unfolding auth_by_password_def Let_def
    by (auto elim!: bbind_eq_InrE dest!: nb_message_done simp: bret_def accepted_def split: if_splits sum.splits)
  moreover have "s' = s \<and> (r = AUTH_SUCCESSFUL \<longrightarrow> r = AUTH_FAILED \<or> accepted su (Some u) (session_id s))"
    if "auth_by_publickey su u (lit ''ssh-connection'') m s = (Done (Inr (Verdict r)), s')"
    using that unfolding auth_by_publickey_def check_publickey_def Let_def
    by (auto elim!: bbind_eq_InrE dest!: nb_message_done
        simp: bret_def blift_def accepted_def get_session_blob_def split: if_splits sum.splits option.splits; blast)
  moreover have "s' = s \<and> (r = AUTH_SUCCESSFUL \<longrightarrow> r = AUTH_FAILED \<or> accepted su (Some u) (session_id s))"
    if "auth_by_interactive su u m s = (Done (Inr (Verdict r)), s')"
    using that unfolding auth_by_interactive_def
    by (auto elim!: bbind_eq_InrE dest!: nb_message_done simp: bret_def accepted_def split: interactive_answer.splits)
  moreover have "s' = s \<and> (r = AUTH_SUCCESSFUL \<longrightarrow> r = AUTH_FAILED \<or> accepted su (Some u) (session_id s))"
    if "bret (Verdict (check_auth_none (su_server su) u)) s = (Done (Inr (Verdict r)), s')"
    using that by (auto simp: bret_def accepted_def)
  ultimately show ?thesis
    using assms unfolding auth_by_method_def by (force split: if_splits)
qed

section \<open>The handlers\<close>

lemma auth_trigger_frame: "outer (auth_trigger l s) = outer s" "session_id (auth_trigger l s) = session_id s"
    "agreed_on_strict_kex (auth_trigger l s) = agreed_on_strict_kex s"
  by (simp_all add: auth_trigger_def outer_def Let_def)

lemma auth_self_on_auth: "auth_self (on_auth f s) = f (auth_self s)"
  by (simp add: on_auth_def auth_self_def [of "_\<lparr>auth_handler := _\<rparr>"])

lemma on_auth_fields:
  "server_mode (on_auth f s) = server_mode s" "session_id (on_auth f s) = session_id s" "t_active (on_auth f s) = t_active s"
  "channels (on_auth f s) = channels s" "channels_seen (on_auth f s) = channels_seen s"
  "server_accepts (on_auth f s) = server_accepts s" "callbacks (on_auth f s) = callbacks s"
  by (simp_all add: on_auth_def)

locale auth_invariant =
  fixes P :: "('e, 'z) transport \<Rightarrow> bool" and su :: "('e, 'z) surroundings"
  assumes framed: "framed P"
    and other: "(\<And>h. ah_authenticated (f h) = ah_authenticated h) \<Longrightarrow> (\<And>h. auth_username (f h) = auth_username h) \<Longrightarrow>
      P s \<Longrightarrow> P (on_auth f s)"
    and exception: "P s \<Longrightarrow> P (s\<lparr>t_saved_exception := e\<rparr>)"
    and close: "P s \<Longrightarrow> P (t_close s)"
    and naming: "P s \<Longrightarrow> server_mode s \<Longrightarrow> \<not> authed s \<Longrightarrow> auth_username (auth_self s) \<in> {None, Some u} \<Longrightarrow>
      P (on_auth (\<lambda>h. h\<lparr>auth_username := Some u\<rparr>) s)"
    and grant: "P s \<Longrightarrow> server_mode s \<Longrightarrow> accepted su (auth_username (auth_self s)) (session_id s) \<Longrightarrow>
      P (on_auth (\<lambda>h. h\<lparr>ah_authenticated := True\<rparr>) s)"
    and client: "P s \<Longrightarrow> \<not> server_mode s \<Longrightarrow> P (on_auth (\<lambda>h. h\<lparr>ah_authenticated := b\<rparr>) s)"
begin

lemma sending: "bkeeps P (send_msg su fs)"
  by (rule send_msg_frame [OF framed])

lemma disconnecting: "bkeeps P (disconnect_service_not_available su)" "bkeeps P (disconnect_no_more_auth su)"
  unfolding disconnect_service_not_available_def disconnect_no_more_auth_def
  by (intro bkeeps_bbind sending bkeeps_bmodify close; assumption)+

lemma triggering: "bkeeps P (bmodify (auth_trigger l))"
  by (rule framed_update [OF framed]) (simp_all add: auth_trigger_frame)

lemma result_kept:
  assumes "P s" "server_mode s" "r = AUTH_SUCCESSFUL \<Longrightarrow> accepted su (auth_username (auth_self s)) (session_id s)"
  shows "P (snd (send_auth_result su u r s))"
proof -
  have fail: "bkeeps P (bbind (blift (message_of fs)) (\<lambda>m. bbind (bmodify (on_auth (\<lambda>h. if q then h
      else h\<lparr>auth_fail_count := auth_fail_count h + 1\<rparr>))) (\<lambda>_. t_send_message l rnd m)))" for fs q l rnd
    by (intro bkeeps_bbind bkeeps_blift bkeeps_bmodify other send_frame framed) auto
  have rest: "bkeeps P (bbind (\<lambda>s. if c s then disconnect_no_more_auth su s else bret () s) (\<lambda>_.
      if b then bmodify (auth_trigger l) else bret ()))" for c b l
    by (intro bkeeps_bbind bkeeps_if disconnecting bkeeps_bret) (simp add: triggering bkeeps_bret)
  show ?thesis
  proof (cases "r = AUTH_SUCCESSFUL")
    case True
    have "send_auth_result su u r s = bbind (send_msg su [FRaw [MSG_USERAUTH_SUCCESS]]) (\<lambda>_.
        bbind (\<lambda>s. if auth_fail_count (auth_self s) \<ge> 10 then disconnect_no_more_auth su s else bret () s) (\<lambda>_.
        if True then bmodify (auth_trigger (su_lib su)) else bret ())) (on_auth (\<lambda>h. h\<lparr>ah_authenticated := True\<rparr>) s)"
      by (simp add: send_auth_result_def True bbind_bbind)
    also have "P (snd \<dots>)"
      by (rule bkeeps_bbindD [of P, OF grant [OF assms(1,2) assms(3) [OF True]] sending rest])
    finally show ?thesis .
  next
    case False
    then show ?thesis
      unfolding send_auth_result_def
      by (simp, intro bkeeps_bbindD [of P, OF assms(1)] fail bkeeps_bbind bkeeps_if disconnecting bkeeps_bret)
  qed
qed

lemma publickey_kept: "bkeeps P (check_publickey su u service attached a k m)"
proof (rule bkeeps_stateI)
  fix s assume s: "P s"
  have disc: "P (snd (bbind (disconnect_no_more_auth su) (\<lambda>_. bret Answered) s))"
    and ok: "P (snd (bbind (send_msg su fs) (\<lambda>_. bret Answered) s))"
    and verify: "P (snd (bbind (nb (on_message get_binary m)) (\<lambda>(sig, n).
      bbind (blift b) (\<lambda>blob. bbind (blift (v blob sig)) (\<lambda>x. bret (w x)))) s))"
    for fs and b :: "py_error + bytes" and v :: "bytes \<Rightarrow> bytes \<Rightarrow> py_error + bool" and w :: "bool \<Rightarrow> verdict"
    by (rule bkeeps_bbindD [of P, OF s], intro disconnecting sending bkeeps_nb_message,
        auto intro!: bkeeps_bret bkeeps_bbind bkeeps_blift split: prod.splits)+
  show "P (snd (check_publickey su u service attached a k m s))"
    using disc ok verify
    by (simp add: check_publickey_def Let_def bkeeps_basicD s split: sum.splits option.splits)
qed

lemma methods_kept: "bkeeps P (auth_by_method su u service method m)"
  unfolding auth_by_method_def auth_by_password_def auth_by_interactive_def auth_by_publickey_def
    interactive_query_def Let_def
  by (auto intro!: publickey_kept bkeeps_bbind bkeeps_nb_message bkeeps_bret sending
      split: prod.splits interactive_answer.splits)

lemma checked_kept:
  assumes "P s" "server_mode s" "\<not> authed s"
  shows "P (snd (check_userauth_request su u service method m s))"
proof -
  define s1 where "s1 = on_auth (\<lambda>h. h\<lparr>auth_username := Some u\<rparr>) s"
  have "P (snd (bbind (auth_by_method su u (lit ''ssh-connection'') method m) (\<lambda>v.
      case v of Verdict r \<Rightarrow> send_auth_result su (Some u) r | Answered \<Rightarrow> bret ()) s1))"
    if "auth_username (auth_self s) \<in> {None, Some u}"
  proof (cases "auth_by_method su u (lit ''ssh-connection'') method m s1")
    case (Pair x s2)
    have s1: "P s1" unfolding s1_def by (rule naming [OF assms that])
    have "P s2" using bkeepsD [OF methods_kept s1] Pair by (metis snd_conv)
    moreover have "P (snd (send_auth_result su (Some u) r s2))" if "x = Done (Inr (Verdict r))" for r
      using auth_by_method_verdict [OF Pair [unfolded that]] s1 assms(2)
      by (intro result_kept) (auto simp: s1_def on_auth_fields auth_self_on_auth)
    ultimately show ?thesis
      by (auto simp: bbind_def Pair bkeeps_basicD split: blocking.splits sum.splits verdict.splits)
  qed
  then show ?thesis
    using bkeepsD [OF disconnecting(1) assms(1)] bkeepsD [OF disconnecting(2) assms(1)]
    by (auto simp: check_userauth_request_def s1_def)
qed

lemma request_kept: "bkeeps P (parse_userauth_request su m)"
proof (rule bkeeps_stateI)
  fix s assume s: "P s"
  show "P (snd (parse_userauth_request su m s))"
    unfolding parse_userauth_request_def
    using checked_kept [OF s] bkeepsD [OF sending s]
    by (auto simp: bkeeps_basicD s authed_def intro!: nb_bbindI [of P] split: prod.splits)
qed

lemma response_kept: "bkeeps P (parse_userauth_info_response su m)"
proof (rule bkeeps_stateI)
  fix s assume s: "P s"
  have "P (snd (send_auth_result su (auth_username (auth_self s)) r s))"
    if "server_mode s" "check_auth_interactive_response (su_server su) rs = IResult r" for r rs
    using that by (intro result_kept s) (auto simp: accepted_def)
  with bkeepsD [OF sending s] show "P (snd (parse_userauth_info_response su m s))"
    unfolding parse_userauth_info_response_def interactive_query_def
    by (auto simp: bkeeps_basicD s intro!: nb_bbindI [of P] split: prod.splits interactive_answer.splits)
qed

lemma service_kept: "bkeeps P (parse_service_request su m)"
proof (rule bkeeps_stateI)
  fix s assume s: "P s"
  have "P (snd (bbind (send_msg su fs) (\<lambda>_. case get_banner (su_server su) of
         (Some banner, language) \<Rightarrow> (if banner \<noteq> [] then send_msg su (gs banner language) else bret ())
       | (None, _) \<Rightarrow> bret ()) s))" for fs gs
    by (rule bkeeps_bbindD [of P, OF s sending]) (auto intro!: sending bkeeps_bret split: prod.splits option.splits)
  with bkeepsD [OF disconnecting(1) s] show "P (snd (parse_service_request su m s))"
    unfolding parse_service_request_def by (auto intro!: nb_bbindI [of P] s split: prod.splits)
qed

lemma accept_kept: "bkeeps P (parse_service_accept su m)"
proof (rule bkeeps_stateI)
  fix s assume s: "P s"
  have "P (snd (bbind (blift a) (\<lambda>x. bbind (blift (b x)) (\<lambda>y. bbind (blift (c x y)) (\<lambda>z. send_msg su (fs x z)))) s))"
    for a :: "py_error + pystr" and b and c :: "pystr \<Rightarrow> bytes \<Rightarrow> py_error + bytes" and fs
    by (intro bkeeps_bbindD [of P, OF s] bkeeps_bbind bkeeps_blift sending)
  with bkeepsD [OF sending s] show "P (snd (parse_service_accept su m s))"
    unfolding parse_service_accept_def Let_def
    by (auto simp: bkeeps_basicD s intro!: nb_bbindI [of P] split: prod.splits option.splits)
qed

lemma client_kept:
  assumes "P s" "\<not> server_mode s"
  shows "P (snd (parse_userauth_success su s))" "P (snd (parse_userauth_failure m s))"
    "P (snd (parse_userauth_banner m s))" "P (snd (parse_userauth_info_request su m s))"
proof -
  have "P (auth_trigger l (on_auth (\<lambda>h. h\<lparr>ah_authenticated := True\<rparr>) s))" for l
    using client [OF assms] by (rule framedD [OF framed]) (simp_all add: auth_trigger_frame)
  then show "P (snd (parse_userauth_success su s))"
    by (simp add: parse_userauth_success_def bmodify_def other set_auth_event_def)
  have "P (on_auth (\<lambda>h. set_auth_event (h\<lparr>ah_authenticated := False, ah_username := None\<rparr>)) t)"
    if "P t" "\<not> server_mode t" for t
  proof -
    have "on_auth (\<lambda>h. set_auth_event (h\<lparr>ah_authenticated := False, ah_username := None\<rparr>)) t
        = on_auth (\<lambda>h. set_auth_event (h\<lparr>ah_username := None\<rparr>)) (on_auth (\<lambda>h. h\<lparr>ah_authenticated := False\<rparr>) t)"
      by (simp add: on_auth_def auth_self_def)
    with client [OF that] show ?thesis by (simp add: other set_auth_event_def)
  qed
  then show "P (snd (parse_userauth_failure m s))"
    unfolding parse_userauth_failure_def Let_def
    using assms exception [OF assms(1)] by (auto intro!: nb_bbindI [of P] simp: bmodify_def split: prod.splits)
  show "P (snd (parse_userauth_banner m s))"
    unfolding parse_userauth_banner_def using assms by (auto intro!: nb_bbindI [of P] other simp: bmodify_def split: prod.splits)
  show "P (snd (parse_userauth_info_request su m s))"
    unfolding parse_userauth_info_request_def Let_def
    using bkeepsD [OF sending assms(1)]
    by (auto simp: bkeeps_basicD assms(1) intro!: nb_bbindI [of P] split: prod.splits)
qed

theorem auth_next_kept: "bkeeps P (auth_next su t m)"
proof (rule bkeeps_stateI)
  fix s assume "P s"
  then show "P (snd (auth_next su t m s))"
    using client_kept [of s] bkeepsD [OF service_kept] bkeepsD [OF request_kept] bkeepsD [OF response_kept]
      bkeepsD [OF accept_kept]
    by (simp add: auth_next_def)
qed

end

end
