(* ===== verification/Transport_Safety.thy ===== *)
theory Transport_Safety
  imports Auth_Frame
begin

text \<open>
  Safety of the loop of \<^verbatim>\<open>Transport.run\<close>, for every sequence of messages and every behaviour of the
  network: the session identifier never changes, an unauthenticated client of a server gets no
  channel, and when the loop ends everybody who waits is released.
\<close>

section \<open>What every handler keeps\<close>

text \<open>Predicates on the role, the session identifier, the activity and the authentication handler that
  survive a new secret and the end of the first key exchange. (Creating the handler changes nothing, see
  \<open>auth_self\<close>.)\<close>

definition steady :: "(('e, 'z) transport \<Rightarrow> bool) \<Rightarrow> bool" where
  "steady P \<longleftrightarrow>
     (\<forall>s s'. server_mode s' = server_mode s \<longrightarrow> session_id s' = session_id s \<longrightarrow> t_active s' = t_active s \<longrightarrow>
        auth_self s' = auth_self s \<longrightarrow> (initial_kex_done s \<longrightarrow> initial_kex_done s') \<longrightarrow> P s \<longrightarrow> P s')
     \<and> (\<forall>s K H. P s \<longrightarrow> P (set_K_H K H s))"

lemma auth_self_cong: "auth_handler s' = auth_handler s \<Longrightarrow> auth_self s' = auth_self s"
  by (simp add: auth_self_def)

lemma steadyD:
  "steady P \<Longrightarrow> P s \<Longrightarrow> server_mode s' = server_mode s \<Longrightarrow> session_id s' = session_id s \<Longrightarrow>
     auth_handler s' = auth_handler s \<Longrightarrow> t_active s' = t_active s \<Longrightarrow>
     (initial_kex_done s \<Longrightarrow> initial_kex_done s') \<Longrightarrow> P s'"
  unfolding steady_def using auth_self_cong by blast

lemma outer_transport:
  fixes s s' :: "('e, 'z) transport"
  assumes "outer s' = outer s"
  shows "server_mode s' = server_mode s" "auth_handler s' = auth_handler s" "channels s' = channels s"
    "channels_seen s' = channels_seen s" "server_accepts s' = server_accepts s" "callbacks s' = callbacks s"
    "t_active s' = t_active s" "initial_kex_done s' = initial_kex_done s"
  using assms by (cases s; cases s'; simp add: outer_def)+

lemma steady_kex_closed:
  assumes "steady P" shows "kex_closed P"
proof -
  have k: "P s \<Longrightarrow> outer s' = outer s \<Longrightarrow> session_id s' = session_id s \<Longrightarrow> P s'" for s s'
    using steadyD [OF assms, of s s'] outer_transport [of s' s] by simp
  then have "framed P" unfolding framed_def by blast
  moreover have "P s \<Longrightarrow> P (set_K_H K H s)" for s K H using assms by (simp add: steady_def)
  moreover have "P s \<Longrightarrow> P (note_marker a s)" for s a by (erule k) (simp_all add: note_marker_frame)
  ultimately show ?thesis by (simp add: kex_closed_def secret_closed_def)
qed

lemma steady_framed: "steady P \<Longrightarrow> framed P"
  by (rule kex_closed_framed [OF steady_kex_closed])

lemma steady_modify:
  assumes "steady P" "\<And>s. server_mode (f s) = server_mode s" "\<And>s. session_id (f s) = session_id s"
    "\<And>s. auth_handler (f s) = auth_handler s" "\<And>s. t_active (f s) = t_active s"
    "\<And>s. initial_kex_done (f s) = initial_kex_done s"
  shows "bkeeps P (bmodify f)"
  by (rule bkeeps_bmodify, rule steadyD [OF assms(1)]) (simp_all add: assms(2-6))

text \<open>What is relied on of the key exchange engines that are not modelled here: they change nothing
  outside the key exchange and never replace a session identifier.\<close>

definition parts_ok :: "('e, 'z) parts \<Rightarrow> bool" where
  "parts_ok p \<longleftrightarrow>
     (\<forall>k s. outer (snd (other_start p k s)) = outer s \<and> session_id (snd (other_start p k s)) = session_id s)
   \<and> (\<forall>k t m s. outer (snd (other_next p k t m s)) = outer s
        \<and> (session_id s \<noteq> None \<longrightarrow> session_id (snd (other_next p k t m s)) = session_id s))"

text \<open>The engines and the authentication handler keep a predicate.\<close>

definition parts_keep :: "(('e, 'z) transport \<Rightarrow> bool) \<Rightarrow> ('e, 'z) surroundings \<Rightarrow> bool" where
  "parts_keep P su \<longleftrightarrow> (\<forall>k. bkeeps P (other_start (su_parts su) k)) \<and> (\<forall>k t m. bkeeps P (other_next (su_parts su) k t m))
     \<and> (\<forall>t m. bkeeps P (auth_next su t m))"

lemma parts_ok_keep:
  fixes P :: "('e, 'z) transport \<Rightarrow> bool"
  assumes "parts_ok (su_parts su)" "\<And>s s'. outer s' = outer s \<Longrightarrow> P s \<Longrightarrow> (session_id s \<noteq> None \<longrightarrow> session_id s' = session_id s) \<Longrightarrow> P s'"
    "\<And>t m. bkeeps P (auth_next su t m)"
  shows "parts_keep P su"
  using assms unfolding parts_ok_def parts_keep_def bkeeps_def by meson

lemma unlink_channel_fields:
  "server_mode (unlink_channel n s) = server_mode s" "session_id (unlink_channel n s) = session_id s"
  "auth_handler (unlink_channel n s) = auth_handler s" "t_active (unlink_channel n s) = t_active s"
  "channels_seen (unlink_channel n s) = channels_seen s" "server_accepts (unlink_channel n s) = server_accepts s"
  "callbacks (unlink_channel n s) = callbacks s" "initial_kex_done (unlink_channel n s) = initial_kex_done s"
  by (simp_all add: unlink_channel_def split: option.splits)

lemma fold_unlink_fields:
  "server_mode (fold unlink_one cs s) = server_mode s" "session_id (fold unlink_one cs s) = session_id s"
  "auth_handler (fold unlink_one cs s) = auth_handler s" "t_active (fold unlink_one cs s) = t_active s"
  "channels_seen (fold unlink_one cs s) = channels_seen s" "server_accepts (fold unlink_one cs s) = server_accepts s"
  "callbacks (fold unlink_one cs s) = callbacks s" "initial_kex_done (fold unlink_one cs s) = initial_kex_done s"
  by (induction cs arbitrary: s) (simp_all add: unlink_one_def unlink_channel_fields)

lemma t_close_fields:
  "server_mode (t_close s) = server_mode s" "session_id (t_close s) = session_id s" "auth_handler (t_close s) = auth_handler s"
  "channels_seen (t_close s) = channels_seen s" "server_accepts (t_close s) = server_accepts s"
  "callbacks (t_close s) = callbacks s" "initial_kex_done (t_close s) = initial_kex_done s"
  by (simp_all add: t_close_def Let_def fold_unlink_fields)

lemma t_close_empty: "channels s = ChannelMap_init \<Longrightarrow> channels (t_close s) = ChannelMap_init"
  by (simp add: t_close_def Let_def ChannelMap_init_def chan_values_def)

lemma start_kex_frame:
  assumes "framed P" "\<And>k. bkeeps P (other_start (su_parts su) k)"
  shows "bkeeps P (start_kex su)"
  by (rule bkeeps_stateI)
    (auto simp: start_kex_def bkeeps_basicD split: option.splits
      intro: bkeepsD [OF dh_start_kex_frame [OF assms(1)]] bkeepsD [OF assms(2)])

lemma kex_parse_next_frame:
  assumes "secret_closed P" "\<And>k t m. bkeeps P (other_next (su_parts su) k t m)"
  shows "bkeeps P (kex_parse_next su t m)"
  by (rule bkeeps_stateI)
    (auto simp: kex_parse_next_def bkeeps_basicD split: option.splits
      intro: bkeepsD [OF dh_parse_next_frame [OF assms(1)]] bkeepsD [OF assms(2)])

lemma negotiate_keys_frame:
  assumes "kex_closed P" "\<And>k. bkeeps P (other_start (su_parts su) k)"
  shows "bkeeps P (negotiate_keys su m n)"
  unfolding negotiate_keys_def
  by (intro bkeeps_bbind framed_update bkeeps_if send_kex_init_frame bkeeps_bret bkeeps_nb parse_kex_init_frame
      start_kex_frame kex_closed_framed [OF assms(1)] kex_closed_marker [OF assms(1)] assms(2)) (simp_all add: outer_def)

section \<open>The handlers\<close>

lemma send_user_frame: "framed P \<Longrightarrow> bkeeps P (t_send_user_message su m)"
  unfolding t_send_user_message_def by (rule bkeeps_stateI) (simp add: bkeeps_basicD bkeepsD [OF send_frame])

lemma perform_call_steady:
  assumes "steady P" shows "bkeeps P (perform_call su c)"
proof (cases c)
  case (SendUserMessage m)
  then show ?thesis by (simp add: send_user_frame steady_framed [OF assms])
next
  case (UnlinkChannel n)
  then show ?thesis by (simp add: steady_modify [OF assms] unlink_channel_fields)
qed (simp_all add: steady_modify [OF assms])

lemma perform_calls_steady: "steady P \<Longrightarrow> bkeeps P (perform_calls su cs)"
  by (induction cs) (auto intro!: bkeeps_bret bkeeps_bbind perform_call_steady)

lemma on_channel_steady:
  assumes "steady P" shows "bkeeps P (on_channel su n op)"
proof (rule bkeeps_stateI)
  fix s assume "P s"
  then have "P (s\<lparr>channels := t\<rparr>)" for t by (rule steadyD [OF assms]) simp_all
  then have "P (snd (bbind (perform_calls su cs) (\<lambda>_. blift (r :: py_error + unit)) (s\<lparr>channels := t\<rparr>)))" for cs r t
    by (rule bkeeps_bbindD) (rule perform_calls_steady [OF assms], rule bkeeps_blift)
  with \<open>P s\<close> show "P (snd (on_channel su n op s))"
    by (simp add: on_channel_def bkeeps_basicD split: option.splits prod.splits)
qed

lemma alloc_channel_steady: "steady P \<Longrightarrow> bkeeps P alloc_channel"
  by (rule bkeeps_stateI) (auto simp: alloc_channel_def bret_def elim: steadyD split: option.splits)

lemma decide_channel_open_steady:
  assumes "steady P" shows "bkeeps P (decide_channel_open su k m)"
proof (rule bkeeps_stateI)
  fix s assume "P s"
  note a = alloc_channel_steady [OF assms]
  show "P (snd (decide_channel_open su k m s))"
    unfolding decide_channel_open_def
    by (auto simp: bkeeps_basicD \<open>P s\<close> split: prod.splits
        intro!: bkeeps_bbindD [of P, OF \<open>P s\<close>] bkeeps_bbind a bkeeps_bret bkeeps_nb_message)
qed

lemma announce_channel_steady: "steady P \<Longrightarrow> bkeeps P (announce_channel k b n)"
  by (rule bkeeps_stateI)
    (auto simp: announce_channel_def call_handler_def bkeeps_basicD bmodify_def queue_incoming_channel_def
      elim: steadyD split: option.splits chan_handler.splits)

lemma parse_channel_open_steady:
  assumes "steady P" shows "bkeeps P (parse_channel_open su m)"
proof -
  have "bkeeps P (\<lambda>s. send_msg su (fs s) s)" for fs
    by (rule bkeeps_stateI) (rule bkeepsD [OF send_msg_frame [OF steady_framed [OF assms]]])
  then show ?thesis
    unfolding parse_channel_open_def
    by (auto intro!: bkeeps_bbind bkeeps_nb_message decide_channel_open_steady assms announce_channel_steady
        steady_modify send_msg_frame steady_framed split: prod.splits sum.splits)
qed

lemma parse_global_request_steady:
  assumes "steady P" shows "bkeeps P (parse_global_request su m)"
proof -
  have q: "bkeeps P (\<lambda>s. if \<not> server_mode s then bret (GBool False) s else if b then x s else if d then y s else bret z s)"
    if "bkeeps P x" "bkeeps P y" for b d x y z
    using that by (auto simp: bkeeps_def bret_def)
  show ?thesis
    unfolding parse_global_request_def Let_def
    by (auto intro!: bkeeps_bbind bkeeps_nb_message q bkeeps_bret bkeeps_blift send_frame send_msg_frame
        steady_framed assms split: prod.splits global_answer.splits bool.splits)
qed

lemma parse_newkeys_steady:
  fixes P :: "('e, 'z) transport \<Rightarrow> bool"
  assumes "steady P" shows "bkeeps P (parse_newkeys su)"
proof -
  define f where "f = (\<lambda>s :: ('e, 'z) transport.
       let s = s\<lparr>local_kex_init := None, remote_kex_init := None, t_K := None, kex_engine := None\<rparr>;
           s = (if server_mode s \<and> auth_handler s = None then s\<lparr>auth_handler := Some AuthHandler_init\<rparr> else s);
           s = (if \<not> initial_kex_done s
                then s\<lparr>initial_kex_done := True, pktz := (pktz s)\<lparr>pk_initial_kex_done := True\<rparr>\<rparr> else s);
           s = set_completion s;
           s = (if \<not> need_rekey (pktz s) then s\<lparr>in_kex := False\<rparr> else s)
       in s\<lparr>clear_to_send := True\<rparr>)"
  have "server_mode (f s) = server_mode s" "session_id (f s) = session_id s" "t_active (f s) = t_active s"
    "auth_self (f s) = auth_self s" "initial_kex_done s \<Longrightarrow> initial_kex_done (f s)" for s
    by (simp_all add: f_def Let_def set_completion_def auth_self_def)
  with assms have "bkeeps P (bmodify f)"
    unfolding steady_def by (intro bkeeps_bmodify) blast
  then show ?thesis unfolding parse_newkeys_def f_def
    by (intro bkeeps_bbind activate_inbound_frame steady_framed assms)
qed

lemma small_handlers_steady:
  assumes "steady P"
  shows "bkeeps P (parse_ext_info m)" "bkeeps P (parse_request_success m)" "bkeeps P (parse_request_failure m)"
    "bkeeps P (parse_channel_open_success m)" "bkeeps P (parse_channel_open_failure m)"
proof -
  show "bkeeps P (parse_ext_info m)" "bkeeps P (parse_request_success m)" "bkeeps P (parse_request_failure m)"
    by (auto simp: parse_ext_info_def parse_request_success_def parse_request_failure_def set_completion_def
        intro!: bkeeps_bbind bkeeps_nb_message steady_modify [OF assms] split: prod.splits)
  show "bkeeps P (parse_channel_open_success m)" "bkeeps P (parse_channel_open_failure m)"
    unfolding parse_channel_open_success_def parse_channel_open_failure_def Let_def
    by (auto simp: set_channel_event_def unlink_channel_fields intro!: bkeeps_bbind bkeeps_nb_message steady_modify [OF assms]
        split: prod.splits option.splits if_splits)
qed

lemma stateless_handlers: "bkeeps P (parse_disconnect m)" "bkeeps P (parse_debug m)" "bkeeps P enforce_strict_kex"
proof -
  show "bkeeps P (parse_disconnect m)" "bkeeps P (parse_debug m)"
    by (auto simp: parse_disconnect_def parse_debug_def intro!: bkeeps_bbind bkeeps_nb_message bkeeps_bret
        split: prod.splits)
  show "bkeeps P enforce_strict_kex"
    by (simp add: bkeeps_def enforce_strict_kex_def bret_def braise_def)
qed

section \<open>The loop\<close>

lemma handle_message_steady:
  assumes "steady P" "parts_keep P su"
  shows "bkeeps P (handle_message su t m n)"
  using assms unfolding handle_message_def parts_keep_def
  by (simp add: small_handlers_steady parse_newkeys_steady parse_global_request_steady parse_channel_open_steady
      negotiate_keys_frame steady_kex_closed)

lemma dispatch_rest_steady:
  assumes "steady P" "parts_keep P su"
  shows "bkeeps P (dispatch_rest su t m n)"
proof (rule bkeeps_stateI)
  fix s assume s: "P s"
  have a: "bkeeps P (auth_next su t m)" for t using assms(2) by (simp add: parts_keep_def)
  have "bkeeps P (\<lambda>s. if c s then bbind (on_channel su k (h s)) (\<lambda>_. bret LBodyEnd) s
      else if d s then bret LBodyEnd s else bret LBreak s)" for c d k h
    by (rule bkeeps_stateI) (simp add: bkeeps_basicD bkeeps_bbindD on_channel_steady assms(1) bkeeps_bret)
  moreover have "bkeeps P (\<lambda>s. bret (f s) s)" for f
    by (simp add: bkeeps_def bret_def)
  ultimately show "P (snd (dispatch_rest su t m n s))"
    unfolding dispatch_rest_def
    by (auto simp: bkeeps_basicD s split: option.splits prod.splits
        intro!: bkeeps_bbindD [of P, OF s] bkeeps_bbind bkeeps_blift bkeeps_bret a send_frame steady_framed assms
          send_msg_frame bkeeps_nb_message handle_message_steady)
qed

lemma dispatch_keeps:
  assumes "framed P" and k: "bkeeps P (kex_parse_next su t m)" and r: "bkeeps P (dispatch_rest su t m n)"
  shows "bkeeps P (dispatch su t m n)"
proof (rule bkeeps_stateI)
  fix s assume s: "P s"
  then have e: "P (s\<lparr>expected_packet := []\<rparr>)" by (rule framedD [OF assms(1)]) (simp_all add: outer_def)
  have "P (snd (bbind enforce_strict_kex (\<lambda>_. bret LContinue) s))" "P (snd (bbind (parse_disconnect m) (\<lambda>_. bret LBreak) s))"
    "P (snd (bbind enforce_strict_kex (\<lambda>_. bbind (parse_debug m) (\<lambda>_. bret LContinue)) s))"
    "P (snd (bbind (kex_parse_next su t m) (\<lambda>_. bret LContinue) (s\<lparr>expected_packet := []\<rparr>)))"
    by (rule bkeeps_bbindD [of P, OF s] bkeeps_bbindD [of P, OF e],
        intro stateless_handlers k, intro bkeeps_bbind stateless_handlers bkeeps_bret)+
  then show "P (snd (dispatch su t m n s))"
    using bkeepsD [OF r s] bkeepsD [OF r e] by (simp add: dispatch_def Let_def bkeeps_basicD s)
qed

lemma dispatch_steady:
  assumes "steady P" "parts_keep P su"
  shows "bkeeps P (dispatch su t m n)"
proof (rule dispatch_keeps [OF steady_framed [OF assms(1)] _ dispatch_rest_steady [OF assms]])
  show "bkeeps P (kex_parse_next su t m)"
    using assms by (intro kex_parse_next_frame kex_closed_secret steady_kex_closed) (simp_all add: parts_keep_def)
qed

lemma end_turn_frame: "framed P \<Longrightarrow> bkeeps P (end_turn r)"
  unfolding end_turn_def
  by (cases r) (simp_all only: loop_end.case bkeeps_bret, intro bkeeps_bbind framed_update bkeeps_bret, simp_all add: outer_def)

text \<open>A turn keeps what the dispatch keeps.\<close>

lemma run_turn_keeps:
  assumes fr: "framed P" and d: "\<And>t m n. bkeeps P (dispatch su t m n)"
  shows "bkeeps P (run_turn su)"
proof -
  have first: "bkeeps P (\<lambda>s. if b s then send_kex_init l r k s else bret () s)" for b l r k
    by (rule bkeeps_stateI) (simp add: bkeeps_basicD bkeepsD [OF send_kex_init_frame [OF fr]])
  have read: "bkeeps P (on_pktz (read_message c))" for c
    by (rule on_pktz_frame, erule framedD [OF fr]) (simp_all add: outer_def)
  have "bkeeps P (bbind (dispatch su t m n) end_turn)" for t m n
    by (intro bkeeps_bbind d end_turn_frame fr)
  then have "P (snd (bbind (dispatch su t m n) end_turn s))" if "P s" for t m n s
    using that by (rule bkeepsD)
  then have "bkeeps P (\<lambda>s. case on_pktz (read_message c) s of
       (Waiting, s) \<Rightarrow> (Waiting, s) | (Done (Inl e), s) \<Rightarrow> (if e = NeedRekeyException then bret True s else braise e s)
     | (Done (Inr (ptype, m, seqno)), s) \<Rightarrow> bbind (dispatch su ptype (Message_init (Some m)) seqno) end_turn s)" for c
    by (intro bkeeps_stateI, drule_tac bkeepsD [OF read [of c]])
      (auto simp: bkeeps_basicD split: prod.splits blocking.splits sum.splits)
  then show ?thesis unfolding run_turn_def by (intro bkeeps_bbind first)
qed

lemmas run_turn_steady = run_turn_keeps [OF steady_framed dispatch_steady]

section \<open>The session identifier\<close>

lemma steady_session: "steady (\<lambda>s. session_id s = Some i)"
  by (simp add: steady_def set_K_H_fields)

interpretation session_auth: auth_invariant "\<lambda>s. session_id s = Some i" su for i su
  by unfold_locales (simp_all add: framed_def on_auth_fields t_close_fields)

lemma session_parts: "parts_ok (su_parts su) \<Longrightarrow> parts_keep (\<lambda>s. session_id s = Some i) su"
  by (erule parts_ok_keep) (simp_all add: session_auth.auth_next_kept)

lemma run_finish_fields:
  "server_mode (run_finish e s) = server_mode s" "session_id (run_finish e s) = session_id s"
  "authed (run_finish e s) = authed s" "auth_username (auth_self (run_finish e s)) = auth_username (auth_self s)"
  by (simp_all add: run_finish_def Let_def fold_unlink_fields set_completion_def auth_abort_def authed_def
      auth_self_def on_auth_def set_auth_event_def split: option.splits)

text \<open>What the turns and the end of the loop keep, the loop keeps.\<close>

lemma run_loop_keeps:
  assumes "\<And>su. su \<in> set sus \<Longrightarrow> bkeeps P (run_turn su)" "\<And>e s. P s \<Longrightarrow> P (run_finish e s)" "P s"
  shows "P (snd (run_loop sus s))"
  using assms
proof (induction sus arbitrary: s)
  case (Cons su sus)
  then have "P (snd (run_turn su s))" by (simp add: bkeeps_def)
  then show ?case using Cons.IH Cons.prems
    by (auto split: prod.splits blocking.splits sum.splits bool.splits)
qed simp

text \<open>C6: The session identifier. Once the first key exchange has set it, no message and no later key
  exchange changes it, over any number of turns of the loop and whatever the network does; keys of
  later exchanges are therefore derived from the hash of the first one.\<close>

theorem session_id_fixed:
  assumes "\<And>su. su \<in> set sus \<Longrightarrow> parts_ok (su_parts su)" "session_id s = Some i"
  shows "session_id (snd (run_loop sus s)) = Some i"
proof -
  have "bkeeps (\<lambda>s. session_id s = Some i) (run_turn su)" if "su \<in> set sus" for su
    using assms(1) [OF that] by (intro run_turn_steady steady_session session_parts)
  then show ?thesis
    by (rule run_loop_keeps [of sus "\<lambda>s. session_id s = Some i"]) (simp_all add: run_finish_fields assms(2))
qed

lemma demo_parts_ok: "parts_ok demo_parts"
  by (simp add: parts_ok_def demo_parts_def bret_def)

lemma demo_su_parts: "su \<in> set [demo_su] \<Longrightarrow> parts_ok (su_parts su)"
  by (simp add: demo_su_def demo_parts_ok)

theorem session_id_fixed_witness:
  "session_id (snd (run_loop [demo_su] (demo_server demo_open))) = Some [1, 2]"
proof (rule session_id_fixed)
  show "session_id (demo_server demo_open) = Some [1, 2]" by code_simp
qed (rule demo_su_parts)

section \<open>Nothing for the unauthenticated\<close>

text \<open>A server that has let nothing in, unless the client has authenticated: no channel in the table,
  none seen, none queued for \<^verbatim>\<open>accept\<close> or given to a handler.\<close>

definition door :: "('e, 'z) transport \<Rightarrow> bool" where
  "door s \<longleftrightarrow> server_mode s \<and>
     (authed s \<or>
      channels s = ChannelMap_init \<and> channels_seen s = [] \<and> server_accepts s = [] \<and> callbacks s = [])"

definition let_in :: "('e, 'z) transport \<Rightarrow> bool" where
  "let_in s \<longleftrightarrow> server_mode s \<and> authed s"

lemma set_K_H_auth: "auth_self (set_K_H K H s) = auth_self s" "server_mode (set_K_H K H s) = server_mode s"
  by (simp_all add: set_K_H_def Let_def auth_self_def)

lemma steady_let_in: "steady let_in"
  unfolding steady_def let_in_def by (auto simp: set_K_H_auth authed_def)

lemma auth_self_unchanged: "auth_self (t_close s) = auth_self s" "auth_self (s\<lparr>t_saved_exception := e\<rparr>) = auth_self s"
  by (simp_all add: auth_self_def t_close_fields)

lemma authed_close: "authed (t_close s) = authed s"
  by (simp add: authed_def auth_self_unchanged)

lemma authed_on_auth: "authed (on_auth f s) = ah_authenticated (f (auth_self s))"
  by (simp add: authed_def auth_self_on_auth)

lemma authed_exception: "authed (s\<lparr>t_saved_exception := e\<rparr>) = authed s"
  by (simp add: authed_def auth_self_def)

interpretation let_in_auth: auth_invariant let_in su for su
proof
  show "framed (let_in :: ('e, 'z) transport \<Rightarrow> bool)" by (rule steady_framed [OF steady_let_in])
qed (simp_all add: let_in_def authed_close t_close_fields on_auth_fields authed_on_auth authed_exception authed_def [symmetric])

lemma parts_ok_let_in:
  fixes su :: "('e, 'z) surroundings"
  assumes "parts_ok (su_parts su)" shows "parts_keep let_in su"
proof (rule parts_ok_keep [OF assms _ let_in_auth.auth_next_kept])
  fix s s' :: "('e, 'z) transport" assume "outer s' = outer s" "let_in s"
  then show "let_in s'" using outer_transport [of s' s] auth_self_cong [of s' s] by (simp add: let_in_def authed_def)
qed

lemma door_let_in: "let_in s \<Longrightarrow> door s"
  by (simp add: door_def let_in_def)

lemma door_outer:
  fixes s s' :: "('e, 'z) transport"
  shows "outer s' = outer s \<Longrightarrow> door s \<Longrightarrow> door s'"
  using outer_transport [of s' s] auth_self_cong [of s' s] by (simp add: door_def authed_def)

lemma door_kex_closed: "kex_closed door"
  by (rule kex_closed_outer) (rule door_outer)

lemmas door_framed = kex_closed_framed [OF door_kex_closed]

interpretation door_auth: auth_invariant door su for su
proof
  show "framed (door :: ('e, 'z) transport \<Rightarrow> bool)" by (rule door_framed)
  show "door (t_close s)" if "door s" for s :: "('e, 'z) transport"
    using that by (auto simp: door_def t_close_fields authed_close t_close_empty)
qed (auto simp: door_def on_auth_fields authed_on_auth authed_exception authed_def [symmetric])

lemma door_parts: "parts_ok (su_parts su) \<Longrightarrow> parts_keep door su"
  by (erule parts_ok_keep) (simp_all add: door_outer door_auth.auth_next_kept)

lemma door_newkeys: "bkeeps door (parse_newkeys su)"
  unfolding parse_newkeys_def
  by (intro bkeeps_bbind activate_inbound_frame door_framed bkeeps_bmodify)
    (auto simp: door_def Let_def set_completion_def authed_def auth_self_def AuthHandler_init_def)

lemma door_ext_info: "bkeeps door (parse_ext_info m)"
  unfolding parse_ext_info_def
  by (auto intro!: bkeeps_bbind bkeeps_nb_message bkeeps_bmodify simp: door_def authed_def auth_self_def split: prod.splits)

lemma door_handle:
  assumes "parts_ok (su_parts su)" "t \<in> set handler_table" "t \<le> HIGHEST_USERAUTH_MESSAGE_ID"
  shows "bkeeps door (handle_message su t m n)"
  using assms(2,3) door_parts [OF assms(1)] unfolding handle_message_def handler_table_def parts_keep_def
  by (auto simp: msg_codes intro: door_ext_info door_newkeys negotiate_keys_frame [OF door_kex_closed])

lemma door_reply:
  fixes s :: "('e, 'z) transport"
  assumes "parts_ok (su_parts su)" "t \<in> set handler_table" "door s" "\<not> is_authenticated s"
  shows "door (snd (bbind (blift (ensure_authed t m s)) (\<lambda>e. case e of
        Some reply \<Rightarrow> bbind (t_send_message l r reply) (\<lambda>_. bret LBodyEnd)
      | None \<Rightarrow> bbind (handle_message su t m n) (\<lambda>_. bret LBodyEnd)) s))"
proof (cases "ensure_authed t m s")
  case (Inl e)
  with assms(3) show ?thesis by (simp add: bbind_def blift_def)
next
  case (Inr x)
  have "t \<le> HIGHEST_USERAUTH_MESSAGE_ID" if "x = None"
    using that Inr assms(3,4) by (auto simp: ensure_authed_def door_def rbind_def split: if_splits sum.splits prod.splits)
  then have "bkeeps door (case x of Some reply \<Rightarrow> bbind (t_send_message l r reply) (\<lambda>_. bret LBodyEnd)
      | None \<Rightarrow> bbind (handle_message su t m n) (\<lambda>_. bret LBodyEnd))"
    by (cases x) (auto intro!: bkeeps_bbind send_frame door_framed bkeeps_bret door_handle assms(1,2))
  from bkeepsD [OF this assms(3)] show ?thesis by (simp add: Inr)
qed

lemma door_rest:
  fixes su :: "('e, 'z) surroundings"
  assumes "parts_ok (su_parts su)"
  shows "bkeeps door (dispatch_rest su t m n)"
proof (rule bkeeps_stateI)
  fix s :: "('e, 'z) transport" assume d: "door s"
  show "door (snd (dispatch_rest su t m n s))"
  proof (cases "authed s")
    case True
    then have "let_in (snd (dispatch_rest su t m n s))"
      using d by (intro bkeepsD [OF dispatch_rest_steady [OF steady_let_in parts_ok_let_in [OF assms]]])
        (simp add: let_in_def door_def)
    then show ?thesis by (rule door_let_in)
  next
    case False
    then have out: "\<not> is_authenticated s" "channels s = []" "channels_seen s = []"
      using d by (simp_all add: door_def is_authenticated_def ChannelMap_init_def)
    have chan: "door (snd (bbind (nb (on_message get_int m)) f s))"
      if "\<And>x y s. channels s = [] \<Longrightarrow> channels_seen s = [] \<Longrightarrow> f (x, y) s = bret LBreak s" for f
      using d out by (auto simp: bbind_def nb_def on_message_def that bret_def split: prod.splits sum.splits)
    have auth: "door (snd (bbind (auth_next su t m) (\<lambda>_ s. bret (f s) s) s))" for f
      using door_parts [OF assms] by (intro bkeeps_bbindD [of door, OF d]) (auto simp: parts_keep_def bkeeps_def bret_def)
    have other: "door (snd (bbind (send_msg su fs) (\<lambda>_. bret LBodyEnd) s))" for fs
      by (intro bkeeps_bbindD [of door, OF d] send_msg_frame door_framed bkeeps_bret)
    show ?thesis
      unfolding dispatch_rest_def using door_reply [OF assms _ d out(1)]
      by (auto simp: other auth bkeeps_basicD d chan_get_def intro!: chan)
  qed
qed

lemma door_dispatch:
  assumes "parts_ok (su_parts su)"
  shows "bkeeps door (dispatch su t m n)"
proof (rule dispatch_keeps [OF door_framed _ door_rest [OF assms]])
  show "bkeeps door (kex_parse_next su t m)"
    using door_parts [OF assms] by (intro kex_parse_next_frame kex_closed_secret door_kex_closed) (simp add: parts_keep_def)
qed

lemma run_finish_rest:
  "channels_seen (run_finish e s) = channels_seen s" "server_accepts (run_finish e s) = server_accepts s"
  "callbacks (run_finish e s) = callbacks s"
  by (simp_all add: run_finish_def Let_def fold_unlink_fields set_completion_def auth_abort_def on_auth_def
      split: option.splits)

lemma run_finish_empty: "channels s = ChannelMap_init \<Longrightarrow> channels (run_finish e s) = ChannelMap_init"
  by (simp add: run_finish_def Let_def set_completion_def auth_abort_def on_auth_def ChannelMap_init_def chan_values_def
      split: option.splits)

lemma door_finish: "door s \<Longrightarrow> door (run_finish e s)"
  by (auto simp: door_def run_finish_fields run_finish_rest run_finish_empty)

lemma door_run:
  assumes "\<And>su. su \<in> set sus \<Longrightarrow> parts_ok (su_parts su)" "door s"
  shows "door (snd (run_loop sus s))"
proof (rule run_loop_keeps [of sus door, OF _ _ assms(2)])
  show "bkeeps door (run_turn su)" if "su \<in> set sus" for su
    using assms(1) [OF that] by (intro run_turn_keeps door_framed door_dispatch)
qed (rule door_finish)

text \<open>C5: A server gives nothing to a client that has not authenticated: over any number of turns of the
  loop, whatever messages arrive in whatever order, there is no channel in its table, none was
  ever seen, none was queued for \<^verbatim>\<open>accept\<close> and no handler was called, unless authentication has
  succeeded.\<close>

theorem unauthenticated_get_nothing:
  assumes "\<And>su. su \<in> set sus \<Longrightarrow> parts_ok (su_parts su)" "server_mode s" "channels s = ChannelMap_init"
    "channels_seen s = []" "server_accepts s = []" "callbacks s = []"
    "run_loop sus s = (running, s')" "\<not> authed s'"
  shows "channels s' = ChannelMap_init \<and> channels_seen s' = [] \<and> server_accepts s' = [] \<and> callbacks s' = []"
  using door_run [of sus s, OF assms(1)] assms(2-8) by (simp add: door_def)

theorem unauthenticated_get_nothing_witness:
  "channels (snd (run_loop [demo_su] (demo_server demo_open))) = ChannelMap_init
   \<and> sock_out (pktz (snd (run_loop [demo_su] (demo_server demo_open)))) \<noteq> []"
proof
  have "\<not> authed (snd (run_loop [demo_su] (demo_server demo_open)))" by code_simp
  moreover have "server_mode (demo_server demo_open)" "channels (demo_server demo_open) = ChannelMap_init"
    "channels_seen (demo_server demo_open) = []" "server_accepts (demo_server demo_open) = []"
    "callbacks (demo_server demo_open) = []"
    by (simp_all add: demo_server_def Transport_init_def transport.defs kexing.defs demo_keyed_def)
  ultimately show "channels (snd (run_loop [demo_su] (demo_server demo_open))) = ChannelMap_init"
    using unauthenticated_get_nothing [OF demo_su_parts, where s' = "snd (run_loop [demo_su] (demo_server demo_open))"]
    by (metis prod.collapse)
  show "sock_out (pktz (snd (run_loop [demo_su] (demo_server demo_open)))) \<noteq> []" by code_simp
qed

end
