(* ===== verification/Auth_Safety.thy ===== *)
theory Auth_Safety
  imports Transport_Safety
begin

text \<open>
  Who gets authenticated: over any run of the loop of a server, a client is authenticated only when
  the application has accepted it, and with a key only when a signature over the identifier of this
  very session was verified; a name once given cannot be changed; guessing ends after ten
  failures. Also the choice of the algorithm with which a client signs.
\<close>

section \<open>Acceptance\<close>

definition vouched :: "('e, 'z) surroundings set \<Rightarrow> ('e, 'z) transport \<Rightarrow> bool" where
  "vouched S s \<longleftrightarrow> server_mode s \<and>
     (authed s \<longrightarrow> (\<exists>su\<in>S. accepted su (auth_username (auth_self s)) (session_id s)))"

lemma accepted_session: "accepted su u i \<Longrightarrow> i \<noteq> None \<longrightarrow> j = i \<Longrightarrow> accepted su u j"
  unfolding accepted_def by blast

lemma vouched_frame:
  assumes "vouched S s" "server_mode s' = server_mode s" "auth_self s' = auth_self s"
    "session_id s \<noteq> None \<longrightarrow> session_id s' = session_id s"
  shows "vouched S s'"
  using assms accepted_session unfolding vouched_def authed_def by metis

lemma set_K_H_session: "session_id s \<noteq> None \<longrightarrow> session_id (set_K_H K H s) = session_id s"
  by (auto simp: set_K_H_fields)

lemma steady_vouched: "steady (vouched S)"
  unfolding steady_def by (auto elim!: vouched_frame simp: set_K_H_auth set_K_H_session)

lemma vouched_auth:
  assumes "su \<in> S" shows "auth_invariant (vouched S) su"
proof
  show "framed (vouched S)" by (rule steady_framed [OF steady_vouched])
  show "vouched S (s\<lparr>t_saved_exception := e\<rparr>)" if "vouched S s" for s e
    using that by (rule vouched_frame) (simp_all add: auth_self_def)
  show "vouched S (t_close s)" if "vouched S s" for s
    using that by (rule vouched_frame) (simp_all add: t_close_fields auth_self_def)
qed (use assms in \<open>auto simp: vouched_def on_auth_fields authed_on_auth auth_self_on_auth authed_def [symmetric]\<close>)

lemma vouched_parts:
  fixes su :: "('e, 'z) surroundings"
  assumes "parts_ok (su_parts su)" "su \<in> S" shows "parts_keep (vouched S) su"
proof (rule parts_ok_keep [OF assms(1) _ auth_invariant.auth_next_kept [OF vouched_auth [OF assms(2)]]])
  fix s s' :: "('e, 'z) transport"
  assume "outer s' = outer s" "vouched S s" "session_id s \<noteq> None \<longrightarrow> session_id s' = session_id s"
  then show "vouched S s'" using outer_transport [of s' s] auth_self_cong [of s' s] by (auto elim: vouched_frame)
qed

lemma vouched_run:
  assumes "\<And>su. su \<in> set sus \<Longrightarrow> parts_ok (su_parts su)" "vouched (set sus) s"
  shows "vouched (set sus) (snd (run_loop sus s))"
proof (rule run_loop_keeps [of sus "vouched (set sus)", OF _ _ assms(2)])
  show "bkeeps (vouched (set sus)) (run_turn su)" if "su \<in> set sus" for su
    using assms(1) [OF that] that by (intro run_turn_steady steady_vouched vouched_parts)
  show "vouched (set sus) (run_finish e s)" if "vouched (set sus) s" for e s
    using that by (simp add: vouched_def run_finish_fields)
qed

text \<open>C3: A server authenticates a client only when the application has accepted it: whatever messages
  arrive in whatever order, if the client is authenticated in the end then for the user
  name it gave the application has answered that no credentials are needed, or has accepted a
  password, or has accepted a key for which a signature over this session's identifier was
  verified, or an interactive dialogue, which alone does not depend on a name.\<close>

theorem authenticated_only_if_accepted:
  assumes "\<And>su. su \<in> set sus \<Longrightarrow> parts_ok (su_parts su)" "server_mode s" "\<not> authed s"
    "run_loop sus s = (running, s')" "authed s'"
  shows "\<exists>su\<in>set sus. accepted su (auth_username (auth_self s')) (session_id s')"
  using vouched_run [of sus s, OF assms(1)] assms(2-5) by (simp add: vouched_def)

text \<open>A packet with a password request.\<close>

definition demo_login :: bytes where
  "demo_login = [0, 0, 0, 52, 4, 50, 0, 0, 0, 1, 117, 0, 0, 0, 14, 115, 115, 104, 45, 99, 111, 110, 110, 101, 99,
     116, 105, 111, 110, 0, 0, 0, 8, 112, 97, 115, 115, 119, 111, 114, 100, 0, 0, 0, 0, 6, 115, 101, 99,
     114, 101, 116, 0, 0, 0, 0]"

theorem authenticated_only_if_accepted_witness:
  "authed (snd (run_loop [demo_su] (demo_server demo_login))) \<and> accepted demo_su (Some [117]) (Some [1, 2])"
proof
  show a: "authed (snd (run_loop [demo_su] (demo_server demo_login)))" by code_simp
  have "server_mode (demo_server demo_login)" "\<not> authed (demo_server demo_login)" by code_simp+
  with a have "\<exists>su\<in>set [demo_su]. accepted su (auth_username (auth_self (snd (run_loop [demo_su] (demo_server demo_login)))))
      (session_id (snd (run_loop [demo_su] (demo_server demo_login))))"
    by (intro authenticated_only_if_accepted [OF demo_su_parts _ _ prod.collapse [symmetric]])
  moreover have "auth_username (auth_self (snd (run_loop [demo_su] (demo_server demo_login)))) = Some [117]"
    "session_id (snd (run_loop [demo_su] (demo_server demo_login))) = Some [1, 2]" by code_simp+
  ultimately show "accepted demo_su (Some [117]) (Some [1, 2])" by simp
qed

text \<open>A server whose application accepts nobody never opens a channel and never calls a handler, whatever
  messages arrive in whatever order.\<close>

theorem nothing_without_acceptance:
  assumes "\<And>su. su \<in> set sus \<Longrightarrow> parts_ok (su_parts su)" "\<And>su user sid. su \<in> set sus \<Longrightarrow> \<not> accepted su user sid"
    "server_mode s" "\<not> authed s" "channels s = ChannelMap_init" "channels_seen s = []" "server_accepts s = []"
    "callbacks s = []" "run_loop sus s = (running, s')"
  shows "channels s' = ChannelMap_init \<and> channels_seen s' = [] \<and> server_accepts s' = [] \<and> callbacks s' = []"
proof -
  have "\<not> authed s'" using vouched_run [of sus s, OF assms(1)] assms(2-4,9) by (auto simp: vouched_def)
  moreover have "door s'"
    using door_run [of sus s, OF assms(1)] assms(3-9) by (simp add: door_def)
  ultimately show ?thesis by (simp add: door_def)
qed

section \<open>The user name\<close>

definition named :: "pystr \<Rightarrow> ('e, 'z) transport \<Rightarrow> bool" where
  "named u s \<longleftrightarrow> server_mode s \<and> auth_username (auth_self s) = Some u"

lemma steady_named: "steady (named u)"
  by (simp add: steady_def named_def set_K_H_auth)

interpretation named_auth: auth_invariant "named u" su for u su
proof
  show "framed (named u :: ('e, 'z) transport \<Rightarrow> bool)" by (rule steady_framed [OF steady_named])
qed (auto simp: named_def on_auth_fields auth_self_on_auth t_close_fields auth_self_unchanged)

lemma named_parts:
  fixes su :: "('e, 'z) surroundings"
  assumes "parts_ok (su_parts su)" shows "parts_keep (named u) su"
proof (rule parts_ok_keep [OF assms _ named_auth.auth_next_kept])
  fix s s' :: "('e, 'z) transport" assume "outer s' = outer s" "named u s"
  then show "named u s'" using outer_transport [of s' s] auth_self_cong [of s' s] by (simp add: named_def)
qed

text \<open>C7: The user name of a session cannot be changed: once a client has asked to be authenticated as some user,
  no message changes the name that a server keeps and that \<^verbatim>\<open>get_username\<close> returns.\<close>

theorem user_name_fixed:
  assumes "\<And>su. su \<in> set sus \<Longrightarrow> parts_ok (su_parts su)" "server_mode s" "get_username s = Some u"
  shows "get_username (snd (run_loop sus s)) = Some u"
proof -
  have "named u (snd (run_loop sus s))"
  proof (rule run_loop_keeps [of sus "named u"])
    show "bkeeps (named u) (run_turn su)" if "su \<in> set sus" for su
      using assms(1) [OF that] by (intro run_turn_steady steady_named named_parts)
  qed (use assms(2,3) in \<open>simp_all add: named_def get_username_def run_finish_fields\<close>)
  then show ?thesis by (simp add: named_def get_username_def)
qed

theorem user_name_fixed_witness:
  "get_username (snd (run_loop [demo_su]
     ((demo_server demo_login)\<lparr>auth_handler := Some (AuthHandler_init\<lparr>auth_username := Some [120]\<rparr>)\<rparr>))) = Some [120]"
proof (rule user_name_fixed [OF demo_su_parts])
  show "server_mode ((demo_server demo_login)\<lparr>auth_handler := Some (AuthHandler_init\<lparr>auth_username := Some [120]\<rparr>)\<rparr>)"
    "get_username ((demo_server demo_login)\<lparr>auth_handler := Some (AuthHandler_init\<lparr>auth_username := Some [120]\<rparr>)\<rparr>) = Some [120]"
    by code_simp+
qed

section \<open>Responses nobody asked for\<close>

text \<open>C22: Interactive responses are put to the application although no authentication was begun: a server
  takes a message of responses as its first authentication message, without a user name and
  without a query, and authenticates the client when the application accepts them.\<close>

theorem unsolicited_response_authenticates:
  assumes "server_mode s" "auth_username (auth_self s) = None"
    "on_message (pbind get_int (\<lambda>n. text_loop (nat n))) m s = (Inr (responses, m'), s)"
    "check_auth_interactive_response (su_server su) responses = IResult AUTH_SUCCESSFUL"
  shows "authed (snd (auth_next su MSG_USERAUTH_INFO_RESPONSE m s)) \<and>
    get_username (snd (auth_next su MSG_USERAUTH_INFO_RESPONSE m s)) = None"
proof -
  define t where "t = on_auth (\<lambda>h. h\<lparr>ah_authenticated := True\<rparr>) s"
  define P where "P s \<longleftrightarrow> let_in s \<and> auth_username (auth_self s) = None" for s :: "('a, 'b) transport"
  have "auth_next su MSG_USERAUTH_INFO_RESPONSE m s = send_auth_result su None AUTH_SUCCESSFUL s"
    using assms by (simp add: auth_next_def parse_userauth_info_response_def msg_codes nb_def bbind_def)
  also have "\<dots> = bbind (send_msg su [FRaw [MSG_USERAUTH_SUCCESS]]) (\<lambda>_.
        bbind (\<lambda>s. if auth_fail_count (auth_self s) \<ge> 10 then disconnect_no_more_auth su s else bret () s) (\<lambda>_.
        bmodify (auth_trigger (su_lib su)))) t"
    by (simp add: send_auth_result_def t_def bbind_bbind)
  finally have eq: "auth_next su MSG_USERAUTH_INFO_RESPONSE m s = \<dots>" .
  have f: "framed P"
    unfolding framed_def P_def let_in_def authed_def using outer_transport auth_self_cong by metis
  have close: "bkeeps P (bmodify t_close)"
    by (rule bkeeps_bmodify) (simp add: P_def let_in_def authed_close t_close_fields auth_self_unchanged)
  have "P t" using assms(1,2) by (simp add: P_def t_def let_in_def on_auth_fields authed_on_auth auth_self_on_auth)
  then have "P (snd (auth_next su MSG_USERAUTH_INFO_RESPONSE m s))"
    unfolding eq disconnect_no_more_auth_def
    by (rule bkeeps_bbindD) (intro send_msg_frame f bkeeps_bbind bkeeps_if close bkeeps_bret
        framed_update [OF f] auth_trigger_frame)+
  then show ?thesis by (simp add: P_def let_in_def get_username_def)
qed

theorem unsolicited_response_authenticates_witness:
  "let su = demo_su\<lparr>su_server := demo_iface\<lparr>check_auth_interactive_response := (\<lambda>r. IResult AUTH_SUCCESSFUL)\<rparr>\<rparr>
   in authed (snd (auth_next su MSG_USERAUTH_INFO_RESPONSE (Message_init (Some [0, 0, 0, 1, 0, 0, 0, 1, 120])) (demo_server [])))"
proof -
  define su where "su = demo_su\<lparr>su_server := demo_iface\<lparr>check_auth_interactive_response := (\<lambda>r. IResult AUTH_SUCCESSFUL)\<rparr>\<rparr>"
  define m where "m = Message_init (Some [0, 0, 0, 1, 0, 0, 0, 1, 120])"
  have "server_mode (demo_server [])" "auth_username (auth_self (demo_server [])) = None" by code_simp+
  moreover have "fst (pbind get_int (\<lambda>n. text_loop (nat n)) m) = Inr [[120]]"
    unfolding m_def by code_simp
  then have "on_message (pbind get_int (\<lambda>n. text_loop (nat n))) m (demo_server [])
      = (Inr ([[120]], snd (pbind get_int (\<lambda>n. text_loop (nat n)) m)), demo_server [])"
    by (auto simp: on_message_def split: prod.splits sum.splits)
  moreover have "check_auth_interactive_response (su_server su) [[120]] = IResult AUTH_SUCCESSFUL"
    by (simp add: su_def)
  ultimately have "authed (snd (auth_next su MSG_USERAUTH_INFO_RESPONSE m (demo_server [])))"
    using unsolicited_response_authenticates by blast
  then show ?thesis by (simp add: su_def m_def Let_def)
qed

section \<open>The algorithm of a signature\<close>

definition server_sig_algs_of :: "('e, 'z) transport \<Rightarrow> bytes" where
  "server_sig_algs_of s = (case map_of (server_extensions s) (lit ''server-sig-algs'') of Some b \<Rightarrow> b | None \<Rightarrow> [])"

lemma fallbacks_known:
  assumes "fallback \<in> {choose_fallback_pubkey_algorithm, choose_fallback_auth_only}" "l \<noteq> []"
  shows "fallback k l \<in> set l"
  using assms by (auto simp: choose_fallback_pubkey_algorithm_def choose_fallback_auth_only_def)

text \<open>C20: The algorithm with which a client signs for an RSA key is one of the RSA algorithms that it is configured
  to use, and one of those the server has announced when it has announced any; with the suffix
  of certificates exactly when the key is a certificate. (Servers that look like old releases of
  OpenSSH are the exception.)\<close>

theorem pubkey_algorithm_agreed:
  assumes "finalize_pubkey_algorithm fallback key_type s = Inr a" "contains (lit ''rsa'') key_type"
    "fallback \<in> {choose_fallback_pubkey_algorithm, choose_fallback_auth_only}"
    "\<not> (endswith key_type cert_suffix \<and> old_openssh (remote_version s))"
  shows "\<exists>b\<in>set (preferred_pubkeys s). contains (lit ''rsa'') b
     \<and> a = (if endswith key_type cert_suffix then b @ cert_suffix else b)
     \<and> (server_sig_algs_of s \<noteq> [] \<longrightarrow> b \<in> set (split_on 0x2C (server_sig_algs_of s)))"
proof -
  define mine where "mine = filter (contains (lit ''rsa'')) (preferred_pubkeys s)"
  define algs where "algs = server_sig_algs_of s"
  have ne: "mine \<noteq> []"
    using assms(1,2,4) by (auto simp: finalize_pubkey_algorithm_def mine_def Let_def split: if_splits)
  obtain b where a: "a = (if endswith key_type cert_suffix then b @ cert_suffix else b)"
    and b: "(if algs \<noteq> [] then
         (case filter (\<lambda>a. a \<in> set (split_on 0x2C algs)) mine of
            a # _ \<Rightarrow> Inr a | [] \<Rightarrow> Inl (AuthenticationException ''Unable to agree on a pubkey algorithm''))
        else Inr (fallback key_type mine)) = Inr b"
    using assms(1,2,4) ne
    by (auto simp: finalize_pubkey_algorithm_def Let_def mine_def algs_def server_sig_algs_of_def utf8_decode_def rbind_def
        split: if_splits list.splits option.splits sum.splits)
  have "b \<in> set mine \<and> (algs \<noteq> [] \<longrightarrow> b \<in> set (split_on 0x2C algs))"
  proof (cases "algs = []")
    case True
    then show ?thesis using b fallbacks_known [OF assms(3) ne] by auto
  next
    case False
    then obtain rest where "filter (\<lambda>a. a \<in> set (split_on 0x2C algs)) mine = b # rest" using b by (auto split: list.splits)
    then have "b \<in> set (filter (\<lambda>a. a \<in> set (split_on 0x2C algs)) mine)" by simp
    then show ?thesis by simp
  qed
  with a show ?thesis by (auto simp: mine_def algs_def)
qed

text \<open>Releases of OpenSSH from 10 on are taken for releases before 7.8: whatever follows the digit, a version
  that begins with \<^verbatim>\<open>OpenSSH_1\<close> makes a client sign for an RSA certificate with the
  algorithm \<^verbatim>\<open>ssh-rsa-cert-v01@openssh.com\<close>, which it may even have disabled.\<close>

theorem new_openssh_taken_for_old:
  assumes "remote_version s = lit ''SSH-2.0-OpenSSH_1'' @ rest" "key_type = base @ cert_suffix" "contains (lit ''rsa'') key_type"
  shows "finalize_pubkey_algorithm fallback key_type s = Inr (lit ''ssh-rsa-cert-v01@openssh.com'')"
proof -
  have "old_openssh_at (lit ''-OpenSSH_1'' @ rest)"
    by (cases rest; cases "tl rest") (simp_all add: old_openssh_at_def startswith_def lit_def)
  then have "old_openssh (lit ''SSH-2.0-OpenSSH_1'' @ rest)"
    by (simp add: lit_def)
  moreover have "endswith key_type cert_suffix" using assms(2) by (simp add: endswith_def)
  ultimately show ?thesis using assms(1,3) by (simp add: finalize_pubkey_algorithm_def)
qed

text \<open>A client that disabled \<^verbatim>\<open>ssh-rsa\<close>, with a server that announces two algorithms.\<close>

definition demo_client :: "string \<Rightarrow> (byte, unit) transport" where
  "demo_client version =
     (demo_server [])\<lparr>server_mode := False, pref_pubkeys := [lit ''rsa-sha2-512'', lit ''rsa-sha2-256''],
        remote_version := lit version, server_extensions := [(lit ''server-sig-algs'', lit ''ssh-rsa,rsa-sha2-256'')]\<rparr>"

theorem pubkey_algorithm_agreed_witness:
  "finalize_pubkey_algorithm choose_fallback_pubkey_algorithm (lit ''ssh-rsa'') (demo_client ''SSH-2.0-x'') = Inr (lit ''rsa-sha2-256'')
   \<and> (\<exists>b\<in>set (preferred_pubkeys (demo_client ''SSH-2.0-x'')). contains (lit ''rsa'') b)"
proof
  show r: "finalize_pubkey_algorithm choose_fallback_pubkey_algorithm (lit ''ssh-rsa'') (demo_client ''SSH-2.0-x'') = Inr (lit ''rsa-sha2-256'')"
    by code_simp
  have "contains (lit ''rsa'') (lit ''ssh-rsa'')" "\<not> (endswith (lit ''ssh-rsa'') cert_suffix \<and> old_openssh (remote_version (demo_client ''SSH-2.0-x'')))"
    by code_simp+
  from pubkey_algorithm_agreed [OF r this(1) _ this(2)]
  show "\<exists>b\<in>set (preferred_pubkeys (demo_client ''SSH-2.0-x'')). contains (lit ''rsa'') b" by blast
qed

theorem new_openssh_taken_for_old_witness:
  "finalize_pubkey_algorithm choose_fallback_pubkey_algorithm (lit ''rsa-sha2-256-cert-v01@openssh.com'') (demo_client ''SSH-2.0-OpenSSH_10.0'')
   = Inr (lit ''ssh-rsa-cert-v01@openssh.com'')"
proof (rule new_openssh_taken_for_old)
  show "remote_version (demo_client ''SSH-2.0-OpenSSH_10.0'') = lit ''SSH-2.0-OpenSSH_1'' @ lit ''0.0''" by code_simp
  show "lit ''rsa-sha2-256-cert-v01@openssh.com'' = lit ''rsa-sha2-256'' @ cert_suffix"
    "contains (lit ''rsa'') (lit ''rsa-sha2-256-cert-v01@openssh.com'')" by code_simp+
qed

end
