(* ===== verification/Transport_Channels.thy ===== *)
theory Transport_Channels
  imports Auth_Safety Channel_Inv
begin

text \<open>
  The channels of a transport: its table gives every channel the number under which it is
  filed, opening a channel takes a number that is free, and when the loop of \<^verbatim>\<open>run\<close> ends every channel
  is closed and everybody who waits is woken. Also what goes wrong: messages of channels
  during a key exchange, messages before authentication, and messages of unknown types.
\<close>

section \<open>The table\<close>

interpretation own_id: stream_invariant "\<lambda>c. chanid c = n" for n
  by unfold_locales (simp_all add: set_closed_def)

interpretation own_id: request_invariant "\<lambda>c. chanid c = n" for n
  by unfold_locales simp_all

lemma channel_handler_id: "chanid (snd (channel_handler su b t m c)) = chanid c"
proof -
  have "keeps (\<lambda>c'. chanid c' = n) (channel_handler su b t m) (\<lambda>_. True)" for n
    unfolding channel_handler_def
    by (simp add: own_id.closing_any own_id.handle_request_any own_id.adjust_any own_id.input_kept)
  then show ?thesis by (simp add: keeps_def)
qed

text \<open>Every channel is filed under its own number, and every number filed has been seen.\<close>

definition table_ok :: "('e, 'z) transport \<Rightarrow> bool" where
  "table_ok s \<longleftrightarrow> chan_wf (channels s)
     \<and> (\<forall>i c. chan_get i (channels s) = Some c \<longrightarrow> chanid c = i \<and> i \<in> set (channels_seen s))"

lemma table_same: "table_ok s \<Longrightarrow> channels s' = channels s \<Longrightarrow> channels_seen s' = channels_seen s \<Longrightarrow> table_ok s'"
  by (simp add: table_ok_def)

lemma table_put:
  assumes "table_ok s" "chanid c = n" "channels s' = chan_put n c (channels s)"
    "set (channels_seen s) \<subseteq> set (channels_seen s')" "n \<in> set (channels_seen s')"
  shows "table_ok s'"
  using assms by (auto simp: table_ok_def split: if_splits)

lemma table_delete: "table_ok s \<Longrightarrow> channels s' = chan_delete n (channels s) \<Longrightarrow> channels_seen s' = channels_seen s \<Longrightarrow> table_ok s'"
  by (auto simp: table_ok_def split: if_splits)

lemma table_unlink: "table_ok s \<Longrightarrow> table_ok (unlink_channel n s)"
  by (auto simp: unlink_channel_def elim: table_delete split: option.splits)

lemma table_outer:
  fixes s s' :: "('e, 'z) transport"
  shows "outer s' = outer s \<Longrightarrow> table_ok s \<Longrightarrow> table_ok s'"
  using outer_transport [of s' s] by (simp add: table_ok_def)

lemma table_kex_closed: "kex_closed table_ok"
  by (rule kex_closed_outer) (rule table_outer)

lemmas table_framed = kex_closed_framed [OF table_kex_closed]

lemma table_modify:
  "(\<And>s. channels (f s) = channels s) \<Longrightarrow> (\<And>s. channels_seen (f s) = channels_seen s) \<Longrightarrow> bkeeps table_ok (bmodify f)"
  by (rule bkeeps_bmodify) (erule table_same, simp_all)

text \<open>Unlinking channels takes those out of the table that were open.\<close>

lemma unlink_one_get:
  "chan_wf (channels s) \<Longrightarrow> chan_get i (channels (unlink_one c s)) =
     (if \<not> chan_closed c \<and> chanid c = i then None else chan_get i (channels s))"
  "chan_wf (channels s) \<Longrightarrow> chan_wf (channels (unlink_one c s))"
  by (auto simp: unlink_one_def unlink_channel_def)

lemma fold_unlink_get:
  "chan_wf (channels s) \<Longrightarrow> chan_get i (channels (fold unlink_one cs s)) =
     (if \<exists>c\<in>set cs. \<not> chan_closed c \<and> chanid c = i then None else chan_get i (channels s))"
  "chan_wf (channels s) \<Longrightarrow> chan_wf (channels (fold unlink_one cs s))"
  by (induction cs arbitrary: s) (auto simp: unlink_one_get)

lemma table_fold: "table_ok s \<Longrightarrow> table_ok (fold unlink_one cs s)"
  by (auto simp: table_ok_def fold_unlink_get fold_unlink_fields split: if_splits)

lemma table_close: "table_ok s \<Longrightarrow> table_ok (t_close s)"
  unfolding t_close_def Let_def by (auto intro!: table_fold elim: table_same)

interpretation table_auth: auth_invariant table_ok su for su
proof
  show "framed (table_ok :: ('e, 'z) transport \<Rightarrow> bool)" by (rule table_framed)
qed (auto simp: table_close on_auth_fields elim!: table_same)

lemma table_parts: "parts_ok (su_parts su) \<Longrightarrow> parts_keep table_ok su"
  by (erule parts_ok_keep) (simp_all add: table_outer table_auth.auth_next_kept)

lemma table_calls: "bkeeps table_ok (perform_calls su cs)"
proof (induction cs)
  case (Cons c cs)
  have "bkeeps table_ok (perform_call su c)"
  proof (cases c)
    case (SendUserMessage m)
    then show ?thesis by (simp add: send_user_frame table_framed)
  next
    case (UnlinkChannel n)
    then show ?thesis by (simp add: bkeeps_bmodify table_unlink)
  qed (simp_all add: table_modify)
  with Cons.IH show ?case by (auto intro: bkeeps_bbind)
qed (simp add: bkeeps_bret)

lemma table_on_channel:
  fixes su :: "('e, 'z) surroundings"
  assumes "\<And>c. chanid (snd (op c)) = chanid c"
  shows "bkeeps table_ok (on_channel su n op)"
proof (rule bkeeps_stateI)
  fix s :: "('e, 'z) transport" assume t: "table_ok s"
  show "table_ok (snd (on_channel su n op s))"
  proof (cases "chan_get n (channels s)")
    case None
    then show ?thesis by (simp add: on_channel_def bkeeps_basicD t)
  next
    case (Some c)
    obtain r c' where o: "op (chan_view s c) = (r, c')" by force
    have "chanid c' = n" "n \<in> set (channels_seen s)"
      using assms [of "chan_view s c"] o Some t by (auto simp: chan_view_def table_ok_def)
    then have "table_ok (s\<lparr>channels := chan_put n c' (channels s)\<rparr>)"
      by (intro table_put [OF t, of c' n]) simp_all
    then have "table_ok (snd (bbind (perform_calls su (calls c')) (\<lambda>_. blift r) (s\<lparr>channels := chan_put n c' (channels s)\<rparr>)))"
      by (rule bkeeps_bbindD) (rule table_calls, rule bkeeps_blift)
    then show ?thesis by (simp add: on_channel_def Some o)
  qed
qed

section \<open>Opening\<close>

lemma set_remote_channel_id: "chanid (set_remote_channel a b c d) = chanid d"
  by (simp add: set_remote_channel_def)

lemma new_channel_id: "chanid (set_window w p (new_channel n)) = n"
  by (simp add: new_channel_def set_window_def set_transport_def Channel_init_def)

lemma table_open_messages:
  "bkeeps table_ok (parse_channel_open_success m)" "bkeeps table_ok (parse_channel_open_failure m)"
proof -
  have "table_ok (case chan_get n (channels s) of None \<Rightarrow> s
     | Some c \<Rightarrow> set_channel_event n (s\<lparr>channels := chan_put n (set_remote_channel i w p c) (channels s)\<rparr>))"
    if "table_ok s" for n i w p s
    using that by (auto split: option.splits intro!: table_put [OF that]
        simp: set_channel_event_def set_remote_channel_id table_ok_def)
  then show "bkeeps table_ok (parse_channel_open_success m)"
    unfolding parse_channel_open_success_def
    by (auto intro!: bkeeps_bbind bkeeps_nb_message bkeeps_bmodify split: prod.splits)
  have "table_ok (let s = s\<lparr>t_saved_exception := e\<rparr> in
       if k \<in> fst ` set (channel_events s) then set_channel_event k (unlink_channel k s) else s)"
    if "table_ok s" for k e s
  proof -
    have "table_ok (unlink_channel k (s\<lparr>t_saved_exception := e\<rparr>))"
      by (intro table_unlink table_same [OF that]) simp_all
    then show ?thesis using that by (simp add: Let_def set_channel_event_def table_ok_def)
  qed
  then show "bkeeps table_ok (parse_channel_open_failure m)"
    unfolding parse_channel_open_failure_def Let_def
    by (auto intro!: bkeeps_bbind bkeeps_nb_message bkeeps_bmodify split: prod.splits)
qed

lemma alloc_channel_done:
  assumes "alloc_channel s = (Done (Inr n), s')"
  shows "chan_get n (channels s) = None \<and> channels s' = channels s \<and> channels_seen s' = channels_seen s"
  using assms next_channel_loop_sound [of "channels s" "channel_counter s" n]
  by (auto simp: alloc_channel_def next_channel_def bret_def split: option.splits)

text \<open>The number chosen is free, and the table is as before.\<close>

lemma decide_channel_open_done:
  assumes "decide_channel_open su k m s = (Done (Inr (Inr (n, b))), s')"
  shows "chan_get n (channels s) = None \<and> channels s' = channels s \<and> channels_seen s' = channels_seen s"
  using assms unfolding decide_channel_open_def
  by (auto split: if_splits prod.splits elim!: bbind_eq_InrE dest!: nb_message_done alloc_channel_done
      simp: bret_def)

lemma decide_channel_open_table:
  fixes su :: "('e, 'z) surroundings"
  shows "bkeeps table_ok (decide_channel_open su k m)"
proof -
  have a: "bkeeps table_ok (alloc_channel :: (('e, 'z) transport, int) bpy)"
    by (rule bkeeps_stateI) (auto simp: alloc_channel_def bret_def elim: table_same split: option.splits)
  show ?thesis
  proof (rule bkeeps_stateI)
    fix s :: "('e, 'z) transport" assume t: "table_ok s"
    show "table_ok (snd (decide_channel_open su k m s))"
      unfolding decide_channel_open_def
      by (auto simp: bkeeps_basicD t split: prod.splits
          intro!: bkeeps_bbindD [of table_ok, OF t] bkeeps_bbind a bkeeps_bret bkeeps_nb_message)
  qed
qed

lemma announce_channel_table: "bkeeps table_ok (announce_channel k b n)"
  by (rule bkeeps_stateI)
    (auto simp: announce_channel_def call_handler_def bkeeps_basicD bmodify_def queue_incoming_channel_def
      elim: table_same split: option.splits chan_handler.splits)

lemma parse_channel_open_table: "bkeeps table_ok (parse_channel_open su m)"
proof -
  have send: "bkeeps table_ok (\<lambda>s. send_msg su (fs s) s)" for fs
    by (rule bkeeps_stateI) (rule bkeepsD [OF send_msg_frame [OF table_framed]])
  have put: "bkeeps table_ok (bmodify (\<lambda>s. s\<lparr>channels := chan_put n (set_remote_channel a b c
       (set_window (default_window_size s) (default_max_packet_size s) (new_channel n))) (channels s),
         channels_seen := n # channels_seen s\<rparr>))" for n a b c
    by (rule bkeeps_bmodify) (erule table_put, auto simp: set_remote_channel_id new_channel_id)
  show ?thesis
    unfolding parse_channel_open_def
    by (auto intro!: bkeeps_bbind bkeeps_nb_message decide_channel_open_table announce_channel_table put send
        send_msg_frame table_framed split: prod.splits sum.splits)
qed

section \<open>The loop keeps the table\<close>

lemma table_global_request: "bkeeps table_ok (parse_global_request su m)"
proof -
  have q: "bkeeps table_ok (\<lambda>s. if \<not> server_mode s then bret (GBool False) s else if b then x s else if d then y s else bret z s)"
    if "bkeeps table_ok x" "bkeeps table_ok y" for b d x y z
    using that by (auto simp: bkeeps_def bret_def)
  show ?thesis
    unfolding parse_global_request_def Let_def
    by (auto intro!: bkeeps_bbind bkeeps_nb_message q bkeeps_bret bkeeps_blift send_frame send_msg_frame
        table_framed split: prod.splits global_answer.splits bool.splits)
qed

lemma table_small:
  "bkeeps table_ok (parse_ext_info m)" "bkeeps table_ok (parse_request_success m)" "bkeeps table_ok (parse_request_failure m)"
  unfolding parse_ext_info_def parse_request_success_def parse_request_failure_def
  by (auto intro!: bkeeps_bbind bkeeps_nb_message table_modify simp: set_completion_def split: prod.splits)

lemma table_handle:
  assumes "parts_ok (su_parts su)" shows "bkeeps table_ok (handle_message su t m n)"
proof -
  have "bkeeps table_ok (parse_newkeys su)"
    unfolding parse_newkeys_def
    by (intro bkeeps_bbind activate_inbound_frame table_framed table_modify) (auto simp: Let_def set_completion_def)
  moreover have "bkeeps table_ok (negotiate_keys su m n)"
    using table_parts [OF assms] by (intro negotiate_keys_frame table_kex_closed) (simp add: parts_keep_def)
  ultimately show ?thesis
    unfolding handle_message_def by (simp add: table_small table_global_request table_open_messages parse_channel_open_table)
qed

lemma table_rest:
  fixes su :: "('e, 'z) surroundings"
  assumes "parts_ok (su_parts su)" shows "bkeeps table_ok (dispatch_rest su t m n)"
proof (rule bkeeps_stateI)
  fix s :: "('e, 'z) transport" assume s: "table_ok s"
  have a: "bkeeps table_ok (auth_next su t m)" for t by (rule table_auth.auth_next_kept)
  have chan: "bkeeps table_ok (on_channel su k (channel_handler su b t m))" for k b t m
    by (rule table_on_channel) (rule channel_handler_id)
  have "bkeeps table_ok (\<lambda>s. if c s then bbind (on_channel su k (channel_handler su (b s) t m)) (\<lambda>_. bret LBodyEnd) s
      else if d s then bret LBodyEnd s else bret LBreak s)" for c d k b t m
    by (rule bkeeps_stateI) (simp add: bkeeps_basicD bkeeps_bbindD chan bkeeps_bret)
  moreover have "bkeeps table_ok (\<lambda>s. bret (f s) s)" for f
    by (simp add: bkeeps_def bret_def)
  ultimately show "table_ok (snd (dispatch_rest su t m n s))"
    unfolding dispatch_rest_def
    by (auto simp: bkeeps_basicD s split: option.splits prod.splits
        intro!: bkeeps_bbindD [of table_ok, OF s] bkeeps_bbind bkeeps_blift bkeeps_bret a send_frame table_framed
          send_msg_frame bkeeps_nb_message table_handle assms)
qed

lemma table_turn:
  assumes "parts_ok (su_parts su)" shows "bkeeps table_ok (run_turn su)"
proof (rule run_turn_keeps [OF table_framed dispatch_keeps [OF table_framed _ table_rest [OF assms]]])
  show "bkeeps table_ok (kex_parse_next su t m)" for t m
    using table_parts [OF assms] by (intro kex_parse_next_frame kex_closed_secret table_kex_closed) (simp add: parts_keep_def)
qed

section \<open>The end of the loop\<close>

lemma run_finish_unlinks:
  fixes s :: "('e, 'z) transport"
  obtains t :: "('e, 'z) transport" where "channels t = channels s" "channels_seen t = channels_seen s"
    "channels (run_finish e s) = channels (fold unlink_one (chan_values (channels t)) t)"
proof -
  define t where "t = (case e of None \<Rightarrow> s | Some e \<Rightarrow> s\<lparr>t_saved_exception := Some e\<rparr>)"
  have "channels t = channels s" "channels_seen t = channels_seen s" by (simp_all add: t_def split: option.splits)
  moreover have "channels (run_finish e s) = channels (fold unlink_one (chan_values (channels t)) t)"
    by (simp add: run_finish_def Let_def t_def [symmetric] set_completion_def auth_abort_def on_auth_def)
  ultimately show thesis by (rule that)
qed

lemma finish_channels:
  assumes "table_ok s" "c \<in> set (chan_values (channels (run_finish e s)))"
  shows "chan_closed c"
proof -
  obtain t :: "('a, 'b) transport" where t: "channels t = channels s" "channels_seen t = channels_seen s"
    "channels (run_finish e s) = channels (fold unlink_one (chan_values (channels t)) t)"
    by (rule run_finish_unlinks)
  have wf: "chan_wf (channels t)" using assms(1) by (simp add: t table_ok_def)
  obtain i where i: "chan_get i (channels (fold unlink_one (chan_values (channels t)) t)) = Some c"
    using assms(2) fold_unlink_get(2) [OF wf] by (auto simp: t(3) channel_table.contents_get)
  then have "\<not> (\<exists>d\<in>set (chan_values (channels t)). \<not> chan_closed d \<and> chanid d = i)" "chan_get i (channels t) = Some c"
    by (auto simp: fold_unlink_get [OF wf] split: if_splits)
  with assms(1) wf show ?thesis by (auto simp: t table_ok_def channel_table.contents_get)
qed

lemma run_loop_ends:
  assumes "\<And>su. su \<in> set sus \<Longrightarrow> bkeeps P (run_turn su)" "P s" "run_loop sus s = (False, s')"
  shows "\<exists>e t. P t \<and> s' = run_finish e t"
  using assms
proof (induction sus arbitrary: s)
  case (Cons su sus)
  have "P (snd (run_turn su s))" using Cons.prems(1,2) by (simp add: bkeeps_def)
  with Cons.IH Cons.prems show ?case
    by (cases "run_turn su s") (auto split: if_splits blocking.splits sum.splits bool.splits)
qed (auto split: if_splits)

lemma finish_inactive: "\<not> t_active (run_finish e s)"
  by (simp add: run_finish_def Let_def set_completion_def auth_abort_def on_auth_def)


text \<open>Everybody who waits for the transport is woken when the loop ends by itself.\<close>

lemma auth_abort_fields:
  "completion_event (auth_abort s) = completion_event s" "channel_events (auth_abort s) = channel_events s"
  "auth_event (auth_self (auth_abort s)) \<noteq> Some False"
  by (auto simp: auth_abort_def on_auth_def auth_self_def set_auth_event_def AuthHandler_init_def split: option.splits)

lemma finish_wakes:
  assumes "t_active s"
  shows "completion_event (run_finish e s) \<noteq> Some False" "(n, b) \<in> set (channel_events (run_finish e s)) \<Longrightarrow> b"
    "auth_event (auth_self (run_finish e s)) \<noteq> Some False"
proof -
  define t where "t = (case e of None \<Rightarrow> s | Some e \<Rightarrow> s\<lparr>t_saved_exception := Some e\<rparr>)"
  have "t_active t" using assms by (simp add: t_def split: option.splits)
  then have eq: "run_finish e s = (let s = fold unlink_one (chan_values (channels t)) t in
      auth_abort (set_completion (s\<lparr>t_active := False, pktz := close_packetizer (pktz s),
             channel_events := map (\<lambda>(k, _). (k, True)) (channel_events s)\<rparr>)))"
    by (simp add: run_finish_def Let_def t_def [symmetric] fold_unlink_fields)
  show "completion_event (run_finish e s) \<noteq> Some False" "auth_event (auth_self (run_finish e s)) \<noteq> Some False"
    by (simp_all add: eq Let_def auth_abort_fields set_completion_def)
  show "(n, b) \<in> set (channel_events (run_finish e s)) \<Longrightarrow> b"
    by (auto simp: eq Let_def auth_abort_fields set_completion_def)
qed

text \<open>A server with one channel, which has received a packet.\<close>

definition demo_busy :: "bytes \<Rightarrow> (byte, unit) transport" where
  "demo_busy inp =
     (demo_server inp)\<lparr>channels := chan_put 0 (set_remote_channel 7 100000 32768 (new_channel 0)) ChannelMap_init,
        channels_seen := [0]\<rparr>"

definition demo_disconnect :: bytes where
  "demo_disconnect = [0, 0, 0, 20, 6, 1, 0, 0, 0, 11, 0, 0, 0, 0, 0, 0, 0, 0, 0, 0, 0, 0, 0, 0]"

lemma demo_busy_table: "table_ok (demo_busy inp)"
  by (auto simp: table_ok_def demo_busy_def set_remote_channel_id new_channel_def set_transport_def Channel_init_def
      split: if_splits)


section \<open>Opening never replaces a channel\<close>

text \<open>C9: Opening a channel on a request of the peer leaves the channels alone that are already open: the new
  channel never takes the number of another one.\<close>

theorem open_keeps_channels:
  assumes "chan_get i (channels s) = Some c"
  shows "chan_get i (channels (snd (parse_channel_open su m s))) = Some c"
proof -
  define P where "P t \<longleftrightarrow> chan_get i (channels t) = Some c" for t :: "('a, 'b) transport"
  have f: "framed P" unfolding framed_def P_def using outer_transport(3) by metis
  have an: "bkeeps P (announce_channel k b n)" for k b n
    by (rule bkeeps_stateI)
      (auto simp: announce_channel_def call_handler_def bkeeps_basicD bmodify_def queue_incoming_channel_def P_def
        bret_def braise_def split: option.splits chan_handler.splits)
  have send: "bkeeps P (\<lambda>s. send_msg su (fs s) s)" for fs
    by (rule bkeeps_stateI) (rule bkeepsD [OF send_msg_frame [OF f]])
  have "bkeeps P alloc_channel"
    by (rule bkeeps_stateI) (auto simp: alloc_channel_def bret_def P_def split: option.splits)
  then have dec: "bkeeps P (decide_channel_open su k m)" for k m
    by (intro bkeeps_stateI, unfold decide_channel_open_def)
      (auto simp: bkeeps_basicD split: prod.splits
        intro!: bkeeps_bbindD [of P] bkeeps_bbind bkeeps_bret bkeeps_nb_message)
  have "P (snd (bbind (decide_channel_open su k m) (\<lambda>d. case d of
       Inl reason \<Rightarrow> send_msg su (fs reason)
     | Inr (n, origin) \<Rightarrow> bbind (bmodify (\<lambda>s. s\<lparr>channels := chan_put n (new n s) (channels s), channels_seen := n # channels_seen s\<rparr>)) (\<lambda>_.
         bbind (\<lambda>s. send_msg su (gs n s) s) (\<lambda>_. announce_channel k origin n))) t))" if "P t" for k m fs new gs t
  proof (cases "decide_channel_open su k m t")
    case (Pair x t1)
    have t1: "P t1" using bkeepsD [OF dec that] Pair by (metis snd_conv)
    have "P (snd (bbind (\<lambda>s. send_msg su (gs n s) s) (\<lambda>_. announce_channel k origin n)
         (t1\<lparr>channels := chan_put n (new n t1) (channels t1), channels_seen := n # channels_seen t1\<rparr>)))"
      if "x = Done (Inr (Inr (n, origin)))" for n origin
    proof (rule bkeeps_bbindD [of P, OF _ send an])
      have "chan_get n (channels t1) = None" using decide_channel_open_done [OF Pair [unfolded that]] by simp
      then show "P (t1\<lparr>channels := chan_put n (new n t1) (channels t1), channels_seen := n # channels_seen t1\<rparr>)"
        using t1 by (auto simp: P_def)
    qed
    with t1 bkeepsD [OF send_msg_frame [OF f] t1] show ?thesis
      by (auto simp: bbind_def [of "decide_channel_open su k m"] Pair split: blocking.splits sum.splits prod.splits)
  qed
  moreover have "P s" using assms by (simp add: P_def)
  ultimately have "P (snd (parse_channel_open su m s))"
    unfolding parse_channel_open_def by (auto intro!: nb_bbindI [of P] split: prod.splits)
  then show ?thesis by (simp add: P_def)
qed

theorem open_keeps_channels_witness:
  "chan_get 0 (channels (snd (parse_channel_open demo_su (Message_init (Some [0, 0, 0, 1, 120, 0, 0, 0, 5])) (demo_busy []))))
   = Some (set_remote_channel 7 100000 32768 (new_channel 0))"
  by (rule open_keeps_channels) (simp add: demo_busy_def)

section \<open>What ends a connection\<close>

lemma close_message: "u32_ok n \<Longrightarrow> \<exists>b. message_of [FRaw [c], FInt n] = Inr b"
  using message_of_ok [of "[FRaw [c], FInt n]"] by (simp add: field_ok.simps)

lemma handle_close_fails:
  assumes "active c" "\<not> chan_closed c" "has_transport c" "u32_ok (remote_chanid c)" "send_error c = Some e" "calls c = []"
  shows "fst (handle_close c) = Inl e" "calls (snd (handle_close c)) = [UnlinkChannel (chanid c)]"
proof -
  obtain m1 m2 where "message_of [FRaw [MSG_CHANNEL_EOF], FInt (remote_chanid c)] = Inr m1"
    "message_of [FRaw [MSG_CHANNEL_CLOSE], FInt (remote_chanid c)] = Inr m2"
    using close_message [OF assms(4)] by blast
  then show "fst (handle_close c) = Inl e" "calls (snd (handle_close c)) = [UnlinkChannel (chanid c)]"
    using assms
    by (auto simp: handle_close_def close_internal_def send_eof_def set_closed_def send_user_message_def py_monad)
qed

text \<open>A channel that the peer closes while this end waits for a key exchange takes the whole connection down:
  the answer is sent from the thread that alone could finish the key exchange, which waits for
  the key exchange, times out, and ends the loop.\<close>

theorem close_during_rekey_fails:
  assumes "t_active s" "\<not> clear_to_send s" "expected_packet s = []" "get_int m = (Inr n, m')"
    "chan_get n (channels s) = Some c" "active c" "\<not> chan_closed c" "has_transport c" "u32_ok (remote_chanid c)"
  shows "fst (dispatch su MSG_CHANNEL_CLOSE m seqno s) = Done (Inl kex_timeout)"
proof -
  define v where "v = chan_view s c"
  have v: "active v" "\<not> chan_closed v" "has_transport v" "u32_ok (remote_chanid v)" "send_error v = Some kex_timeout" "calls v = []"
    using assms by (simp_all add: v_def chan_view_def)
  obtain c' where c': "handle_close v = (Inl kex_timeout, c')" "calls c' = [UnlinkChannel (chanid v)]"
    using handle_close_fails [OF v] by (metis prod.collapse)
  have "channel_handler su b MSG_CHANNEL_CLOSE m' = handle_close" for b
    by (simp add: channel_handler_def msg_codes)
  then have "\<exists>t. on_channel su n (channel_handler su (server_mode s) MSG_CHANNEL_CLOSE m') s = (Done (Inl kex_timeout), t)"
    using assms(5) c' by (simp add: on_channel_def v_def [symmetric] bbind_def bmodify_def blift_def bret_def)
  then show ?thesis using assms(3,4,5)
    by (auto simp: dispatch_def dispatch_rest_def handler_table_def channel_handler_table_def msg_codes
        bbind_def nb_def on_message_def split: prod.splits)
qed

theorem close_during_rekey_fails_witness:
  "fst (dispatch demo_su MSG_CHANNEL_CLOSE (Message_init (Some [0, 0, 0, 0])) 3 ((demo_busy [])\<lparr>clear_to_send := False\<rparr>))
   = Done (Inl kex_timeout)"
proof (rule close_during_rekey_fails)
  show "get_int (Message_init (Some [0, 0, 0, 0])) = (Inr 0, snd (get_int (Message_init (Some [0, 0, 0, 0]))))" by code_simp
  show "chan_get 0 (channels ((demo_busy [])\<lparr>clear_to_send := False\<rparr>)) = Some (set_remote_channel 7 100000 32768 (new_channel 0))"
    by (simp add: demo_busy_def)
  show "expected_packet ((demo_busy [])\<lparr>clear_to_send := False\<rparr>) = []" "t_active ((demo_busy [])\<lparr>clear_to_send := False\<rparr>)"
    "\<not> clear_to_send ((demo_busy [])\<lparr>clear_to_send := False\<rparr>)" by code_simp+
  show "active (set_remote_channel 7 100000 32768 (new_channel 0))" "\<not> chan_closed (set_remote_channel 7 100000 32768 (new_channel 0))"
    "has_transport (set_remote_channel 7 100000 32768 (new_channel 0))" "u32_ok (remote_chanid (set_remote_channel 7 100000 32768 (new_channel 0)))"
    by code_simp+
qed

text \<open>A message of an unauthenticated client that a server means to refuse ends the connection when it is an answer
  to a request or to the opening of a channel: the reply that \<^verbatim>\<open>_ensure_authed\<close> makes for it is
  empty, and an empty message cannot be sent.\<close>

theorem refused_answer_fails:
  assumes "server_mode s" "\<not> is_authenticated s"
    "t \<in> {MSG_REQUEST_SUCCESS, MSG_REQUEST_FAILURE, MSG_CHANNEL_OPEN_SUCCESS, MSG_CHANNEL_OPEN_FAILURE}"
  shows "dispatch_rest su t m seqno s = (Done (Inl IndexError), s)"
proof -
  have "ensure_authed t m s = Inr (Some [])" "t \<in> set handler_table"
    using assms by (auto simp: ensure_authed_def handler_table_def msg_codes)
  then show ?thesis
    by (simp add: dispatch_rest_def t_send_message_def send_message_def on_pktz_def bbind_def braise_def)
qed

theorem refused_answer_fails_witness:
  "dispatch_rest demo_su MSG_CHANNEL_OPEN_SUCCESS (Message_init None) 3 (demo_server []) = (Done (Inl IndexError), demo_server [])"
proof (rule refused_answer_fails)
  show "server_mode (demo_server [])" "\<not> is_authenticated (demo_server [])" by code_simp+
qed simp

text \<open>A message of a type that is not one of the known names ends the connection with a \<^verbatim>\<open>KeyError\<close>, where the
  comment in the code promises the reply \<^verbatim>\<open>MSG_UNIMPLEMENTED\<close>.\<close>

theorem unknown_type_fails:
  assumes "t \<notin> set msg_names" "t \<notin> set (auth_types (server_mode s))"
  shows "dispatch_rest su t m seqno s = (Done (Inl KeyError), s)"
proof -
  have "t \<notin> set handler_table" "t \<notin> set channel_handler_table"
    using assms(1) by (auto simp: msg_names_def handler_table_def channel_handler_table_def msg_codes)
  with assms show ?thesis by (simp add: dispatch_rest_def braise_def)
qed

theorem unknown_type_fails_witness:
  "dispatch_rest demo_su 200 (Message_init None) 3 (demo_server []) = (Done (Inl KeyError), demo_server [])"
  by (rule unknown_type_fails) code_simp+

end
