(* ===== verification/Transport_Start.thy ===== *)
theory Transport_Start
  imports Transport_Safety
begin

text \<open>
  The beginning of \<^verbatim>\<open>Transport.run\<close>: the exchange of version strings (\<^verbatim>\<open>_check_banner\<close>), the first
  KEXINIT, and with \<open>run_loop\<close> the whole of \<^verbatim>\<open>run\<close>.
\<close>

section \<open>The version string\<close>

text \<open>\<^verbatim>\<open>str.split(sep, n)\<close> for a separator of one character.\<close>

fun split_max :: "nat \<Rightarrow> byte \<Rightarrow> pystr \<Rightarrow> pystr list" where
  "split_max 0 sep t = [t]"
| "split_max (Suc n) sep t =
     (if sep \<in> set t
      then takeWhile (\<lambda>c. c \<noteq> sep) t # split_max n sep (tl (dropWhile (\<lambda>c. c \<noteq> sep) t))
      else [t])"

definition read_banner_line :: "int \<Rightarrow> (('e, 'z, 'y) kexing_scheme, pystr) bpy" where
  "read_banner_line timeout s =
     (case on_pktz (readline timeout) s of
        (Done (Inl e), s) \<Rightarrow>
          braise (if e = ProxyCommandFailure then e else SSHException ''Error reading SSH protocol banner'') s
      | r \<Rightarrow> r)"

text \<open>The loop, \<open>n\<close> turns after this one: the last line that was read.\<close>

fun banner_loop :: "nat \<Rightarrow> int \<Rightarrow> (('e, 'z, 'y) kexing_scheme, pystr) bpy" where
  "banner_loop n timeout =
     bbind (read_banner_line timeout) (\<lambda>buf.
     if startswith buf (lit ''SSH-'') then bret buf
     else case n of 0 \<Rightarrow> bret buf | Suc n \<Rightarrow> banner_loop n 2)"

declare banner_loop.simps [simp del]

definition accept_banner :: "pystr \<Rightarrow> py_error + unit" where
  "accept_banner buf =
     (let segs = split_max 2 45 (takeWhile (\<lambda>c. c \<noteq> 32) buf) in
      if length segs < 3 then Inl (SSHException ''Invalid SSH banner'')
      else if segs ! 1 \<noteq> lit ''1.99'' \<and> segs ! 1 \<noteq> lit ''2.0''
      then Inl (IncompatiblePeer ''Incompatible version'')
      else Inr ())"

definition check_banner :: "int \<Rightarrow> (('e, 'z, 'y) kexing_scheme, unit) bpy" where
  "check_banner banner_timeout =
     bbind (banner_loop 99 banner_timeout) (\<lambda>buf.
     if \<not> startswith buf (lit ''SSH-'') then braise (SSHException ''Indecipherable protocol version'')
     else
       bbind (bmodify (\<lambda>s. s\<lparr>remote_version := buf\<rparr>)) (\<lambda>_.
       blift (accept_banner buf)))"

section \<open>The whole thread\<close>

definition run_start :: "('e, 'z) surroundings \<Rightarrow> int \<Rightarrow> (('e, 'z) transport, unit) bpy" where
  "run_start su banner_timeout =
     bbind (\<lambda>s. on_pktz (write_all (local_version s @ [13, 10])) s) (\<lambda>_.
     bbind (check_banner banner_timeout) (\<lambda>_.
     bbind (bmodify (\<lambda>s. s\<lparr>pktz := start_handshake (pktz s)\<rparr>)) (\<lambda>_.
     bbind (send_kex_init (su_lib su) (su_rnd su) (su_cookie su)) (\<lambda>_.
     bmodify (expect_packet [MSG_KEXINIT])))))"

text \<open>\<^verbatim>\<open>run\<close> itself: whether it is still running when the surroundings of its turns are used up.\<close>

definition run_thread ::
  "('e, 'z) surroundings \<Rightarrow> int \<Rightarrow> ('e, 'z) surroundings list \<Rightarrow> ('e, 'z) transport \<Rightarrow> bool \<times> ('e, 'z) transport" where
  "run_thread su banner_timeout sus s =
     (case run_start su banner_timeout s of
        (Waiting, s) \<Rightarrow> (True, s)
      | (Done (Inl e), s) \<Rightarrow> (False, run_finish (Some e) s)
      | (Done (Inr _), s) \<Rightarrow> run_loop sus s)"

section \<open>Reading lines\<close>

text \<open>A socket that only delivers data.\<close>

definition only_data :: "recv_event list \<Rightarrow> bool" where
  "only_data evs \<longleftrightarrow> (\<forall>ev \<in> set evs. \<exists>x. ev = RData x \<and> x \<noteq> [])"

lemma only_data_simps [simp]:
  "only_data []" "only_data (ev # evs) \<longleftrightarrow> (\<exists>x. ev = RData x \<and> x \<noteq> []) \<and> only_data evs"
  by (simp_all add: only_data_def)

lemma prefix_to_separator:
  assumes "buf @ rest' = line @ c # rest" "c \<notin> set line" "c \<in> set buf"
  obtains extra where "buf = line @ c # extra" "extra @ rest' = rest"
proof -
  obtain a b where ab: "buf = a @ c # b" "c \<notin> set a" using split_list_first [OF assms(3)] by blast
  have "takeWhile (\<lambda>x. x \<noteq> c) (a @ c # (b @ rest')) = a" "takeWhile (\<lambda>x. x \<noteq> c) (line @ c # rest) = line"
    using ab(2) assms(2) by (auto intro!: takeWhile_tail simp: takeWhile_append)
  with assms(1) ab(1) have "a = line" "b @ rest' = rest" by auto
  with ab(1) that show ?thesis by blast
qed

lemma read_timeout_data:
  assumes "only_data (sock_in s)" "sock_in s \<noteq> []"
  obtains x evs where "read_timeout t s = (Done (Inr x), s\<lparr>sock_in := evs\<rparr>)" "stream (sock_in s) = x @ stream evs"
    "only_data evs"
proof -
  obtain d evs where d: "sock_in s = RData d # evs" "d \<noteq> []" "only_data evs"
    using assms by (cases "sock_in s") auto
  show ?thesis
  proof (cases "length d \<le> 128")
    case True
    with d that [of d evs] show ?thesis by (simp add: read_timeout_def stream_def)
  next
    case False
    with d that [of "take 128 d" "RData (drop 128 d) # evs"] show ?thesis by (simp add: read_timeout_def stream_def)
  qed
qed

lemma readline_loop_data:
  fixes s :: "('e, 'z, 'd) packetizer"
  assumes "only_data (sock_in s)" "buf @ stream (sock_in s) = line @ 10 # rest" "10 \<notin> set line"
  shows "\<exists>evs extra. readline_loop t buf s = (Done (Inr (line @ 10 # extra)), s\<lparr>sock_in := evs\<rparr>)
     \<and> extra @ stream evs = rest \<and> only_data evs"
  using assms
proof (induction t buf s rule: readline_loop.induct)
  case (1 t buf s)
  show ?case
  proof (cases "10 \<in> set buf")
    case True
    obtain extra where "buf = line @ 10 # extra" "extra @ stream (sock_in s) = rest"
      by (rule prefix_to_separator [OF 1(3,4) True])
    with True 1(2) show ?thesis
      by (intro exI [of _ "sock_in s"] exI [of _ extra]) (simp add: readline_loop.simps)
  next
    case False
    then have "sock_in s \<noteq> []" using 1(3) by (auto simp: stream_def)
    then obtain x evs where x: "read_timeout t s = (Done (Inr x), s\<lparr>sock_in := evs\<rparr>)" "stream (sock_in s) = x @ stream evs"
      "only_data evs" by (rule read_timeout_data [OF 1(2)])
    have "\<exists>evs' extra. readline_loop t (buf @ x) (s\<lparr>sock_in := evs\<rparr>)
        = (Done (Inr (line @ 10 # extra)), s\<lparr>sock_in := evs, sock_in := evs'\<rparr>)
      \<and> extra @ stream evs' = rest \<and> only_data evs'"
      using 1(3,4) x by (intro "1.IH" [OF False x(1) [symmetric] refl refl]) simp_all
    then show ?thesis using False x(1) by (subst readline_loop.simps) simp
  qed
qed

text \<open>The line that \<^verbatim>\<open>readline\<close> makes of the bytes before the line feed.\<close>

definition chomp :: "bytes \<Rightarrow> bytes" where
  "chomp line = (if length line > 0 \<and> last line = 13 then butlast line else line)"

lemma readline_data:
  fixes s :: "('e, 'z, 'd) packetizer"
  assumes "only_data (sock_in s)" "remainder s @ stream (sock_in s) = line @ 10 # rest" "10 \<notin> set line" "utf8_valid (chomp line)"
  shows "\<exists>evs extra. readline t s = (Done (Inr (chomp line)), s\<lparr>sock_in := evs, remainder := extra\<rparr>)
     \<and> extra @ stream evs = rest \<and> only_data evs"
proof -
  obtain evs extra where e: "readline_loop t (remainder s) s = (Done (Inr (line @ 10 # extra)), s\<lparr>sock_in := evs\<rparr>)"
    "extra @ stream evs = rest" "only_data evs"
    using readline_loop_data [OF assms(1-3)] by blast
  have "takeWhile (\<lambda>b. b \<noteq> 10) (line @ 10 # extra) = line" using assms(3) by (auto simp: takeWhile_append)
  with e assms(4) show ?thesis
    by (intro exI [of _ evs] exI [of _ extra])
      (auto simp: readline_def py_monad Let_def chomp_def utf8_decode_def split: if_splits)
qed

section \<open>The banner\<close>

lemma read_banner_line_data:
  fixes s :: "('e, 'z, 'y) kexing_scheme"
  assumes "only_data (sock_in (pktz s))" "incoming (pktz s) = line @ 10 # rest" "10 \<notin> set line" "utf8_valid (chomp line)"
  shows "\<exists>p. read_banner_line t s = (Done (Inr (chomp line)), s\<lparr>pktz := p\<rparr>) \<and> incoming p = rest \<and> only_data (sock_in p)"
  using readline_data [of "pktz s" line rest t] assms
  by (auto simp: read_banner_line_def on_pktz_def incoming_def)

text \<open>A line in front of the version string.\<close>

definition preamble_line :: "bytes \<Rightarrow> bool" where
  "preamble_line line \<longleftrightarrow> 10 \<notin> set line \<and> utf8_valid (chomp line) \<and> \<not> startswith (chomp line) (lit ''SSH-'')"

lemma banner_loop_data:
  fixes s :: "('e, 'z, 'y) kexing_scheme"
  assumes "only_data (sock_in (pktz s))" "incoming (pktz s) = concat (map (\<lambda>l. l @ [10]) ls) @ banner @ 10 # rest"
    "list_all preamble_line ls" "length ls \<le> n" "10 \<notin> set banner" "utf8_valid (chomp banner)"
    "startswith (chomp banner) (lit ''SSH-'')"
  shows "\<exists>p. banner_loop n t s = (Done (Inr (chomp banner)), s\<lparr>pktz := p\<rparr>) \<and> incoming p = rest"
  using assms
proof (induction ls arbitrary: n t s)
  case Nil
  then show ?case
    using read_banner_line_data [of s banner rest t]
    by (subst banner_loop.simps) (auto simp: bbind_def bret_def)
next
  case (Cons l ls)
  obtain n' where n': "n = Suc n'" using Cons.prems(4) by (cases n) simp_all
  have l: "10 \<notin> set l" "utf8_valid (chomp l)" "\<not> startswith (chomp l) (lit ''SSH-'')"
    using Cons.prems(3) by (simp_all add: preamble_line_def)
  obtain p where p: "read_banner_line t s = (Done (Inr (chomp l)), s\<lparr>pktz := p\<rparr>)"
    "incoming p = concat (map (\<lambda>l. l @ [10]) ls) @ banner @ 10 # rest" "only_data (sock_in p)"
    using read_banner_line_data [of s l _ t] Cons.prems(1,2) l by auto
  have "\<exists>q. banner_loop n' 2 (s\<lparr>pktz := p\<rparr>) = (Done (Inr (chomp banner)), s\<lparr>pktz := p, pktz := q\<rparr>) \<and> incoming q = rest"
    using Cons.prems p n' by (intro Cons.IH) simp_all
  then show ?case using p(1) l(3) by (subst banner_loop.simps) (auto simp: bbind_def n')
qed

text \<open>C21: the version string is found. When the peer sends at most 99 other lines and then its version
  string, cut into chunks anyhow, \<^verbatim>\<open>_check_banner\<close> records exactly this string without the end of
  the line, takes exactly these lines from the stream (so that the first packet is complete), and
  accepts the string as \<open>accept_banner\<close> says.\<close>

theorem banner_found:
  fixes s :: "('e, 'z, 'y) kexing_scheme"
  assumes "only_data (sock_in (pktz s))" "incoming (pktz s) = concat (map (\<lambda>l. l @ [10]) ls) @ banner @ 10 # rest"
    "list_all preamble_line ls" "length ls \<le> 99" "10 \<notin> set banner" "utf8_valid (chomp banner)"
    "startswith (chomp banner) (lit ''SSH-'')"
  shows "\<exists>p. check_banner t s = (Done (accept_banner (chomp banner)), s\<lparr>pktz := p, remote_version := chomp banner\<rparr>)
     \<and> incoming p = rest"
proof -
  obtain p where "banner_loop 99 t s = (Done (Inr (chomp banner)), s\<lparr>pktz := p\<rparr>)" "incoming p = rest"
    using banner_loop_data [OF assms] by blast
  with assms(7) show ?thesis by (auto simp: check_banner_def bbind_def bmodify_def blift_def)
qed

definition demo_banner :: "(byte, unit) kexing" where
  "demo_banner = (demo_keyed True)\<lparr>pktz := Packetizer_init
     [RData (lit ''hi'' @ [13]), RData ([10] @ lit ''SSH-2.0-x y''), RData [13, 10, 7]] [] 0\<rparr>"

theorem banner_found_witness:
  "\<exists>p. check_banner 15 demo_banner = (Done (Inr ()), demo_banner\<lparr>pktz := p, remote_version := lit ''SSH-2.0-x y''\<rparr>)
     \<and> incoming p = [7]"
proof -
  have e: "accept_banner (lit ''SSH-2.0-x y'') = Inr ()" "chomp (lit ''SSH-2.0-x y'' @ [13]) = lit ''SSH-2.0-x y''"
    "sock_in (pktz demo_banner) = [RData (lit ''hi'' @ [13]), RData ([10] @ lit ''SSH-2.0-x y''), RData [13, 10, 7]]"
    "incoming (pktz demo_banner) = concat (map (\<lambda>l. l @ [10]) [lit ''hi'' @ [13]]) @ (lit ''SSH-2.0-x y'' @ [13]) @ 10 # [7]"
    "list_all preamble_line [lit ''hi'' @ [13]]" "10 \<notin> set (lit ''SSH-2.0-x y'' @ [13])" "utf8_valid (lit ''SSH-2.0-x y'')"
    "startswith (lit ''SSH-2.0-x y'') (lit ''SSH-'')"
    by code_simp+
  then show ?thesis
    using banner_found [of demo_banner "[lit ''hi'' @ [13]]" "lit ''SSH-2.0-x y'' @ [13]" "[7]" 15]
    by (simp add: lit_def)
qed

end
