(* ===== verification/Transport_Strict.thy ===== *)
theory Transport_Strict
  imports Transport_Start
begin

text \<open>
  Strict key exchange: when both ends have agreed on it, nothing but the messages of the key exchange
  is accepted until it is over, in particular nothing before KEXINIT. An attacker who inserts a message
  into the unprotected part of the session to shift the sequence numbers is thus found out.
\<close>

section \<open>The messages of a session\<close>

text \<open>The type of the message that a turn of the loop reads, if it reads one.\<close>

definition delivered :: "('e, 'z) surroundings \<Rightarrow> ('e, 'z) transport \<Rightarrow> byte option" where
  "delivered su s =
     (case bbind (\<lambda>s. if need_rekey (pktz s) \<and> \<not> in_kex s
                then send_kex_init (su_lib su) (su_rnd su) (su_cookie su) s else bret () s)
             (\<lambda>_. on_pktz (read_message (crypto_of (su_lib su)))) s of
        (Done (Inr (ptype, m, seqno)), _) \<Rightarrow> Some ptype
      | _ \<Rightarrow> None)"

text \<open>\<open>turns S s ts s'\<close>: from \<open>s\<close>, turns with surroundings from \<open>S\<close>, none of which ends the loop, lead
  to \<open>s'\<close> and read messages of the types \<open>ts\<close>.\<close>

inductive turns :: "('e, 'z) surroundings set \<Rightarrow> ('e, 'z) transport \<Rightarrow> byte list \<Rightarrow> ('e, 'z) transport \<Rightarrow> bool"
  for S s where
  turns_start: "turns S s [] s"
| turns_turn: "turns S s ts s' \<Longrightarrow> su \<in> S \<Longrightarrow> run_turn su s' = (Done (Inr True), s'') \<Longrightarrow>
    turns S s (ts @ (case delivered su s' of None \<Rightarrow> [] | Some t \<Rightarrow> [t])) s''"

text \<open>A turn either is interrupted by a request to re-key or reads and dispatches one message.\<close>

lemma run_turn_cases:
  assumes "run_turn su s = (Done (Inr True), s')"
  obtains (quiet) s1 where "bkeeps P (send_kex_init (su_lib su) (su_rnd su) (su_cookie su)) \<Longrightarrow> P s \<Longrightarrow> P s1"
      "on_pktz (read_message (crypto_of (su_lib su))) s1 = (Done (Inl NeedRekeyException), s')" "delivered su s = None"
  | (message) s1 s2 s3 t m n e where "bkeeps P (send_kex_init (su_lib su) (su_rnd su) (su_cookie su)) \<Longrightarrow> P s \<Longrightarrow> P s1"
      "on_pktz (read_message (crypto_of (su_lib su))) s1 = (Done (Inr (t, m, n)), s2)" "delivered su s = Some t"
      "dispatch su t (Message_init (Some m)) n s2 = (Done (Inr e), s3)" "e \<noteq> LBreak"
      "s' = s3 \<or> s' = s3\<lparr>pktz := complete_handshake (pktz s3)\<rparr>"
proof -
  from assms [unfolded run_turn_def] obtain u s1 where f:
    "(if need_rekey (pktz s) \<and> \<not> in_kex s then send_kex_init (su_lib su) (su_rnd su) (su_cookie su) s else bret () s)
       = (Done (Inr u), s1)"
    and q: "(case on_pktz (read_message (crypto_of (su_lib su))) s1 of
       (Waiting, s) \<Rightarrow> (Waiting, s)
     | (Done (Inl e), s) \<Rightarrow> (if e = NeedRekeyException then bret True s else braise e s)
     | (Done (Inr (ptype, m, seqno)), s) \<Rightarrow> bbind (dispatch su ptype (Message_init (Some m)) seqno) end_turn s) = (Done (Inr True), s')"
    by (rule bbind_eq_InrE)
  have p: "P s1" if "bkeeps P (send_kex_init (su_lib su) (su_rnd su) (su_cookie su))" "P s"
    using bkeepsD [OF that] f that(2) by (auto simp: bret_def split: if_splits)
  have d: "delivered su s = (case on_pktz (read_message (crypto_of (su_lib su))) s1 of
        (Done (Inr (ptype, m, seqno)), _) \<Rightarrow> Some ptype | _ \<Rightarrow> None)"
    unfolding delivered_def by (simp add: bbind_def f)
  show ?thesis
  proof (cases "on_pktz (read_message (crypto_of (su_lib su))) s1")
    case (Pair r s2)
    with q obtain y where r: "r = Done y" by (cases r) auto
    show ?thesis
    proof (cases y)
      case (Inl e)
      with q Pair r have "e = NeedRekeyException" "s' = s2" by (auto simp: bret_def braise_def split: if_splits)
      with quiet [OF p] Pair r Inl d show ?thesis by simp
    next
      case (Inr x)
      obtain t m n where x: "x = (t, m, n)" by (cases x)
      with q Pair r Inr have "bbind (dispatch su t (Message_init (Some m)) n) end_turn s2 = (Done (Inr True), s')" by simp
      then obtain e s3 where e: "dispatch su t (Message_init (Some m)) n s2 = (Done (Inr e), s3)"
        "end_turn e s3 = (Done (Inr True), s')" by (rule bbind_eq_InrE)
      then have "e \<noteq> LBreak" "s' = s3 \<or> s' = s3\<lparr>pktz := complete_handshake (pktz s3)\<rparr>"
        by (cases e; auto simp: end_turn_def py_monad)+
      with message [OF p _ _ e(1)] Pair r Inr x d show ?thesis by simp
    qed
  qed
qed

section \<open>What the turns do to the order of messages\<close>

text \<open>What decides which message may come next.\<close>

definition outlook :: "('e, 'z, 'y) kexing_scheme \<Rightarrow> byte list \<times> bool \<times> bool \<times> int \<times> bool" where
  "outlook s = (expected_packet s, agreed_on_strict_kex s, initial_kex_done s,
     sequence_number_in (pktz s), pk_initial_kex_done (pktz s))"

lemma send_outlook:
  fixes l :: "('e, 'z) lib"
  shows "bkeeps (\<lambda>s. outlook s = v) (t_send_message l rnd m)"
proof (rule bkeeps_stateI)
  fix s :: "('e, 'z, 'y) kexing_scheme" assume "outlook s = v"
  obtain r p where "send_message (crypto_of l) rnd m (pktz s) = (r, p)" by force
  moreover from send_message_seqno [OF this, of "sequence_number_in (pktz s)" "pk_initial_kex_done (pktz s)"]
  have "sequence_number_in p = sequence_number_in (pktz s)" "pk_initial_kex_done p = pk_initial_kex_done (pktz s)"
    by (simp_all add: seqno_is_def)
  ultimately show "outlook (snd (t_send_message l rnd m s)) = v"
    using \<open>outlook s = v\<close> by (simp add: t_send_message_def on_pktz_def outlook_def)
qed

lemma send_kex_init_outlook: "bkeeps (\<lambda>s. outlook s = v) (send_kex_init l rnd k)"
proof -
  have d: "keeps (\<lambda>s. outlook s = v) (drop_group_exchange a) (\<lambda>_. True)" for a
    by (auto simp: keeps_def drop_group_exchange_def set_kex_def security_set_def praise_def pmodify_def pret_def outlook_def)
  have c: "keeps (\<lambda>s. outlook s = v) (if b then pbind (drop_group_exchange a) (\<lambda>_. pget f) else pget g) (\<lambda>_. True)" for a b f g
    by (simp add: keeps_pbind' keeps_pget d)
  have "keeps (\<lambda>s. outlook s = v) (make_kex_init k) (\<lambda>_. True)"
    unfolding make_kex_init_def Let_def
    by (intro keeps_pbind' keeps_pget keeps_plift' keeps_pret keeps_pmodify TrueI c) (simp_all add: outlook_def)
  then show ?thesis unfolding send_kex_init_def by (intro bkeeps_bbind bkeeps_nb send_outlook)
qed

lemma read_outlook:
  assumes "on_pktz (read_message c) s = (Done (Inr (t, m, n)), s')"
  shows "n = sequence_number_in (pktz s)" "next_seqno n \<noteq> 0 \<or> pk_initial_kex_done (pktz s)"
    "outlook s' = (expected_packet s, agreed_on_strict_kex s, initial_kex_done s, next_seqno n, pk_initial_kex_done (pktz s))"
  using assms by (auto simp: on_pktz_def outlook_def dest: read_message_seqno split: prod.splits)

lemma read_interrupted:
  assumes "read_message c s = (Done (Inl NeedRekeyException), s')" "seqno_is n b s"
  shows "seqno_is n b s'"
proof -
  have "read_packet c s = (Done (Inl NeedRekeyException), s')"
    using assms(1) unfolding read_message_def Let_def
    by (auto simp: py_monad decompress_in_def advance_seqno_in_def count_received_def Let_def
        split: prod.splits blocking.splits sum.splits if_splits option.splits)
  then show ?thesis using assms(2) by (rule seqno.read_packet_kept)
qed

lemma interrupted_outlook:
  assumes "on_pktz (read_message c) s = (Done (Inl NeedRekeyException), s')"
  shows "outlook s' = outlook s"
proof -
  obtain p where p: "read_message c (pktz s) = (Done (Inl NeedRekeyException), p)" "s' = s\<lparr>pktz := p\<rparr>"
    using assms by (auto simp: on_pktz_def split: prod.splits)
  show ?thesis
    using read_interrupted [OF p(1), of "sequence_number_in (pktz s)" "pk_initial_kex_done (pktz s)"]
    by (simp add: p(2) seqno_is_def outlook_def)
qed

subsection \<open>The engines\<close>

definition kex_types :: "byte set" where
  "kex_types = {t. 30 \<le> t \<and> t \<le> 41}"

text \<open>An operation that, when it succeeds, expects some message from \<open>T\<close> and no other.\<close>

definition settled :: "byte set \<Rightarrow> ('e, 'z, 'y) kexing_scheme \<Rightarrow> bool" where
  "settled T s \<longleftrightarrow> expected_packet s \<noteq> [] \<and> set (expected_packet s) \<subseteq> T"

definition settles :: "byte set \<Rightarrow> (('e, 'z, 'y) kexing_scheme, 'a) bpy \<Rightarrow> bool" where
  "settles T m \<longleftrightarrow> (\<forall>s x s'. m s = (Done (Inr x), s') \<longrightarrow> settled T s')"

lemma settlesI: "(\<And>s x s'. m s = (Done (Inr x), s') \<Longrightarrow> settled T s') \<Longrightarrow> settles T m"
  unfolding settles_def by blast

lemma settlesD: "settles T m \<Longrightarrow> m s = (Done (Inr x), s') \<Longrightarrow> settled T s'"
  unfolding settles_def by blast

lemma settles_bbind: "(\<And>x. settles T (f x)) \<Longrightarrow> settles T (bbind m f)"
  unfolding settles_def by (blast elim: bbind_eq_InrE)

lemma settles_expect: "l \<noteq> [] \<Longrightarrow> set l \<subseteq> T \<Longrightarrow> settles T (bmodify (expect_packet l))"
  by (auto simp: settles_def settled_def bmodify_def expect_packet_def)

lemma settles_braise: "settles T (braise e)"
  by (simp add: settles_def braise_def)

lemma settles_if: "settles T m \<Longrightarrow> settles T n \<Longrightarrow> settles T (\<lambda>s. if b s then m s else n s)"
  by (auto simp: settles_def)

lemma settles_option:
  "settles T m \<Longrightarrow> (\<And>x. settles T (n x)) \<Longrightarrow> settles T (\<lambda>s. case b s of None \<Rightarrow> m s | Some x \<Rightarrow> n x s)"
  by (auto simp: settles_def split: option.splits)

lemma settles_mono: "settles T m \<Longrightarrow> T \<subseteq> U \<Longrightarrow> settles U m"
  unfolding settles_def settled_def by blast

lemma dh_start_settles: "settles kex_types (dh_start_kex l G rnd draws)"
proof (rule settlesI)
  fix s x s'
  assume "dh_start_kex l G rnd draws s = (Done (Inr x), s')"
  then obtain o1 s1 where o1: "dh_offer G draws s = (Done (Inr o1), s1)" and q:
    "(case o1 of None \<Rightarrow> bret () | Some m \<Rightarrow> bbind (t_send_message l rnd m) (\<lambda>_. bmodify (expect_packet [MSG_KEXDH_REPLY]))) s1
       = (Done (Inr x), s')"
    unfolding dh_start_kex_def by (rule bbind_eq_InrE)
  show "settled kex_types s'"
  proof (cases o1)
    case None
    with o1 q show ?thesis
      by (auto simp: dh_offer_def py_monad expect_packet_def Let_def settled_def kex_types_def msg_codes
          split: option.splits sum.splits if_splits)
  next
    case (Some m)
    have "settles kex_types (bbind (t_send_message l rnd m) (\<lambda>_. bmodify (expect_packet [MSG_KEXDH_REPLY])))"
      by (intro settles_bbind settles_expect) (simp_all add: kex_types_def msg_codes)
    from settlesD [OF this] show ?thesis using q Some by simp
  qed
qed

lemma activate_outbound_settles: "settles {MSG_NEWKEYS} (activate_outbound l rnd)"
  unfolding activate_outbound_def by (intro settles_bbind settles_expect) simp_all

lemma dh_next_settles: "settles {MSG_NEWKEYS} (dh_parse_next l G rnd t m)"
proof -
  have "settles {MSG_NEWKEYS} (dh_parse_init l G rnd m)"
    unfolding dh_parse_init_def by (intro settles_bbind activate_outbound_settles)
  moreover have "settles {MSG_NEWKEYS} (dh_parse_reply l G rnd m)"
    unfolding dh_parse_reply_def by (auto intro!: settles_bbind activate_outbound_settles split: prod.splits)
  ultimately show ?thesis unfolding dh_parse_next_def by (intro settles_if settles_braise)
qed

text \<open>What is relied on of the engines that are not modelled: they, too, say which message of theirs comes
  next, and do not touch the agreement on strict key exchange.\<close>

definition engines_in_order :: "('e, 'z) parts \<Rightarrow> bool" where
  "engines_in_order p \<longleftrightarrow>
     (\<forall>k. settles kex_types (other_start p k)
        \<and> (\<forall>s. agreed_on_strict_kex (snd (other_start p k s)) = agreed_on_strict_kex s))
   \<and> (\<forall>k t m. settles (insert MSG_NEWKEYS kex_types) (other_next p k t m)
        \<and> (\<forall>s. agreed_on_strict_kex (snd (other_next p k t m s)) = agreed_on_strict_kex s))"

definition agreement :: "('e, 'z, 'y) kexing_scheme \<Rightarrow> bool \<times> bool" where
  "agreement s = (agreed_on_strict_kex s, initial_kex_done s)"

lemma agreement_secret: "secret_closed (\<lambda>s. agreement s = v)"
  by (auto simp: secret_closed_def framed_def agreement_def outer_def set_K_H_def Let_def)

lemmas agreement_framed = secret_closed_framed [OF agreement_secret]

lemma engines_agreement:
  assumes "parts_ok (su_parts su)" "engines_in_order (su_parts su)"
  shows "bkeeps (\<lambda>s. agreement s = v) (start_kex su)" "bkeeps (\<lambda>s. agreement s = v) (kex_parse_next su t m)"
proof -
  have "agreement (snd (other_start (su_parts su) k s)) = agreement s" for k s
    using assms outer_transport(8) [of "snd (other_start (su_parts su) k s)" s]
    by (simp add: parts_ok_def engines_in_order_def agreement_def)
  then show "bkeeps (\<lambda>s. agreement s = v) (start_kex su)"
    by (intro start_kex_frame agreement_framed) (simp add: bkeeps_def)
  have "agreement (snd (other_next (su_parts su) k t m s)) = agreement s" for k t m s
    using assms outer_transport(8) [of "snd (other_next (su_parts su) k t m s)" s]
    by (simp add: parts_ok_def engines_in_order_def agreement_def)
  then show "bkeeps (\<lambda>s. agreement s = v) (kex_parse_next su t m)"
    by (intro kex_parse_next_frame agreement_secret) (simp add: bkeeps_def)
qed

lemma engines_settle:
  assumes "engines_in_order (su_parts su)"
  shows "settles kex_types (start_kex su)" "settles (insert MSG_NEWKEYS kex_types) (kex_parse_next su t m)"
  unfolding start_kex_def kex_parse_next_def
  by (intro settles_option settles_braise dh_start_settles settles_mono [OF dh_next_settles];
      use assms in \<open>auto simp: engines_in_order_def\<close>)+

subsection \<open>Dispatch\<close>

text \<open>A KEXINIT is accepted; if this brings the agreement on strict key exchange, then it was the first
  message.\<close>

lemma parse_kex_init_order:
  assumes "parse_kex_init m n s = (Inr x, s')" "agreed_on_strict_kex s'" "\<not> initial_kex_done s'"
  shows "n = 0"
proof -
  from assms(1) [unfolded parse_kex_init_def] obtain p s1 where q:
    "(case p of (parsed, m') \<Rightarrow> pbind (choose_algorithms parsed n) (\<lambda>_. pbind (on_message get_so_far m') (\<lambda>(so_far, _).
       pmodify (\<lambda>s. s\<lparr>remote_kex_init := Some (MSG_KEXINIT # so_far)\<rparr>)))) s1 = (Inr x, s')"
    by (rule pbind_eq_InrE)
  obtain parsed m' where "p = (parsed, m')" by (cases p)
  with q obtain y s2 where c: "choose_algorithms parsed n s1 = (Inr y, s2)" and e:
    "pbind (on_message get_so_far m') (\<lambda>(so_far, _). pmodify (\<lambda>s. s\<lparr>remote_kex_init := Some (MSG_KEXINIT # so_far)\<rparr>)) s2
       = (Inr x, s')"
    by (auto elim: pbind_eq_InrE)
  have "agreement s' = agreement s2"
    using e by (auto simp: pbind_def on_message_def pmodify_def agreement_def split: prod.splits sum.splits)
  define rest where "rest = pbind (agree_on_kex (filter (\<lambda>x. \<not> is_marker x) (kex_algo_list parsed)))
     (\<lambda>_. pbind (agree_on_host_key (server_key_algo_list parsed)) (\<lambda>_.
     pbind (agree_on_pair ''Incompatible ssh server (no acceptable ciphers)'' preferred_ciphers
              (client_encrypt_algo_list parsed) (server_encrypt_algo_list parsed)
              (\<lambda>a b s. s\<lparr>local_cipher := a, remote_cipher := b\<rparr>)) (\<lambda>_.
     pbind (agree_on_pair ''Incompatible ssh server (no acceptable macs)'' preferred_macs
              (client_mac_algo_list parsed) (server_mac_algo_list parsed)
              (\<lambda>a b s. s\<lparr>local_mac := Some a, remote_mac := Some b\<rparr>)) (\<lambda>_.
     agree_on_pair ''Incompatible ssh server (no acceptable compression)'' preferred_compression
              (client_compress_algo_list parsed) (server_compress_algo_list parsed)
              (\<lambda>a b s. (s :: ('a, 'b, 'c) kexing_scheme)\<lparr>local_compression := Some a, remote_compression := Some b\<rparr>)))))"
  obtain z s3 s4 where o4: "check_kex_order n s3 = (Inr z, s4)" and r: "rest s4 = (Inr y, s2)"
    using c unfolding choose_algorithms_def Let_def rest_def by (blast elim: pbind_eq_InrE)
  have "keeps (\<lambda>s. agreement s = agreement s4) rest (\<lambda>_. True)"
    unfolding rest_def
    by (intro keeps_pbind' agree_frames agree_pair_frame agreement_framed) (simp_all add: outer_def)
  with r have "agreement s2 = agreement s4" using keepsD [of "\<lambda>s. agreement s = agreement s4" rest _ s4] by simp
  with \<open>agreement s' = agreement s2\<close> o4 assms(2,3) show ?thesis
    by (auto simp: check_kex_order_def agreement_def split: if_splits)
qed

lemma negotiate_order:
  assumes "parts_ok (su_parts su)" "engines_in_order (su_parts su)" "negotiate_keys su m n s = (Done (Inr x), s')"
  shows "settled kex_types s'" "agreed_on_strict_kex s' \<Longrightarrow> \<not> initial_kex_done s' \<Longrightarrow> n = 0"
proof -
  obtain y s1 s2 where p: "nb (parse_kex_init m n) s1 = (Done (Inr y), s2)" and k: "start_kex su s2 = (Done (Inr x), s')"
    using assms(3) unfolding negotiate_keys_def by (blast elim: bbind_eq_InrE)
  show "settled kex_types s'" by (rule settlesD [OF engines_settle(1) [OF assms(2)] k])
  have "agreement s' = agreement s2"
    using bkeepsD [OF engines_agreement(1) [OF assms(1,2)], of s2 "agreement s2"] k by simp
  then show "n = 0" if "agreed_on_strict_kex s'" "\<not> initial_kex_done s'"
    using parse_kex_init_order [of m n s1 y s2] p that by (auto simp: nb_def agreement_def split: prod.splits)
qed

text \<open>While some message is expected, everything else is refused, except for messages that are ignored;
  under strict key exchange these are refused, too.\<close>

lemma dispatch_expecting:
  assumes "dispatch su t m n s = (Done (Inr e), s')" "e \<noteq> LBreak" "expected_packet s \<noteq> []"
  obtains (ignored) "t \<in> {MSG_IGNORE, MSG_DEBUG}" "s' = s" "\<not> (agreed_on_strict_kex s \<and> \<not> initial_kex_done s)"
  | (kex) "t \<in> set (expected_packet s)" "t \<in> kex_types" "kex_parse_next su t m (s\<lparr>expected_packet := []\<rparr>) = (Done (Inr ()), s')"
  | (other) "t \<in> set (expected_packet s)" "t \<notin> kex_types"
      "dispatch_rest su t m n (s\<lparr>expected_packet := []\<rparr>) = (Done (Inr e), s')"
proof -
  consider "t = MSG_IGNORE \<or> t = MSG_DEBUG" | "t \<noteq> MSG_IGNORE" "t \<noteq> MSG_DEBUG" "t \<noteq> MSG_DISCONNECT"
    | "t = MSG_DISCONNECT" by blast
  then show ?thesis
  proof cases
    case 1
    with assms(1) have "s' = s \<and> \<not> (agreed_on_strict_kex s \<and> \<not> initial_kex_done s)"
      by (auto simp: dispatch_def msg_codes enforce_strict_kex_def parse_debug_def bret_def braise_def
          elim!: bbind_eq_InrE dest!: nb_message_done split: if_splits prod.splits)
    with 1 show ?thesis using ignored by blast
  next
    case 2
    with assms show ?thesis using kex other
      by (cases "t \<in> kex_types") (auto simp: dispatch_def braise_def bret_def kex_types_def Let_def elim!: bbind_eq_InrE split: if_splits)
  next
    case 3
    with assms show ?thesis by (auto simp: dispatch_def msg_codes bret_def elim!: bbind_eq_InrE)
  qed
qed

subsection \<open>The beginning\<close>

text \<open>The packetizer's loops that read and write lines do not count packets.\<close>

lemma read_timeout_loop_seqno: "seqno_is n b s \<Longrightarrow> seqno_is n b (snd (read_timeout_loop i t evs s))"
  by (induction i t evs s rule: read_timeout_loop.induct)
    (auto simp: seqno_is_def close_packetizer_def read_timer_def trigger_rekey_def split: recv_event.splits)

lemma readline_loop_seqno: "seqno_is n b s \<Longrightarrow> seqno_is n b (snd (readline_loop t buf s))"
proof (induction t buf s rule: readline_loop.induct)
  case (1 t buf s)
  then show ?case
    using read_timeout_loop_seqno [OF 1(2), of "clock s" t "sock_in s"]
    by (subst readline_loop.simps) (auto simp: read_timeout_def split: prod.splits blocking.splits sum.splits)
qed

lemma readline_seqno: "bkeeps (seqno_is n b) (readline t)"
proof -
  have "bkeeps (seqno_is n b) (readline_loop t r)" for r by (simp add: bkeeps_def readline_loop_seqno)
  then show ?thesis
    unfolding readline_def Let_def by (intro bkeeps_bbind bkeeps_bget bkeeps_bmodify bkeeps_blift) (simp_all add: seqno_is_def)
qed

text \<open>What an operation of the packetizer keeps of the numbers, it keeps of the outlook.\<close>

lemma on_pktz_outlook:
  fixes m :: "(('e, 'z, hash_class) packetizer, 'a) bpy"
  assumes "\<And>n b. bkeeps (seqno_is n b) m"
  shows "bkeeps (\<lambda>s. outlook s = v) (on_pktz m)"
proof (rule bkeeps_stateI)
  fix s :: "('e, 'z, 'y) kexing_scheme" assume "outlook s = v"
  then show "outlook (snd (on_pktz m s)) = v"
    using bkeepsD [OF assms, of "sequence_number_in (pktz s)" "pk_initial_kex_done (pktz s)" "pktz s"]
    by (auto simp: on_pktz_def outlook_def seqno_is_def split: prod.splits)
qed

lemma read_banner_outlook: "bkeeps (\<lambda>s. outlook s = v) (read_banner_line t)"
proof (rule bkeeps_stateI, goal_cases)
  case (1 s)
  then have "outlook (snd (on_pktz (readline t) s)) = v" by (rule bkeepsD [OF on_pktz_outlook [OF readline_seqno]])
  then show ?case
    by (auto simp: read_banner_line_def braise_def split: prod.splits blocking.splits sum.splits)
qed

lemma check_banner_outlook: "bkeeps (\<lambda>s. outlook s = v) (check_banner t)"
proof -
  have "bkeeps (\<lambda>s. outlook s = v) (banner_loop n t)" for n
    by (induction n arbitrary: t) (subst banner_loop.simps, auto intro!: bkeeps_bbind read_banner_outlook bkeeps_bret)+
  then show ?thesis
    unfolding check_banner_def
    by (auto intro!: bkeeps_bbind bkeeps_braise bkeeps_blift bkeeps_bmodify simp: outlook_def)
qed

lemma run_start_outlook:
  fixes su :: "('e, 'z) surroundings"
  assumes "run_start su t s = (Done (Inr x), s')" "outlook s = (e, a, d, n, b)"
  shows "outlook s' = ([MSG_KEXINIT], a, d, n, b)"
proof -
  define m :: "(('e, 'z) transport, unit) bpy" where "m = bbind (\<lambda>s. on_pktz (write_all (local_version s @ [13, 10])) s) (\<lambda>_.
     bbind (check_banner t) (\<lambda>_. bbind (bmodify (\<lambda>s. s\<lparr>pktz := start_handshake (pktz s)\<rparr>)) (\<lambda>_.
     send_kex_init (su_lib su) (su_rnd su) (su_cookie su))))"
  have "seqno_is n b (snd (write_all out p))" if "seqno_is n b p" for n b out and p :: "('e, 'z, hash_class) packetizer"
    unfolding write_all_def by (rule write_loop_seqno) (use that in \<open>simp add: seqno_is_def\<close>)
  then have "bkeeps (\<lambda>s :: ('e, 'z) transport. outlook s = v) (on_pktz (write_all out))" for v out
    by (intro on_pktz_outlook) (simp add: bkeeps_def)
  then have w: "bkeeps (\<lambda>s :: ('e, 'z) transport. outlook s = v) (\<lambda>s. on_pktz (write_all (f s)) s)" for v f
    by (intro bkeeps_stateI) (rule bkeepsD)
  have "bkeeps (\<lambda>s. outlook s = (e, a, d, n, b)) m"
    unfolding m_def
    by (intro bkeeps_bbind w check_banner_outlook send_kex_init_outlook bkeeps_bmodify)
      (simp_all add: outlook_def start_handshake_def)
  moreover obtain y s1 where "m s = (Done (Inr y), s1)" "bmodify (expect_packet [MSG_KEXINIT]) s1 = (Done (Inr x), s')"
  proof -
    have "run_start su t = bbind m (\<lambda>_. bmodify (expect_packet [MSG_KEXINIT]))"
      by (simp add: run_start_def m_def bbind_bbind)
    then show ?thesis using assms(1) that by (metis bbind_eq_InrE)
  qed
  ultimately show ?thesis
    using assms(2) bkeepsD [of "\<lambda>s. outlook s = (e, a, d, n, b)" m s]
    by (auto simp: bmodify_def expect_packet_def outlook_def)
qed

section \<open>The order of messages\<close>

text \<open>The first key exchange is over; or KEXINIT is still awaited, and the messages so far are counted;
  or the key exchange is under way, and if it is a strict one, KEXINIT came first and everything since
  belonged to it.\<close>

definition in_order :: "byte list \<Rightarrow> ('e, 'z) transport \<Rightarrow> bool" where
  "in_order ts s \<longleftrightarrow> initial_kex_done s
     \<or> outlook s = ([MSG_KEXINIT], False, False, int (length ts), False) \<and> length ts < 2 ^ 32
     \<or> settled (insert MSG_NEWKEYS kex_types) s
         \<and> (agreed_on_strict_kex s \<longrightarrow> (\<exists>ks. ts = MSG_KEXINIT # ks \<and> set ks \<subseteq> kex_types))"

lemma first_kexinit:
  assumes "parts_ok (su_parts su)" "engines_in_order (su_parts su)"
    "dispatch_rest su MSG_KEXINIT m n s = (Done (Inr e), s')"
  shows "settled kex_types s'" "agreed_on_strict_kex s' \<Longrightarrow> \<not> initial_kex_done s' \<Longrightarrow> n = 0"
proof -
  have "negotiate_keys su m n s = (Done (Inr ()), s')"
    using assms(3)
    by (auto simp: dispatch_rest_def handler_table_def msg_codes ensure_authed_def HIGHEST_USERAUTH_MESSAGE_ID_def
        handle_message_def blift_def bret_def elim!: bbind_eq_InrE)
  from negotiate_order [OF assms(1,2) this] show "settled kex_types s'"
    "agreed_on_strict_kex s' \<Longrightarrow> \<not> initial_kex_done s' \<Longrightarrow> n = 0" by blast+
qed

lemma newkeys_done:
  assumes "dispatch_rest su MSG_NEWKEYS m n s = (Done (Inr e), s')"
  shows "initial_kex_done s'"
proof -
  have "parse_newkeys su s = (Done (Inr ()), s')"
    using assms
    by (auto simp: dispatch_rest_def handler_table_def msg_codes ensure_authed_def HIGHEST_USERAUTH_MESSAGE_ID_def
        handle_message_def blift_def bret_def elim!: bbind_eq_InrE)
  then show ?thesis
    unfolding parse_newkeys_def
    by (auto elim!: bbind_eq_InrE simp: bmodify_def Let_def set_completion_def split: if_splits)
qed

text \<open>The first key exchange stays over.\<close>

interpretation done_auth: auth_invariant "\<lambda>s. initial_kex_done s" su for su
  by unfold_locales (simp_all add: framed_def outer_def on_auth_def t_close_fields)

lemma initial_kex_stays:
  assumes "parts_ok (su_parts su)" "run_turn su s = (x, s')" "initial_kex_done s"
  shows "initial_kex_done s'"
proof -
  have "steady (\<lambda>s. initial_kex_done s)" by (simp add: steady_def set_K_H_def Let_def)
  moreover have "parts_keep (\<lambda>s. initial_kex_done s) su"
    by (rule parts_ok_keep [OF assms(1)]) (simp add: outer_def, rule done_auth.auth_next_kept)
  ultimately have "bkeeps (\<lambda>s. initial_kex_done s) (run_turn su)" by (intro run_turn_steady)
  from bkeepsD [OF this assms(3)] assms(2) show ?thesis by simp
qed

lemma settled_outlook: "outlook s' = outlook s \<Longrightarrow> settled T s' = settled T s"
  by (simp add: outlook_def settled_def)

lemma in_order_outlook: "outlook s' = outlook s \<Longrightarrow> in_order ts s' = in_order ts s"
  using settled_outlook [of s' s "insert MSG_NEWKEYS kex_types"] unfolding in_order_def
  by (simp only: outlook_def prod.inject)

text \<open>While the key exchange is under way.\<close>

lemma exchange_step:
  assumes "parts_ok (su_parts su)" "engines_in_order (su_parts su)" and
    d: "dispatch su t m n s = (Done (Inr e), s')" "e \<noteq> LBreak" and
    s: "settled (insert MSG_NEWKEYS kex_types) s"
  shows "initial_kex_done s'
    \<or> settled (insert MSG_NEWKEYS kex_types) s' \<and> (agreed_on_strict_kex s' \<longrightarrow> agreed_on_strict_kex s \<and> (t \<in> kex_types \<or> initial_kex_done s))"
proof -
  have ne: "expected_packet s \<noteq> []" using s by (simp add: settled_def)
  from d ne show ?thesis
  proof (cases rule: dispatch_expecting)
    case ignored
    with s show ?thesis by auto
  next
    case kex
    have "agreement s' = agreement (s\<lparr>expected_packet := []\<rparr>)"
      using bkeepsD [OF engines_agreement(2) [OF assms(1,2)], of "s\<lparr>expected_packet := []\<rparr>"] kex(3) by (metis snd_conv)
    then show ?thesis
      using settlesD [OF engines_settle(2) [OF assms(2)] kex(3)] kex(2) by (simp add: agreement_def)
  next
    case other
    then have "t = MSG_NEWKEYS" using s by (auto simp: settled_def)
    with other(3) newkeys_done show ?thesis by blast
  qed
qed

text \<open>While KEXINIT is awaited.\<close>

lemma awaiting_step:
  assumes "parts_ok (su_parts su)" "engines_in_order (su_parts su)" and
    d: "dispatch su t m (int k) s = (Done (Inr e), s')" "e \<noteq> LBreak" and
    s: "outlook s = ([MSG_KEXINIT], False, False, n, False)"
  shows "s' = s \<or> t = MSG_KEXINIT \<and> settled kex_types s' \<and> (agreed_on_strict_kex s' \<longrightarrow> initial_kex_done s' \<or> k = 0)"
proof -
  have e: "expected_packet s = [MSG_KEXINIT]" using s by (simp add: outlook_def)
  then have "expected_packet s \<noteq> []" by simp
  with d show ?thesis
  proof (cases rule: dispatch_expecting)
    case kex
    then show ?thesis using e by (simp add: kex_types_def msg_codes)
  next
    case other
    then have "t = MSG_KEXINIT" using e by simp
    with other(3) first_kexinit [OF assms(1,2), of m "int k" _ e s'] show ?thesis by auto
  qed blast
qed

lemma complete_outlook: "outlook (s\<lparr>pktz := complete_handshake (pktz s)\<rparr>) = outlook s"
  by (simp add: outlook_def complete_handshake_def)

lemma turn_in_order:
  assumes "parts_ok (su_parts su)" "engines_in_order (su_parts su)" "run_turn su s = (Done (Inr True), s')" "in_order ts s"
  shows "in_order (ts @ (case delivered su s of None \<Rightarrow> [] | Some t \<Rightarrow> [t])) s'"
proof (cases "initial_kex_done s")
  case True
  with initial_kex_stays [OF assms(1,3)] show ?thesis by (simp add: in_order_def)
next
  case False
  from assms(3) show ?thesis
  proof (cases rule: run_turn_cases [where P = "\<lambda>s'. outlook s' = outlook s"])
    case (quiet s1)
    have "outlook s' = outlook s"
      using quiet(1) [OF send_kex_init_outlook refl] interrupted_outlook [OF quiet(2)] by simp
    then show ?thesis using assms(4) in_order_outlook [of s' s] quiet(3) by simp
  next
    case (message s1 s2 s3 t m n e)
    have o1: "outlook s1 = outlook s" by (rule message(1) [OF send_kex_init_outlook refl])
    note r = read_outlook [OF message(2)]
    have s': "outlook s' = outlook s3" using message(6) complete_outlook by metis
    have "in_order (ts @ [t]) s3"
    proof (cases "settled (insert MSG_NEWKEYS kex_types) s")
      case True
      then have s2: "settled (insert MSG_NEWKEYS kex_types) s2"
        "agreed_on_strict_kex s2 = agreed_on_strict_kex s" "\<not> initial_kex_done s2"
        using r(3) o1 False by (auto simp: settled_def outlook_def)
      have "agreed_on_strict_kex s \<Longrightarrow> \<exists>ks. ts = MSG_KEXINIT # ks \<and> set ks \<subseteq> kex_types"
        using assms(4) False True by (auto simp: in_order_def outlook_def)
      with exchange_step [OF assms(1,2) message(4,5) s2(1)] s2 show ?thesis by (auto simp: in_order_def)
    next
      case unsettled: False
      then have a: "outlook s = ([MSG_KEXINIT], False, False, int (length ts), False)" "length ts < 2 ^ 32"
        using assms(4) False by (auto simp: in_order_def)
      then have n: "n = int (length ts)" "next_seqno n \<noteq> 0" using r(1,2) o1 by (auto simp: outlook_def)
      have "n + 1 \<noteq> 2 ^ 32" using n(2) by (auto simp: next_seqno_mod)
      then have b: "length (ts @ [t]) < 2 ^ 32" using a(2) n(1) by simp
      then have k: "next_seqno n = int (length (ts @ [t]))" using n(1) by (simp add: next_seqno_mod)
      have s2: "outlook s2 = ([MSG_KEXINIT], False, False, int (length (ts @ [t])), False)"
        using r(3) a(1) o1 k by (auto simp: outlook_def)
      from awaiting_step [OF assms(1,2) message(4) [unfolded n(1)] message(5) s2]
      show ?thesis using s2 b by (auto simp: in_order_def settled_def)
    qed
    then show ?thesis using message(3) in_order_outlook [OF s'] by simp
  qed
qed

lemma turns_in_order:
  assumes "turns S s ts s'" "\<And>su. su \<in> S \<Longrightarrow> parts_ok (su_parts su) \<and> engines_in_order (su_parts su)" "in_order [] s"
  shows "in_order ts s'"
  using assms(1)
proof (induction rule: turns.induct)
  case (turns_turn ts s' su s'')
  then show ?case using assms(2) by (intro turn_in_order) simp_all
qed (rule assms(3))

text \<open>What can still come once the exchange is under way.\<close>

lemma turn_expected:
  assumes "run_turn su s = (Done (Inr True), s')" "settled T s" "agreed_on_strict_kex s" "\<not> initial_kex_done s"
    "delivered su s = Some t"
  shows "t \<in> T"
  using assms(1)
proof (cases rule: run_turn_cases [where P = "\<lambda>s'. outlook s' = outlook s"])
  case (quiet s1)
  then show ?thesis using assms(5) by simp
next
  case (message s1 s2 s3 t' m n e)
  have "outlook s1 = outlook s" by (rule message(1) [OF send_kex_init_outlook refl])
  with read_outlook(3) [OF message(2)] assms(2-4) have s2: "settled T s2" "agreed_on_strict_kex s2" "\<not> initial_kex_done s2"
    by (auto simp: outlook_def settled_def)
  then have ne: "expected_packet s2 \<noteq> []" by (simp add: settled_def)
  from message(4,5) ne have "t' \<in> set (expected_packet s2)"
    by (cases rule: dispatch_expecting) (use s2 in auto)
  with s2(1) message(3) assms(5) show ?thesis by (auto simp: settled_def)
qed

text \<open>C4: strict key exchange. Start \<^verbatim>\<open>run\<close> on a new transport and let it go on for any number of turns, with
  any input from the network. If then both ends have agreed on strict key exchange and the first key
  exchange is not over, the first message ever received was KEXINIT and every other one belonged to
  the key exchange; and if the loop goes on after the next message, that message, too, belongs to the
  key exchange or ends it. Nothing can be inserted before the first NEWKEYS message, not even a message
  that is otherwise ignored.\<close>

theorem strict_kex:
  assumes "run_start su0 timeout s0 = (Done (Inr ()), s)"
    "\<not> agreed_on_strict_kex s0" "\<not> initial_kex_done s0" "\<not> pk_initial_kex_done (pktz s0)" "sequence_number_in (pktz s0) = 0"
    "turns S s ts s'" "\<forall>su \<in> S. parts_ok (su_parts su) \<and> engines_in_order (su_parts su)"
    "agreed_on_strict_kex s'" "\<not> initial_kex_done s'"
  shows "(\<exists>ks. ts = MSG_KEXINIT # ks \<and> set ks \<subseteq> kex_types)
    \<and> (\<forall>su t s''. run_turn su s' = (Done (Inr True), s'') \<longrightarrow> delivered su s' = Some t \<longrightarrow> t \<in> insert MSG_NEWKEYS kex_types)"
proof -
  have "outlook s0 = (expected_packet s0, False, False, 0, False)" using assms(2-5) by (simp add: outlook_def)
  from run_start_outlook [OF assms(1) this] have "in_order [] s" by (simp add: in_order_def)
  with assms(7) have "in_order ts s'" by (intro turns_in_order [OF assms(6)] bspec [OF assms(7)])
  with assms(8,9) have "settled (insert MSG_NEWKEYS kex_types) s'" "\<exists>ks. ts = MSG_KEXINIT # ks \<and> set ks \<subseteq> kex_types"
    unfolding in_order_def by (auto simp: outlook_def)
  then show ?thesis using turn_expected [OF _ _ assms(8,9)] by (intro conjI allI impI)
qed

text \<open>Equations that evaluate faster than the definitions.\<close>

lemma message_of_code [code]:
  "message_of fs = (if list_all field_ok fs then Inr (enc_fields fs)
     else case add_fields fs (Message_init None) of (Inl e, _) \<Rightarrow> Inl e | (Inr _, m) \<Rightarrow> Inr (msg_asbytes m))"
  using message_of_ok [of fs] by (simp add: message_of_def)

lemma string_ok_code [code]: "string_ok s \<longleftrightarrow> int (length s) < 4294967296"
  by (simp add: string_ok_def)

text \<open>A new server, whose client begins at once with KEXINIT and asks for strict key exchange.\<close>

definition demo_hello :: bytes where
  "demo_hello =
     (case make_kex_init (replicate 16 9) (demo_end False) of
        (Inr m, s) \<Rightarrow> (case build_packet (\<lambda>n. replicate n 0) m (pktz s) of Inr p \<Rightarrow> lit ''SSH-2.0-y'' @ [13, 10] @ p | Inl _ \<Rightarrow> [])
      | (Inl _, _) \<Rightarrow> [])"

definition demo_fresh :: "(byte, unit) transport" where
  "demo_fresh =
     (Transport_init (Kexing_init (security.truncate (demo_end True)) (Packetizer_init [RData demo_hello] [SSent 1000, SSent 1000] 0)
        (lit ''SSH-2.0-x'') True True False) 2097152 32768)
     \<lparr>server_mode := True, server_key_dict := server_key_dict (demo_end True), t_active := True\<rparr>"

definition demo_engines :: "(byte, unit) parts" where
  "demo_engines = \<lparr>other_start = (\<lambda>k. bmodify (expect_packet [30])), other_next = (\<lambda>k t m. bmodify (expect_packet [MSG_NEWKEYS]))\<rparr>"

definition demo_started :: "(byte, unit) transport" where
  "demo_started = snd (run_start (demo_su\<lparr>su_parts := demo_engines\<rparr>) 15 demo_fresh)"

theorem strict_kex_witness:
  "\<exists>ts. turns {demo_su\<lparr>su_parts := demo_engines\<rparr>} demo_started ts (snd (run_turn (demo_su\<lparr>su_parts := demo_engines\<rparr>) demo_started))
    \<and> (\<exists>ks. ts = MSG_KEXINIT # ks \<and> set ks \<subseteq> kex_types)"
proof -
  define u where "u = demo_su\<lparr>su_parts := demo_engines\<rparr>"
  define s1 where "s1 = snd (run_turn u demo_started)"
  have p: "parts_ok (su_parts u)" "engines_in_order (su_parts u)"
    by (auto simp: u_def parts_ok_def engines_in_order_def demo_engines_def bmodify_def expect_packet_def outer_def
        settles_def settled_def kex_types_def)
  have "(case run_start u 15 demo_fresh of (r, s) \<Rightarrow> (case run_turn u s of (r', s') \<Rightarrow>
      (r, r', agreed_on_strict_kex s', initial_kex_done s'))) = (Done (Inr ()), Done (Inr True), True, False)"
    unfolding u_def by code_simp
  then have r: "fst (run_start u 15 demo_fresh) = Done (Inr ())" "fst (run_turn u demo_started) = Done (Inr True)"
    "agreed_on_strict_kex s1" "\<not> initial_kex_done s1"
    by (simp_all add: s1_def demo_started_def u_def split: prod.splits)
  have e: "\<not> agreed_on_strict_kex demo_fresh" "\<not> initial_kex_done demo_fresh" "\<not> pk_initial_kex_done (pktz demo_fresh)"
    "sequence_number_in (pktz demo_fresh) = 0"
    by (simp_all add: demo_fresh_def Transport_init_def Kexing_init_def transport.defs kexing.defs security.defs Packetizer_init_def)
  have t: "turns {u} demo_started ([] @ (case delivered u demo_started of None \<Rightarrow> [] | Some t \<Rightarrow> [t])) s1"
    using r(2) by (intro turns_turn [OF turns_start]) (simp_all add: s1_def prod_eq_iff)
  have "run_start u 15 demo_fresh = (Done (Inr ()), demo_started)" using r(1) by (simp add: demo_started_def u_def prod_eq_iff)
  from strict_kex [OF this e t _ r(3,4)] p t show ?thesis unfolding u_def [symmetric] s1_def [symmetric] by blast
qed

end
