(* ===== verification/Kex_Ecdh.thy ===== *)
theory Kex_Ecdh
  imports Kex_Group
begin

text \<open>
  Elliptic curve Diffie-Hellman: \<^verbatim>\<open>paramiko/kex_curve25519.py\<close> and \<^verbatim>\<open>paramiko/kex_ecdh_nist.py\<close>. The curves
  are those of the \<^verbatim>\<open>cryptography\<close> package, the record \<open>ec_lib\<close>. Shown: an honest exchange gives
  both ends the same secret, hash and session identifier, and a value of the peer that the library
  refuses, or a secret that is zero, ends the exchange.
\<close>

section \<open>The library\<close>

text \<open>A private key is a number and a public key its encoding: \<open>ec_public\<close> is \<^verbatim>\<open>public_key().public_bytes(...)\<close>,
  \<open>ec_load\<close> says whether \<^verbatim>\<open>from_public_bytes\<close> and \<^verbatim>\<open>from_encoded_point\<close> accept an encoding, and \<open>ec_exchange\<close>
  is \<^verbatim>\<open>exchange\<close>. All depend on the curve, which the class of the engine fixes.\<close>

record ec_lib =
  ec_public :: "kex_class \<Rightarrow> int \<Rightarrow> bytes"
  ec_load :: "kex_class \<Rightarrow> bytes \<Rightarrow> py_error + unit"
  ec_exchange :: "kex_class \<Rightarrow> int \<Rightarrow> bytes \<Rightarrow> py_error + bytes"

definition MSG_KEXECDH_INIT :: byte where [msg_codes]: "MSG_KEXECDH_INIT = 30"
definition MSG_KEXECDH_REPLY :: byte where [msg_codes]: "MSG_KEXECDH_REPLY = 31"

fun is_nist :: "kex_class \<Rightarrow> bool" where
  "is_nist KexNistp256 = True"
| "is_nist KexNistp384 = True"
| "is_nist KexNistp521 = True"
| "is_nist _ = False"

section \<open>The exchange\<close>

text \<open>\<^verbatim>\<open>start_kex\<close>: \<open>keys\<close> are the private keys that the library generates; \<open>kex_x\<close> holds the one of the
  engine. As for the fixed groups, the message to send is separated.\<close>

definition ec_offer :: "ec_lib \<Rightarrow> kex_class \<Rightarrow> int list \<Rightarrow> (('e, 'z, 'y) kexing_scheme, bytes option) bpy" where
  "ec_offer ec k keys s =
     (case keys of
        [] \<Rightarrow> (Waiting, s)
      | x # _ \<Rightarrow>
          (let s = s\<lparr>kex_x := x\<rparr> in
           if server_mode s then bret None (expect_packet [MSG_KEXECDH_INIT] s)
           else bbind (blift (message_of [FRaw [MSG_KEXECDH_INIT], FString (ec_public ec k x)])) (\<lambda>m. bret (Some m)) s))"

definition ec_start_kex ::
  "('e, 'z) lib \<Rightarrow> ec_lib \<Rightarrow> kex_class \<Rightarrow> (nat \<Rightarrow> bytes) \<Rightarrow> int list \<Rightarrow> (('e, 'z, 'y) kexing_scheme, unit) bpy" where
  "ec_start_kex l ec k rnd keys =
     bbind (ec_offer ec k keys) (\<lambda>m. case m of
       None \<Rightarrow> bret ()
     | Some m \<Rightarrow>
         bbind (t_send_message l rnd m) (\<lambda>_. bmodify (expect_packet [MSG_KEXECDH_REPLY])))"

text \<open>\<^verbatim>\<open>_perform_exchange\<close> and \<^verbatim>\<open>int(hexlify(K), 16)\<close>.\<close>

definition ec_secret :: "ec_lib \<Rightarrow> kex_class \<Rightarrow> int \<Rightarrow> bytes \<Rightarrow> py_error + int" where
  "ec_secret ec k x peer =
     rbind (ec_exchange ec k x peer) (\<lambda>secret.
       if k = KexCurve25519 \<and> secret = replicate 32 0
       then Inl (SSHException ''peer's curve25519 public value has wrong order'')
       else if secret = [] then Inl ValueError
       else Inr (be_dec secret))"

definition ec_hash ::
  "('e, 'z) lib \<Rightarrow> hash_class \<Rightarrow> pystr \<Rightarrow> pystr \<Rightarrow> bytes option \<Rightarrow> bytes option \<Rightarrow> bytes \<Rightarrow> bytes \<Rightarrow> bytes \<Rightarrow> int
   \<Rightarrow> py_error + bytes" where
  "ec_hash l h v_c v_s i_c i_s k_s q_c q_s K =
     (case (i_c, i_s) of
        (Some i_c, Some i_s) \<Rightarrow>
          rbind (message_of [FString v_c, FString v_s, FString i_c, FString i_s, FString k_s,
                             FString q_c, FString q_s, FMpint K]) (\<lambda>m. Inr (digest l h m))
      | _ \<Rightarrow> Inl OtherException)"

text \<open>\<^verbatim>\<open>_parse_kexecdh_init\<close> up to the reply. The classes differ in the order of the exchange and of the
  look at the host key.\<close>

definition ec_reply_of ::
  "('e, 'z) lib \<Rightarrow> bytes \<Rightarrow> bytes \<Rightarrow> host_key \<Rightarrow> pystr \<Rightarrow> int \<Rightarrow> (('e, 'z, 'y) kexing_scheme, bytes) py" where
  "ec_reply_of l q_c q_s key ty K s =
     pbind (plift (ec_hash l (kex_hash s) (remote_version s) (local_version s) (remote_kex_init s)
                     (local_kex_init s) (hk_blob key) q_c q_s K)) (\<lambda>H.
     pbind (pmodify (set_K_H K H)) (\<lambda>_.
     pbind (plift (sign_ssh_data l key H ty)) (\<lambda>sig.
     plift (message_of [FRaw [MSG_KEXECDH_REPLY], FString (hk_blob key), FString q_s, FString sig])))) s"

definition ec_init_secret ::
  "('e, 'z) lib \<Rightarrow> ec_lib \<Rightarrow> kex_class \<Rightarrow> message \<Rightarrow> (('e, 'z, 'y) kexing_scheme, bytes) py" where
  "ec_init_secret l ec k m =
     pbind (on_message get_string m) (\<lambda>(q_c, m).
     pbind (plift (ec_load ec k q_c)) (\<lambda>_. \<lambda>s.
     let q_s = ec_public ec k (kex_x s) in
     if k = KexCurve25519 then
       pbind (plift (ec_secret ec k (kex_x s) q_c)) (\<lambda>K. \<lambda>s.
       case (get_server_key s, host_key_type s) of
         (Some key, Some ty) \<Rightarrow> ec_reply_of l q_c q_s key ty K s
       | _ \<Rightarrow> (Inl OtherException, s)) s
     else
       (case (get_server_key s, host_key_type s) of
          (Some key, Some ty) \<Rightarrow>
            pbind (plift (ec_secret ec k (kex_x s) q_c)) (\<lambda>K. ec_reply_of l q_c q_s key ty K) s
        | _ \<Rightarrow> (Inl OtherException, s))))"

definition ec_parse_init ::
  "('e, 'z) lib \<Rightarrow> ec_lib \<Rightarrow> kex_class \<Rightarrow> (nat \<Rightarrow> bytes) \<Rightarrow> message \<Rightarrow> (('e, 'z, 'y) kexing_scheme, unit) bpy" where
  "ec_parse_init l ec k rnd m =
     bbind (nb (ec_init_secret l ec k m)) (\<lambda>reply.
     bbind (t_send_message l rnd reply) (\<lambda>_.
     activate_outbound l rnd))"

text \<open>\<^verbatim>\<open>_parse_kexecdh_reply\<close> up to \<^verbatim>\<open>_set_K_H\<close>: the host key and the signature. Here the classes differ in
  when the signature is read.\<close>

definition ec_reply_secret ::
  "('e, 'z) lib \<Rightarrow> ec_lib \<Rightarrow> kex_class \<Rightarrow> message \<Rightarrow> (('e, 'z, 'y) kexing_scheme, bytes \<times> bytes) py" where
  "ec_reply_secret l ec k m =
     pbind (on_message get_string m) (\<lambda>(host_key, m).
     pbind (on_message get_string m) (\<lambda>(q_s, m).
     pbind
       (if k = KexCurve25519
        then pbind (on_message get_binary m) (\<lambda>sm. pbind (plift (ec_load ec k q_s)) (\<lambda>_. pret sm))
        else pbind (plift (ec_load ec k q_s)) (\<lambda>_. on_message get_binary m)) (\<lambda>(sig, m). \<lambda>s.
     pbind (plift (ec_secret ec k (kex_x s) q_s)) (\<lambda>K.
     pbind (plift (ec_hash l (kex_hash s) (local_version s) (remote_version s) (local_kex_init s)
                     (remote_kex_init s) host_key (ec_public ec k (kex_x s)) q_s K)) (\<lambda>H.
     pbind (pmodify (set_K_H K H)) (\<lambda>_.
     pret (host_key, sig)))) s)))"

definition ec_parse_reply ::
  "('e, 'z) lib \<Rightarrow> ec_lib \<Rightarrow> kex_class \<Rightarrow> (nat \<Rightarrow> bytes) \<Rightarrow> message \<Rightarrow> (('e, 'z, 'y) kexing_scheme, unit) bpy" where
  "ec_parse_reply l ec k rnd m =
     bbind (nb (ec_reply_secret l ec k m)) (\<lambda>(host_key, sig).
     bbind (nb (verify_key l host_key sig)) (\<lambda>_.
     activate_outbound l rnd))"

definition ec_parse_next ::
  "('e, 'z) lib \<Rightarrow> ec_lib \<Rightarrow> kex_class \<Rightarrow> (nat \<Rightarrow> bytes) \<Rightarrow> byte \<Rightarrow> message \<Rightarrow> (('e, 'z, 'y) kexing_scheme, unit) bpy" where
  "ec_parse_next l ec k rnd ptype m s =
     (if server_mode s \<and> ptype = MSG_KEXECDH_INIT then ec_parse_init l ec k rnd m s
      else if \<not> server_mode s \<and> ptype = MSG_KEXECDH_REPLY then ec_parse_reply l ec k rnd m s
      else braise (SSHException ''KexECDH asked to handle packet type'') s)"

section \<open>An honest exchange\<close>

text \<open>What is relied on of the library: it accepts the public keys that it makes, and the secret of two
  key pairs does not depend on the side on which it is computed and is not zero.\<close>

definition ec_lib_ok :: "ec_lib \<Rightarrow> kex_class \<Rightarrow> bool" where
  "ec_lib_ok ec k \<longleftrightarrow>
     (\<forall>x. ec_load ec k (ec_public ec k x) = Inr () \<and> string_ok (ec_public ec k x))
   \<and> (\<forall>x y. \<exists>secret. ec_exchange ec k x (ec_public ec k y) = Inr secret \<and> ec_exchange ec k y (ec_public ec k x) = Inr secret
        \<and> secret \<noteq> [] \<and> length secret < 2 ^ 31 \<and> secret \<noteq> replicate 32 0)"

lemma ec_lib_secret:
  assumes "ec_lib_ok ec k"
  obtains K where "ec_secret ec k x (ec_public ec k y) = Inr K" "ec_secret ec k y (ec_public ec k x) = Inr K" "mpint_ok K"
proof -
  obtain secret where s: "ec_exchange ec k x (ec_public ec k y) = Inr secret" "ec_exchange ec k y (ec_public ec k x) = Inr secret"
    "secret \<noteq> []" "length secret < 2 ^ 31" "secret \<noteq> replicate 32 0"
    using assms unfolding ec_lib_ok_def by blast
  moreover have "mpint_ok (be_dec secret)"
    by (rule mpint_ok_small [OF be_dec_bounds s(4)])
  ultimately show ?thesis using that [of "be_dec secret"] by (simp add: ec_secret_def rbind_def)
qed

lemma ec_hash_done:
  assumes "list_all string_ok [v_c, v_s, i_c, i_s, k_s, q_c, q_s]" "mpint_ok K"
  shows "\<exists>b. ec_hash l h v_c v_s (Some i_c) (Some i_s) k_s q_c q_s K = Inr (digest l h b)"
  using message_of_ok [of "[FString v_c, FString v_s, FString i_c, FString i_s, FString k_s, FString q_c, FString q_s, FMpint K]"] assms
  by (auto simp: ec_hash_def rbind_def)

lemma string_message:
  "string_ok a \<Longrightarrow> on_message get_string (Message_init (Some (enc_string a))) t = (Inr (a, reading (enc_string a) []), t)"
  using string_codec.get_enc [of a "[]" "[]"] by (simp add: on_message_def Message_init_tl)

lemma ec_reply_message:
  assumes "string_ok a" "string_ok q" "string_ok b"
  shows "on_message get_string (Message_init (Some (enc_string a @ enc_string q @ enc_string b))) t =
           (Inr (a, reading (enc_string a) (enc_string q @ enc_string b)), t)"
    "on_message get_string (reading (enc_string a) (enc_string q @ enc_string b)) t =
           (Inr (q, reading (enc_string a @ enc_string q) (enc_string b)), t)"
    "on_message get_binary (reading (enc_string a @ enc_string q) (enc_string b)) t =
           (Inr (b, reading (enc_string a @ enc_string q @ enc_string b) []), t)"
  using string_codec.get_enc [OF assms(1), of "[]"] string_codec.get_enc [OF assms(2)]
    string_codec.get_enc [OF assms(3), where post = "[]"]
  by (simp_all add: on_message_def Message_init_tl get_binary_string)

lemma ec_secret_server:
  assumes "string_ok q_c" "ec_load ec k q_c = Inr ()" "ec_secret ec k (kex_x s) q_c = Inr K"
    and "get_server_key s = Some key" "host_key_type s = Some ty" "string_ok (hk_blob key)" "string_ok sig"
    and "string_ok (ec_public ec k (kex_x s))" "sign_ssh_data l key H ty = Inr sig"
    and "ec_hash l (kex_hash s) (remote_version s) (local_version s) (remote_kex_init s) (local_kex_init s)
           (hk_blob key) q_c (ec_public ec k (kex_x s)) K = Inr H"
  shows "ec_init_secret l ec k (Message_init (Some (enc_string q_c))) s =
    (Inr (MSG_KEXECDH_REPLY # enc_string (hk_blob key) @ enc_string (ec_public ec k (kex_x s)) @ enc_string sig), set_K_H K H s)"
proof -
  have "message_of [FRaw [MSG_KEXECDH_REPLY], FString (hk_blob key), FString (ec_public ec k (kex_x s)), FString sig] =
      Inr (MSG_KEXECDH_REPLY # enc_string (hk_blob key) @ enc_string (ec_public ec k (kex_x s)) @ enc_string sig)"
    using assms by (subst message_of_ok) (simp_all add: enc_fields_def)
  with assms show ?thesis
    by (cases "k = KexCurve25519")
      (simp_all add: ec_init_secret_def ec_reply_of_def string_message pbind_def pmodify_def plift_def Let_def)
qed

lemma ec_secret_client:
  assumes "string_ok blob" "string_ok q_s" "string_ok sig" "ec_load ec k q_s = Inr ()" "ec_secret ec k (kex_x c) q_s = Inr K"
    and "ec_hash l (kex_hash c) (local_version c) (remote_version c) (local_kex_init c) (remote_kex_init c)
           blob (ec_public ec k (kex_x c)) q_s K = Inr H"
  shows "ec_reply_secret l ec k (Message_init (Some (enc_string blob @ enc_string q_s @ enc_string sig))) c =
    (Inr (blob, sig), set_K_H K H c)"
  using assms(4-6)
  by (cases "k = KexCurve25519")
    (simp_all add: ec_reply_secret_def ec_reply_message [OF assms(1-3)] pbind_def pmodify_def plift_def pret_def)

text \<open>C15: elliptic curves. Two ends that agreed on one of the curves start the exchange with any private keys;
  the server reads the client's value and the client the server's reply. Then the computation
  succeeds at both ends (provided the host key signs), they hold the same secret, the same exchange
  hash and the same session identifier (that of the first exchange), the signature that reaches the
  client is that of the agreed host key over this hash, and in both directions they are ready for
  new keys in step.\<close>

theorem ec_exchange_agrees:
  assumes ready: "ready_for_kex c0 s0 mc ms" and k: "kex_engine c0 = Some k" "ec_lib_ok ec k"
    and key: "get_server_key s0 = Some key" "host_key_type s0 = Some ty" "string_ok (hk_blob key)"
    and sign: "\<And>b. \<exists>sig. sign_ssh_data l key (digest l (kex_hash c0) b) ty = Inr sig \<and> string_ok sig"
    and c: "ec_offer ec k xs c0 = (Done (Inr (Some m)), c)" and s: "ec_offer ec k ys s0 = (Done (Inr None), s)"
  shows "\<exists>reply s1 sig c1 H.
      ec_init_secret l ec k (Message_init (Some (tl m))) s = (Inr reply, s1) \<and>
      ec_reply_secret l ec k (Message_init (Some (tl reply))) c = (Inr (hk_blob key, sig), c1) \<and>
      t_K c1 \<noteq> None \<and> t_K s1 = t_K c1 \<and> t_H c1 = Some H \<and> t_H s1 = Some H \<and> sign_ssh_data l key H ty = Inr sig \<and>
      session_id c1 = Some (case session_id c0 of None \<Rightarrow> H | Some i \<Rightarrow> i) \<and> session_id s1 = session_id c1 \<and>
      keys_shared c1 s1 \<and> keys_shared s1 c1"
proof -
  have ok: "ec_load ec k (ec_public ec k x) = Inr ()" "string_ok (ec_public ec k x)" for x
    using k(2) by (simp_all add: ec_lib_ok_def)
  have sm: "\<not> server_mode c0" "server_mode s0" using ready by (simp_all add: ready_for_kex_def)
  obtain x where x: "c = c0\<lparr>kex_x := x\<rparr>" "m = MSG_KEXECDH_INIT # enc_string (ec_public ec k x)"
    using c sm(1) message_of_ok [of "[FRaw [MSG_KEXECDH_INIT], FString (ec_public ec k x)]" for x] ok(2)
    by (auto simp: ec_offer_def py_monad Let_def enc_fields_def split: list.splits)
  obtain y where y: "s = s0\<lparr>kex_x := y, expected_packet := [MSG_KEXECDH_INIT]\<rparr>"
    using s sm(2) by (auto simp: ec_offer_def py_monad Let_def expect_packet_def split: list.splits)
  obtain K where K: "ec_secret ec k x (ec_public ec k y) = Inr K" "ec_secret ec k y (ec_public ec k x) = Inr K" "mpint_ok K"
    by (rule ec_lib_secret [OF k(2)])
  have hash: "kex_hash s = kex_hash c0" "kex_hash c = kex_hash c0"
    using ready k by (auto simp: x(1) y kex_hash_def ready_for_kex_def agreed_kex_def)
  have vs: "local_version c0 = remote_version s0" "remote_version c0 = local_version s0" "string_ok (local_version c0)"
    "string_ok (local_version s0)" "local_kex_init c0 = Some mc" "remote_kex_init s0 = Some mc"
    "local_kex_init s0 = Some ms" "remote_kex_init c0 = Some ms" "string_ok mc" "string_ok ms"
    using ready unfolding ready_for_kex_def by blast+
  obtain b H where b: "H = digest l (kex_hash c0) b" and H: "ec_hash l (kex_hash c0) (local_version c0) (local_version s0)
      (Some mc) (Some ms) (hk_blob key) (ec_public ec k x) (ec_public ec k y) K = Inr H"
    using ec_hash_done [where l = l and h = "kex_hash c0" and K = K] vs key(3) ok K(3) by force
  obtain sig where sig: "sign_ssh_data l key H ty = Inr sig" "string_ok sig" using sign b by blast
  have S: "ec_init_secret l ec k (Message_init (Some (tl m))) s =
      (Inr (MSG_KEXECDH_REPLY # enc_string (hk_blob key) @ enc_string (ec_public ec k y) @ enc_string sig), set_K_H K H s)"
    using ec_secret_server [of "ec_public ec k x" ec k s K key ty sig l H] ok K key sig H hash vs
    by (simp add: x(2) y get_server_key_def)
  have C: "ec_reply_secret l ec k (Message_init (Some (enc_string (hk_blob key) @ enc_string (ec_public ec k y) @ enc_string sig))) c =
      (Inr (hk_blob key, sig), set_K_H K H c)"
    using ec_secret_client [of "hk_blob key" "ec_public ec k y" sig ec k c K l H] ok K key sig H hash vs by (simp add: x(1))
  have "keys_shared (set_K_H K H c) (set_K_H K H s) \<and> keys_shared (set_K_H K H s) (set_K_H K H c)"
    using ready_algorithms [OF ready] ready k K(3)
    by (simp add: keys_shared_def has_secrets_def x(1) y set_K_H_fields kex_hash_def ready_for_kex_def agreed_kex_def)
  with S C sig(1) show ?thesis
    using ready by (auto simp: set_K_H_fields x(1) y ready_for_kex_def)
qed

definition demo_ec :: ec_lib where
  "demo_ec = \<lparr>ec_public = (\<lambda>k x. [of_int x]), ec_load = (\<lambda>k q. Inr ()), ec_exchange = (\<lambda>k x q. Inr (map (\<lambda>b. of_int x * b) q))\<rparr>"

lemma demo_ec_ok: "ec_lib_ok demo_ec k"
  by (auto simp: ec_lib_ok_def demo_ec_def string_ok_def mult.commute intro!: exI dest!: arg_cong [where f = length])

definition demo_ecdh :: "bool \<Rightarrow> (byte, unit) kexing" where
  "demo_ecdh server = (demo_dh server)\<lparr>kex_engine := Some KexCurve25519\<rparr>"

lemma demo_ecdh_ready: "ready_for_kex (demo_ecdh False) (demo_ecdh True) [20] [20]"
proof -
  have "security.truncate (demo_ecdh b) = security.truncate (demo_dh b)" for b
    by (simp add: demo_ecdh_def security.truncate_def)
  note t = preferred_truncate [OF this] known_truncate [OF this]
  show ?thesis
    using demo_dh_ready unfolding ready_for_kex_def agreed_defs t by (auto simp: demo_ecdh_def)
qed

theorem ec_exchange_agrees_witness:
  "\<exists>m c s reply s1 sig c1.
     ec_offer demo_ec KexCurve25519 [3] (demo_ecdh False) = (Done (Inr (Some m)), c) \<and>
     ec_offer demo_ec KexCurve25519 [5] (demo_ecdh True) = (Done (Inr None), s) \<and>
     ec_init_secret demo_lib demo_ec KexCurve25519 (Message_init (Some (tl m))) s = (Inr reply, s1) \<and>
     ec_reply_secret demo_lib demo_ec KexCurve25519 (Message_init (Some (tl reply))) c = (Inr ([1], sig), c1) \<and> keys_shared c1 s1"
proof -
  have modes: "\<not> server_mode (demo_ecdh False)" "server_mode (demo_ecdh True)"
    by (simp_all add: demo_ecdh_def demo_dh_def demo_keyed_simps)
  have "message_of [FRaw [MSG_KEXECDH_INIT], FString (ec_public demo_ec KexCurve25519 3)] = Inr (MSG_KEXECDH_INIT # enc_string [3])"
    by (subst message_of_ok) (simp_all add: demo_ec_def string_ok_def enc_fields_def)
  then obtain m c s where o: "ec_offer demo_ec KexCurve25519 [3] (demo_ecdh False) = (Done (Inr (Some m)), c)"
    "ec_offer demo_ec KexCurve25519 [5] (demo_ecdh True) = (Done (Inr None), s)"
    using modes by (simp add: ec_offer_def py_monad Let_def)
  have key: "get_server_key (demo_ecdh True) = Some \<lparr>hk_class = RSAKey, hk_name = lit ''ssh-rsa'', hk_blob = [1], hk_public_blob = None\<rparr>"
    "host_key_type (demo_ecdh True) = Some (lit ''ssh-rsa'')" "kex_engine (demo_ecdh False) = Some KexCurve25519"
    "kex_hash (demo_ecdh False) = SHA256"
    by (simp_all add: demo_ecdh_def demo_dh_def get_server_key_def kex_hash_def)
  from ec_exchange_agrees [OF demo_ecdh_ready key(3) demo_ec_ok key(1,2) _ _ o, of demo_lib] o
  show ?thesis by (fastforce simp: key string_ok_def demo_lib_def)
qed

text \<open>A secret that is zero ends the exchange: when the peer's value has a small order, so that the secret of
  Curve25519 would be known to everybody, both handlers raise, and no secret, hash or session
  identifier is set.\<close>

theorem zero_secret_rejected:
  assumes "string_ok q" "string_ok a" "string_ok b" "ec_load ec KexCurve25519 q = Inr ()"
    "ec_exchange ec KexCurve25519 (kex_x s) q = Inr (replicate 32 0)"
  shows "(\<exists>e. ec_init_secret l ec KexCurve25519 (Message_init (Some (enc_string q))) s = (Inl (SSHException e), s))
    \<and> (\<exists>e. ec_reply_secret l ec KexCurve25519 (Message_init (Some (enc_string a @ enc_string q @ enc_string b))) s = (Inl (SSHException e), s))"
  using assms(4,5)
  by (simp add: ec_init_secret_def ec_reply_secret_def string_message [OF assms(1)] ec_reply_message [OF assms(2,1,3)]
      ec_secret_def rbind_def pbind_def plift_def pret_def Let_def)

theorem zero_secret_rejected_witness:
  "\<exists>e. ec_init_secret demo_lib (demo_ec\<lparr>ec_exchange := \<lambda>k x q. Inr (replicate 32 0)\<rparr>) KexCurve25519
     (Message_init (Some (enc_string [9]))) (demo_ecdh True) = (Inl (SSHException e), demo_ecdh True)"
  using zero_secret_rejected [of "[9]" "[1]" "[2]" "demo_ec\<lparr>ec_exchange := \<lambda>k x q. Inr (replicate 32 0)\<rparr>" "demo_ecdh True" demo_lib]
  by (simp add: string_ok_def demo_ec_def)

end
