(* ===== verification/Primes.thy ===== *)
theory Primes
  imports Py_Util
begin

text \<open>
  The pack of primes for group exchange, \<^verbatim>\<open>paramiko/primes.py\<close>, and \<^verbatim>\<open>util.bit_length\<close>. A line of the file
  is given by its fields after \<^verbatim>\<open>line.split()\<close> and the conversions to numbers; lines on which these fail
  are skipped by \<^verbatim>\<open>read_file\<close>. Shown: which bit size is chosen, that the prime has it, and that the
  random index is in range and any index possible.
\<close>

section \<open>Definitions\<close>

fun nat_bits :: "nat \<Rightarrow> nat" where
  "nat_bits n = (if n = 0 then 0 else Suc (nat_bits (n div 2)))"

declare nat_bits.simps [simp del]

text \<open>\<^verbatim>\<open>n.bit_length()\<close>, which is that of the absolute value.\<close>

definition bit_length :: "int \<Rightarrow> int" where
  "bit_length n = int (nat_bits (nat \<bar>n\<bar>))"

text \<open>\<^verbatim>\<open>_roll_random\<close>: the successive results of \<^verbatim>\<open>os.urandom(byte_count)\<close> are given.\<close>

definition roll_count :: "int \<Rightarrow> int" where
  "roll_count n = (bit_length (n - 1) + 7) div 8"

definition roll_mask :: "int \<Rightarrow> int" where
  "roll_mask n = 2 ^ nat (bit_length (n - 1) mod 8) - 1"

fun roll_random :: "int \<Rightarrow> bytes list \<Rightarrow> int option" where
  "roll_random n [] = None"
| "roll_random n (x # draws) =
     (let x = (if roll_mask n > 0 then (hd x AND word_of_int (roll_mask n)) # tl x else x);
          num = inflate_long x True
      in if num < n then Some num else roll_random n draws)"

text \<open>\<open>pack\<close> maps bit sizes to lists of generators and moduli. The reason for which a modulus is discarded is a
  text in the code, the second one with the size that was reported.\<close>

datatype discard_reason = Basic_requirements | Reported_bit_length int

record modulus_pack =
  pack :: "(int \<times> (int \<times> int) list) list"
  discarded :: "(int \<times> discard_reason) list"

definition ModulusPack_init :: modulus_pack where
  "ModulusPack_init = \<lparr>pack = [], discarded = []\<rparr>"

record modulus_line =
  mod_type :: int
  mod_tests :: int
  mod_tries :: int
  mod_size :: int
  mod_generator :: int
  mod_modulus :: int

definition pack_append :: "int \<Rightarrow> int \<times> int \<Rightarrow> (int \<times> (int \<times> int) list) list \<Rightarrow> (int \<times> (int \<times> int) list) list" where
  "pack_append bl gm p =
     (if bl \<in> fst ` set p then map (\<lambda>(b, l). if b = bl then (b, l @ [gm]) else (b, l)) p else p @ [(bl, [gm])])"

definition parse_modulus :: "modulus_line \<Rightarrow> modulus_pack \<Rightarrow> modulus_pack" where
  "parse_modulus l s =
     (if mod_type l < 2 \<or> mod_tests l < 4 \<or> mod_tests l AND 4 \<noteq> 0 \<and> mod_tests l < 8 \<and> mod_tries l < 100
      then s\<lparr>discarded := discarded s @ [(mod_modulus l, Basic_requirements)]\<rparr>
      else
        let generator = (if mod_generator l = 0 then 2 else mod_generator l); bl = bit_length (mod_modulus l) in
        if bl \<noteq> mod_size l \<and> bl \<noteq> mod_size l + 1
        then s\<lparr>discarded := discarded s @ [(mod_modulus l, Reported_bit_length (mod_size l))]\<rparr>
        else s\<lparr>pack := pack_append bl (generator, mod_modulus l) (pack s)\<rparr>)"

definition read_moduli :: "modulus_line list \<Rightarrow> modulus_pack \<Rightarrow> modulus_pack" where
  "read_moduli ls s = fold parse_modulus ls (s\<lparr>pack := []\<rparr>)"

text \<open>The loops of \<^verbatim>\<open>get_modulus\<close>.\<close>

definition least_from :: "int \<Rightarrow> int \<Rightarrow> int list \<Rightarrow> int" where
  "least_from prefer mx bitsizes =
     fold (\<lambda>b good. if b \<ge> prefer \<and> b \<le> mx \<and> (b < good \<or> good = - 1) then b else good) bitsizes (- 1)"

definition greatest_from :: "int \<Rightarrow> int \<Rightarrow> int list \<Rightarrow> int" where
  "greatest_from mn mx bitsizes = fold (\<lambda>b good. if b \<ge> mn \<and> b \<le> mx \<and> b > good then b else good) bitsizes (- 1)"

definition choose_bits :: "int \<Rightarrow> int \<Rightarrow> int \<Rightarrow> int list \<Rightarrow> int" where
  "choose_bits mn prefer mx bitsizes =
     (let good = least_from prefer mx bitsizes;
          good = (if good = - 1 then greatest_from mn mx bitsizes else good)
      in if good = - 1 then (if mn > hd bitsizes then last bitsizes else hd bitsizes) else good)"

text \<open>\<^verbatim>\<open>get_modulus\<close>; \<open>None\<close> means that no draw was accepted yet.\<close>

definition get_modulus :: "modulus_pack \<Rightarrow> bytes list \<Rightarrow> int \<Rightarrow> int \<Rightarrow> int \<Rightarrow> (py_error + int \<times> int) option" where
  "get_modulus s draws mn prefer mx =
     (let bitsizes = sort (map fst (pack s)) in
      if length bitsizes = 0 then Some (Inl (SSHException ''no moduli available''))
      else
        let good = choose_bits mn prefer mx bitsizes; l = the (map_of (pack s) good) in
        map_option (\<lambda>n. Inr (l ! nat n)) (roll_random (int (length l)) draws))"

section \<open>Bit lengths\<close>

lemma nat_bits_bounds: "n < 2 ^ nat_bits n \<and> (0 < n \<longrightarrow> 2 ^ (nat_bits n - 1) \<le> n)"
proof (induction n rule: nat_bits.induct)
  case (1 n)
  show ?case
  proof (cases "n \<le> 1")
    case True
    then consider "n = 0" | "n = 1" by linarith
    then show ?thesis by cases (simp_all add: nat_bits.simps)
  next
    case False
    then have e: "nat_bits n = Suc (nat_bits (n div 2))" by (simp add: nat_bits.simps)
    have p: "0 < n div 2" using False by auto
    then have "nat_bits (n div 2) \<noteq> 0" by (subst nat_bits.simps) simp
    then obtain k where k: "nat_bits (n div 2) = Suc k" by (cases "nat_bits (n div 2)") auto
    have "n div 2 < 2 ^ Suc k" "2 ^ k \<le> n div 2" using 1 False p k by auto
    then show ?thesis using e k by auto
  qed
qed

lemma bit_length_less: "0 \<le> n \<Longrightarrow> n < 2 ^ nat (bit_length n)"
  using nat_bits_bounds [of "nat n"] by (simp add: bit_length_def)

lemma bit_length_lower: "0 < n \<Longrightarrow> 2 ^ (nat (bit_length n) - 1) \<le> n"
  using nat_bits_bounds [of "nat n"] by (simp add: bit_length_def nat_le_iff of_nat_power)

lemma bit_length_nonneg: "0 \<le> bit_length n"
  by (simp add: bit_length_def)

section \<open>The random index\<close>

lemma roll_mask_word: "roll_mask n > 0 \<Longrightarrow> (w :: byte) AND word_of_int (roll_mask n) = take_bit (nat (bit_length (n - 1) mod 8)) w"
  by (simp add: roll_mask_def take_bit_eq_mask mask_eq_exp_minus_1 of_int_power)

lemma roll_random_bounds: "roll_random n draws = Some k \<Longrightarrow> 0 \<le> k \<and> k < n"
  by (induction draws) (auto simp: Let_def inflate_long_positive be_dec_bounds split: if_splits)

text \<open>The index that \<^verbatim>\<open>_roll_random\<close> returns is in range, and no index is excluded: for every index there
  are random bytes with which it returns that index.\<close>

theorem roll_random_range:
  assumes "0 < n"
  shows "(\<forall>draws k. roll_random n draws = Some k \<longrightarrow> 0 \<le> k \<and> k < n)
    \<and> (\<forall>k. 0 \<le> k \<longrightarrow> k < n \<longrightarrow> (\<exists>d. length d = nat (roll_count n) \<and> roll_random n [d] = Some k))"
proof (intro conjI allI impI)
  fix draws k assume "roll_random n draws = Some k"
  then show "0 \<le> k" "k < n" by (simp_all add: roll_random_bounds)
next
  fix k assume k: "0 \<le> k" "k < n"
  define b where "b = bit_length (n - 1)"
  define c where "c = nat (roll_count n)"
  have b0: "0 \<le> b" by (simp add: b_def bit_length_nonneg)
  have kb: "k < 2 ^ nat b" using bit_length_less [of "n - 1"] k assms by (simp add: b_def)
  have c: "nat b \<le> 8 * c" using b0 by (simp add: c_def roll_count_def b_def [symmetric] nat_le_iff) presburger
  have k256: "k < 256 ^ c"
  proof -
    have "(2 :: int) ^ nat b \<le> 2 ^ (8 * c)" using c by (rule power_increasing) simp
    also have "\<dots> = 256 ^ c" by (simp add: power_mult)
    finally show ?thesis using kb by simp
  qed
  define d where "d = be_enc c k"
  have d: "length d = c" "be_dec d = k" using k(1) k256 by (simp_all add: d_def)
  have "roll_random n [d] = Some k"
  proof (cases "roll_mask n > 0")
    case False
    then show ?thesis using d k by (simp add: Let_def inflate_long_positive)
  next
    case True
    define r where "r = nat (b mod 8)"
    have "b mod 8 \<noteq> 0" using True by (auto simp: roll_mask_def b_def)
    moreover from this have "(b + 7) div 8 = b div 8 + 1" by presburger
    then have cb: "c = Suc (nat (b div 8))" using b0 by (simp add: c_def roll_count_def b_def [symmetric] nat_add_distrib)
    moreover have "int (8 * nat (b div 8) + nat (b mod 8)) = b" using b0 by (simp add: pos_imp_zdiv_nonneg_iff)
    then have "nat b = 8 * nat (b div 8) + nat (b mod 8)" by linarith
    ultimately have r: "0 < r" "r < 8" "nat b = 8 * (c - 1) + r" "0 < c"
      using b0 by (simp_all add: r_def nat_less_iff)
    obtain h t where ht: "d = h # t" using d(1) r(4) by (cases d) auto
    have len: "length t = c - 1" using d(1) ht by simp
    have "uint h * 256 ^ (c - 1) \<le> k"
      using d(2) be_dec_bounds(1) [of t] by (simp add: ht be_dec_Cons len)
    also have "k < 2 ^ r * 256 ^ (c - 1)" using kb by (simp add: r(3) power_add power_mult mult.commute [of "2 ^ r"])
    finally have "uint h < 2 ^ r" by simp
    then have "uint (take_bit r h) = uint h" by (simp add: unsigned_take_bit_eq take_bit_int_eq_self)
    then have "take_bit r h = h" by (simp only: uint_word_ariths word_uint_eq_iff)
    then have "h AND word_of_int (roll_mask n) = h" using roll_mask_word [OF True, of h] by (simp add: r_def b_def)
    then show ?thesis using True d k ht by (simp add: Let_def inflate_long_positive)
  qed
  then show "\<exists>d. length d = nat (roll_count n) \<and> roll_random n [d] = Some k"
    using d(1) by (auto simp: c_def)
qed

theorem roll_random_range_witness:
  "\<exists>d. length d = nat (roll_count 5) \<and> roll_random 5 [d] = Some 3"
  using roll_random_range [of 5] by simp

section \<open>The bit size\<close>

text \<open>What is chosen, in terms of the set of sizes.\<close>

definition in_range :: "int \<Rightarrow> int \<Rightarrow> int set \<Rightarrow> int set" where
  "in_range lo hi B = {b \<in> B. lo \<le> b \<and> b \<le> hi}"

lemma in_range_insert: "in_range lo hi (insert b B) = (if lo \<le> b \<and> b \<le> hi then insert b (in_range lo hi B) else in_range lo hi B)"
  by (auto simp: in_range_def)

lemma in_range_finite [simp]: "finite (in_range lo hi (set bs))"
  by (simp add: in_range_def)

lemma in_range_subset: "b \<in> in_range lo hi B \<Longrightarrow> b \<in> B"
  by (simp add: in_range_def)

lemma in_range_Min: "finite B \<Longrightarrow> in_range lo hi B \<noteq> {} \<Longrightarrow> Min (in_range lo hi B) \<in> B"
  using Min_in [of "in_range lo hi B"] by (simp add: in_range_def)

lemma in_range_Max: "finite B \<Longrightarrow> in_range lo hi B \<noteq> {} \<Longrightarrow> Max (in_range lo hi B) \<in> B"
  using Max_in [of "in_range lo hi B"] by (simp add: in_range_def)

lemma in_range_empty [simp]: "in_range lo hi {} = {}"
  by (simp add: in_range_def)

lemma least_from_spec:
  assumes "\<forall>b \<in> set bs. 0 \<le> b"
  shows "least_from p m bs = (if in_range p m (set bs) = {} then - 1 else Min (in_range p m (set bs)))"
  using assms
proof (induction bs rule: rev_induct)
  case (snoc b bs)
  define R where "R = in_range p m (set bs)"
  have "finite R" by (simp add: R_def)
  moreover have "R \<noteq> {} \<Longrightarrow> 0 \<le> Min R"
    using in_range_Min [of "set bs" p m] snoc.prems by (metis List.finite_set R_def Un_iff set_append)
  moreover have "least_from p m bs = (if R = {} then - 1 else Min R)" using snoc by (simp add: R_def)
  ultimately show ?case
    by (cases "R = {}") (auto simp: least_from_def in_range_insert min_def R_def [symmetric] simp del: Min_less_iff Min_le_iff Min_ge_iff Min_gr_iff)
qed (simp add: least_from_def)

lemma greatest_from_spec:
  assumes "\<forall>b \<in> set bs. 0 \<le> b"
  shows "greatest_from n m bs = (if in_range n m (set bs) = {} then - 1 else Max (in_range n m (set bs)))"
  using assms
proof (induction bs rule: rev_induct)
  case (snoc b bs)
  define R where "R = in_range n m (set bs)"
  have "finite R" by (simp add: R_def)
  moreover have "greatest_from n m bs = (if R = {} then - 1 else Max R)" "0 \<le> b" using snoc by (simp_all add: R_def)
  ultimately show ?case
    by (cases "R = {}") (auto simp: greatest_from_def in_range_insert max_def R_def [symmetric] simp del: Max_less_iff Max_le_iff Max_ge_iff Max_gr_iff)
qed (simp add: greatest_from_def)

text \<open>The contract of \<^verbatim>\<open>get_modulus\<close>: the least size from the preferred one up, else the greatest in the
  client's range, else the least or the greatest of all.\<close>

definition wanted_bits :: "int \<Rightarrow> int \<Rightarrow> int \<Rightarrow> int set \<Rightarrow> int" where
  "wanted_bits mn prefer mx B =
     (if in_range prefer mx B \<noteq> {} then Min (in_range prefer mx B)
      else if in_range mn mx B \<noteq> {} then Max (in_range mn mx B)
      else if mn > Min B then Max B else Min B)"

lemma sorted_ends:
  fixes bs :: "int list"
  assumes "sorted bs" "bs \<noteq> []"
  shows "hd bs = Min (set bs)" "last bs = Max (set bs)"
proof -
  show "hd bs = Min (set bs)" using assms by (cases bs) (auto intro!: Min_eqI [symmetric])
  obtain cs c where "bs = cs @ [c]" using assms(2) by (cases bs rule: rev_cases) auto
  then show "last bs = Max (set bs)" using assms(1) by (auto simp: sorted_append intro!: Max_eqI [symmetric])
qed

lemma choose_bits_wanted:
  assumes "sorted bs" "bs \<noteq> []" "\<forall>b \<in> set bs. 0 \<le> b"
  shows "choose_bits mn p mx bs = wanted_bits mn p mx (set bs)"
proof -
  have neg: "Min (in_range p mx (set bs)) \<noteq> - 1" if "in_range p mx (set bs) \<noteq> {}"
    using in_range_Min [OF _ that] assms(3) by (metis List.finite_set neg_0_le_iff_le not_one_le_zero)
  have neg': "Max (in_range mn mx (set bs)) \<noteq> - 1" if "in_range mn mx (set bs) \<noteq> {}"
    using in_range_Max [OF _ that] assms(3) by (metis List.finite_set neg_0_le_iff_le not_one_le_zero)
  show ?thesis
    unfolding choose_bits_def wanted_bits_def Let_def least_from_spec [OF assms(3)] greatest_from_spec [OF assms(3)]
    using neg neg' sorted_ends [OF assms(1,2)] by auto
qed

text \<open>A well-formed pack: every list is one of moduli of its size and is not empty.\<close>

definition entry_ok :: "int \<times> (int \<times> int) list \<Rightarrow> bool" where
  "entry_ok e \<longleftrightarrow> 0 \<le> fst e \<and> snd e \<noteq> [] \<and> (\<forall>gm \<in> set (snd e). bit_length (snd gm) = fst e \<and> fst gm \<noteq> 0)"

definition pack_ok :: "(int \<times> (int \<times> int) list) list \<Rightarrow> bool" where
  "pack_ok p \<longleftrightarrow> distinct (map fst p) \<and> (\<forall>e \<in> set p. entry_ok e)"

lemma pack_append_ok:
  assumes p: "pack_ok p" and m: "bit_length m = b" "g \<noteq> 0"
  shows "pack_ok (pack_append b (g, m) p)"
proof (cases "b \<in> fst ` set p")
  case True
  define f where "f = (\<lambda>(b', l). if b' = b then (b', l @ [(g, m)]) else (b' :: int, l))"
  have f: "fst (f e) = fst e" "entry_ok e \<Longrightarrow> entry_ok (f e)" for e
    by (cases e; use m in \<open>auto simp: f_def entry_ok_def\<close>)+
  have "pack_append b (g, m) p = map f p" using True by (simp add: pack_append_def f_def)
  then show ?thesis using p f by (simp add: pack_ok_def comp_def)
next
  case False
  have "entry_ok (b, [(g, m)])" using m bit_length_nonneg [of m] by (simp add: entry_ok_def)
  then show ?thesis using False p by (auto simp: pack_append_def pack_ok_def)
qed

lemma parse_modulus_ok: "pack_ok (pack t) \<Longrightarrow> pack_ok (pack (parse_modulus l t))"
  by (simp add: parse_modulus_def Let_def pack_append_ok)

lemma read_moduli_ok: "pack_ok (pack (read_moduli ls s))"
proof -
  have "pack_ok (pack t) \<Longrightarrow> pack_ok (pack (fold parse_modulus ls t))" for t
    by (induction ls arbitrary: t) (simp_all add: parse_modulus_ok)
  moreover have "pack_ok []" by (simp add: pack_ok_def)
  ultimately show ?thesis by (simp add: read_moduli_def)
qed

lemma wanted_bits_in: "finite B \<Longrightarrow> B \<noteq> {} \<Longrightarrow> wanted_bits mn p mx B \<in> B"
  by (simp add: wanted_bits_def in_range_Min in_range_Max)

text \<open>Group exchange gets the prime it asks for: on a pack read from any file, \<^verbatim>\<open>get_modulus\<close> returns a modulus
  whose bit length is the least one available from the preferred one up to the maximum, else the
  greatest one in the client's range, else the least or the greatest of all; its generator is
  not zero; and without primes an exception is raised.\<close>

lemma get_modulus_wanted:
  assumes "s = read_moduli ls s0" "get_modulus s draws mn prefer mx = Some r"
  shows "if pack s = [] then r = Inl (SSHException ''no moduli available'')
    else \<exists>g p. r = Inr (g, p) \<and> bit_length p = wanted_bits mn prefer mx (fst ` set (pack s)) \<and> g \<noteq> 0"
proof (cases "pack s = []")
  case True
  then show ?thesis using assms(2) by (simp add: get_modulus_def)
next
  case False
  have ok: "pack_ok (pack s)" using assms(1) by (simp add: read_moduli_ok)
  define sizes where "sizes = fst ` set (pack s)"
  define bs where "bs = sort (map fst (pack s))"
  have bs: "sorted bs" "bs \<noteq> []" "\<forall>b \<in> set bs. 0 \<le> b" "set bs = sizes"
  proof -
    show "bs \<noteq> []" using False by (metis bs_def length_0_conv length_map length_sort)
  qed (use ok in \<open>auto simp: bs_def sizes_def pack_ok_def entry_ok_def\<close>)
  define w where "w = wanted_bits mn prefer mx sizes"
  have "w \<in> sizes" unfolding w_def by (rule wanted_bits_in) (use False in \<open>auto simp: sizes_def\<close>)
  then obtain l where l: "(w, l) \<in> set (pack s)" "map_of (pack s) w = Some l"
    using ok by (auto simp: sizes_def pack_ok_def)
  have "entry_ok (w, l)" using ok l(1) by (simp add: pack_ok_def)
  then have g: "l \<noteq> []" "\<forall>gm \<in> set l. bit_length (snd gm) = w \<and> fst gm \<noteq> 0" by (simp_all add: entry_ok_def)
  obtain n where n: "roll_random (int (length l)) draws = Some n" "r = Inr (l ! nat n)"
    using assms(2) bs(2) choose_bits_wanted [OF bs(1-3)] l(2)
    by (auto simp: get_modulus_def bs_def [symmetric] Let_def bs(4) w_def [symmetric])
  have "0 \<le> n \<and> n < int (length l)" using n(1) by (rule roll_random_bounds)
  then have "l ! nat n \<in> set l" by (simp add: nat_less_iff)
  with g(2) have "bit_length (snd (l ! nat n)) = w \<and> fst (l ! nat n) \<noteq> 0" by blast
  then show ?thesis using n(2) False by (cases "l ! nat n") (simp add: w_def sizes_def)
qed

definition demo_moduli :: "modulus_line list" where
  "demo_moduli = [\<lparr>mod_type = 2, mod_tests = 6, mod_tries = 100, mod_size = 3, mod_generator = 0, mod_modulus = 11\<rparr>,
     \<lparr>mod_type = 2, mod_tests = 6, mod_tries = 100, mod_size = 7, mod_generator = 5, mod_modulus = 251\<rparr>]"

lemma demo_modulus:
  "\<exists>g p. get_modulus (read_moduli demo_moduli ModulusPack_init) [[]] 5 6 9 = Some (Inr (g, p)) \<and> bit_length p = 8"
proof -
  have r: "get_modulus (read_moduli demo_moduli ModulusPack_init) [[]] 5 6 9 = Some (Inr (5, 251))"
    "pack (read_moduli demo_moduli ModulusPack_init) = [(4, [(2, 11)]), (8, [(5, 251)])]" by code_simp+
  have "in_range 6 9 {4, 8} = {8}" by (auto simp: in_range_def)
  then show ?thesis using get_modulus_wanted [OF refl r(1)] r by (auto simp: wanted_bits_def)
qed

text \<open>The size is not always the closest one: a client whose range lies in a gap between the sizes at hand gets
  the greatest size, however far away it is.\<close>

theorem distant_modulus:
  assumes "a < mn" "mn \<le> prefer" "prefer \<le> mx" "mx < c" "0 \<le> a"
  shows "choose_bits mn prefer mx [a, c] = c"
proof -
  have "in_range lo mx {a, c} = {}" if "mn \<le> lo" for lo using assms that by (auto simp: in_range_def)
  moreover have "Min {a, c} = a" "Max {a, c} = c" using assms by auto
  ultimately show ?thesis using choose_bits_wanted [of "[a, c]" mn "prefer" mx] assms by (simp add: wanted_bits_def)
qed

theorem distant_modulus_witness: "choose_bits 1100 1200 1300 [1024, 8192] = 8192"
  by (rule distant_modulus) simp_all

end
