(* ===== verification/Kex_Gex.thy ===== *)
theory Kex_Gex
  imports Kex_Group Primes
begin

text \<open>
  Diffie-Hellman group exchange: \<^verbatim>\<open>paramiko/kex_gex.py\<close>. The server picks the group from its pack of
  primes (\<open>Primes\<close>). As for the fixed groups, each handler is split at the point where it hands a
  message to the transport. Shown: an honest exchange succeeds and both ends hold the same secret,
  exchange hash and session identifier; the sizes that a server works with are consistent whatever the
  client asks for; the client takes no group of less than 1024 or more than 8192 bits, but a negative
  modulus makes it search for ever.
\<close>

section \<open>Definitions\<close>

definition MSG_KEXDH_GEX_REQUEST_OLD :: byte where [msg_codes]: "MSG_KEXDH_GEX_REQUEST_OLD = 30"
definition MSG_KEXDH_GEX_GROUP :: byte where [msg_codes]: "MSG_KEXDH_GEX_GROUP = 31"
definition MSG_KEXDH_GEX_INIT :: byte where [msg_codes]: "MSG_KEXDH_GEX_INIT = 32"
definition MSG_KEXDH_GEX_REPLY :: byte where [msg_codes]: "MSG_KEXDH_GEX_REPLY = 33"
definition MSG_KEXDH_GEX_REQUEST :: byte where [msg_codes]: "MSG_KEXDH_GEX_REQUEST = 34"

definition on_gex :: "(gex_state \<Rightarrow> gex_state) \<Rightarrow> ('e, 'z, 'y) kexing_scheme \<Rightarrow> ('e, 'z, 'y) kexing_scheme" where
  "on_gex f s = s\<lparr>kex_gex := f (kex_gex s)\<rparr>"

text \<open>\<^verbatim>\<open>start_kex\<close>: the message of a client. The old style is for tests only.\<close>

definition gex_request :: "bool \<Rightarrow> gex_state \<Rightarrow> py_error + bytes" where
  "gex_request old g =
     message_of (if old then [FRaw [MSG_KEXDH_GEX_REQUEST_OLD], FInt (preferred_bits g)]
       else [FRaw [MSG_KEXDH_GEX_REQUEST], FInt (min_bits g), FInt (preferred_bits g), FInt (max_bits g)])"

definition gex_start_kex ::
  "('e, 'z) lib \<Rightarrow> (nat \<Rightarrow> bytes) \<Rightarrow> bool \<Rightarrow> (('e, 'z, 'y) kexing_scheme, unit) bpy" where
  "gex_start_kex l rnd old s =
     (if server_mode s then bret () (expect_packet [MSG_KEXDH_GEX_REQUEST, MSG_KEXDH_GEX_REQUEST_OLD] s)
      else
        bbind (blift (gex_request old (kex_gex s))) (\<lambda>m.
        bbind (bmodify (on_gex (\<lambda>g. if old then g\<lparr>old_style := True\<rparr> else g))) (\<lambda>_.
        bbind (t_send_message l rnd m) (\<lambda>_.
        bmodify (expect_packet [MSG_KEXDH_GEX_GROUP])))) s)"

text \<open>\<^verbatim>\<open>_generate_x\<close>. The loop that finds the mask does not end when it starts with zero; then \<open>draws\<close> are
  the results of the calls of \<^verbatim>\<open>os.urandom\<close>.\<close>

partial_function (option) mask_loop :: "int \<Rightarrow> int \<Rightarrow> int option" where
  "mask_loop qhbyte qmask = (if qhbyte AND 0x80 \<noteq> 0 then Some qmask else mask_loop (2 * qhbyte) (qmask div 2))"

declare mask_loop.simps [code]

fun gex_draw :: "int \<Rightarrow> int \<Rightarrow> bytes list \<Rightarrow> int option" where
  "gex_draw q qmask [] = None"
| "gex_draw q qmask (d # draws) =
     (let x = inflate_long ((hd d AND word_of_int qmask) # tl d) True in
      if x > 1 \<and> x < q then Some x else gex_draw q qmask draws)"

definition gex_find_x :: "int \<Rightarrow> bytes list \<Rightarrow> int option" where
  "gex_find_x p draws =
     (let q = (p - 1) div 2; qnorm = deflate_long q False in
      case mask_loop (uint (hd qnorm)) 0xFF of None \<Rightarrow> None | Some qmask \<Rightarrow> gex_draw q qmask draws)"

definition gex_generate_x :: "int \<Rightarrow> bytes list \<Rightarrow> (('e, 'z, 'y) kexing_scheme, int) bpy" where
  "gex_generate_x p draws s =
     (case gex_find_x p draws of
        None \<Rightarrow> (Waiting, s)
      | Some x \<Rightarrow> bret x (on_gex (\<lambda>g. g\<lparr>gex_x := Some x\<rparr>) s))"

text \<open>\<^verbatim>\<open>pow(b, e, m)\<close> for any numbers, or \<^verbatim>\<open>None\<close>.\<close>

definition py_pow :: "int option \<Rightarrow> int option \<Rightarrow> int option \<Rightarrow> py_error + int" where
  "py_pow b e m =
     (case (b, e, m) of
        (Some b, Some e, Some m) \<Rightarrow> if m = 0 then Inl ValueError else Inr (pow_mod b e m)
      | _ \<Rightarrow> Inl TypeError)"

text \<open>The choice of the group by the server.\<close>

definition gex_group :: "modulus_pack \<Rightarrow> bytes list \<Rightarrow> (('e, 'z, 'y) kexing_scheme, bytes) bpy" where
  "gex_group pk rolls s =
     (if \<not> has_modulus_pack s then braise (SSHException ''Can't do server-side gex with no modulus pack'') s
      else case get_modulus pk rolls (min_bits (kex_gex s)) (preferred_bits (kex_gex s)) (max_bits (kex_gex s)) of
        None \<Rightarrow> (Waiting, s)
      | Some (Inl e) \<Rightarrow> braise e s
      | Some (Inr (g, p)) \<Rightarrow>
          bbind (bmodify (on_gex (\<lambda>x. x\<lparr>gex_g := Some g, gex_p := Some p\<rparr>))) (\<lambda>_.
          blift (message_of [FRaw [MSG_KEXDH_GEX_GROUP], FMpint p, FMpint g])) s)"

definition clamp_preferred :: "gex_state \<Rightarrow> int \<Rightarrow> int" where
  "clamp_preferred g preferredbits =
     (let n = (if preferredbits > max_bits g then max_bits g else preferredbits)
      in if n < min_bits g then min_bits g else n)"

definition clamp_bits :: "int \<Rightarrow> int \<Rightarrow> int \<Rightarrow> gex_state \<Rightarrow> gex_state" where
  "clamp_bits minbits preferredbits maxbits g =
     (let preferredbits = clamp_preferred g preferredbits;
          minbits = (if minbits > preferredbits then preferredbits else minbits);
          maxbits = (if maxbits < preferredbits then preferredbits else maxbits)
      in g\<lparr>min_bits := minbits, preferred_bits := preferredbits, max_bits := maxbits\<rparr>)"

definition gex_group_for :: "modulus_pack \<Rightarrow> bytes list \<Rightarrow> message \<Rightarrow> (('e, 'z, 'y) kexing_scheme, bytes) bpy" where
  "gex_group_for pk rolls m =
     bbind (nb (on_message get_int m)) (\<lambda>(minbits, m).
     bbind (nb (on_message get_int m)) (\<lambda>(preferredbits, m).
     bbind (nb (on_message get_int m)) (\<lambda>(maxbits, m).
     bbind (bmodify (on_gex (clamp_bits minbits preferredbits maxbits))) (\<lambda>_.
     gex_group pk rolls))))"

definition gex_parse_request ::
  "('e, 'z) lib \<Rightarrow> (nat \<Rightarrow> bytes) \<Rightarrow> modulus_pack \<Rightarrow> bytes list \<Rightarrow> message \<Rightarrow> (('e, 'z, 'y) kexing_scheme, unit) bpy" where
  "gex_parse_request l rnd pk rolls m =
     bbind (gex_group_for pk rolls m) (\<lambda>g.
     bbind (t_send_message l rnd g) (\<lambda>_.
     bmodify (expect_packet [MSG_KEXDH_GEX_INIT])))"

definition gex_parse_request_old ::
  "('e, 'z) lib \<Rightarrow> (nat \<Rightarrow> bytes) \<Rightarrow> modulus_pack \<Rightarrow> bytes list \<Rightarrow> message \<Rightarrow> (('e, 'z, 'y) kexing_scheme, unit) bpy" where
  "gex_parse_request_old l rnd pk rolls m =
     bbind (nb (on_message get_int m)) (\<lambda>(n, m).
     bbind (bmodify (on_gex (\<lambda>g. g\<lparr>preferred_bits := clamp_preferred g n\<rparr>))) (\<lambda>_.
     bbind (gex_group pk rolls) (\<lambda>g.
     bbind (t_send_message l rnd g) (\<lambda>_.
     bbind (bmodify (expect_packet [MSG_KEXDH_GEX_INIT])) (\<lambda>_.
     bmodify (on_gex (\<lambda>g. g\<lparr>old_style := True\<rparr>)))))))"

text \<open>\<^verbatim>\<open>_parse_kexdh_gex_group\<close> up to the message.\<close>

definition gex_init :: "bytes list \<Rightarrow> message \<Rightarrow> (('e, 'z, 'y) kexing_scheme, bytes) bpy" where
  "gex_init draws m =
     bbind (nb (on_message get_mpint m)) (\<lambda>(p, m).
     bbind (bmodify (on_gex (\<lambda>x. x\<lparr>gex_p := Some p\<rparr>))) (\<lambda>_.
     bbind (nb (on_message get_mpint m)) (\<lambda>(g, m).
     bbind (bmodify (on_gex (\<lambda>x. x\<lparr>gex_g := Some g\<rparr>))) (\<lambda>_.
     if bit_length p < 1024 \<or> bit_length p > 8192
     then braise (SSHException ''Server-generated gex p (don't ask) is out of range'')
     else
       bbind (gex_generate_x p draws) (\<lambda>x.
       bbind (blift (py_pow (Some g) (Some x) (Some p))) (\<lambda>e.
       bbind (bmodify (on_gex (\<lambda>x. x\<lparr>gex_e := Some e\<rparr>))) (\<lambda>_.
       blift (message_of [FRaw [MSG_KEXDH_GEX_INIT], FMpint e]))))))))"

definition gex_parse_group ::
  "('e, 'z) lib \<Rightarrow> (nat \<Rightarrow> bytes) \<Rightarrow> bytes list \<Rightarrow> message \<Rightarrow> (('e, 'z, 'y) kexing_scheme, unit) bpy" where
  "gex_parse_group l rnd draws m =
     bbind (gex_init draws m) (\<lambda>i.
     bbind (t_send_message l rnd i) (\<lambda>_.
     bmodify (expect_packet [MSG_KEXDH_GEX_REPLY])))"

text \<open>The hash of \<open>V_C || V_S || I_C || I_S || K_S || min || n || max || p || g || e || f || K\<close>.\<close>

definition gex_hash ::
  "('e, 'z) lib \<Rightarrow> hash_class \<Rightarrow> pystr \<Rightarrow> pystr \<Rightarrow> bytes option \<Rightarrow> bytes option \<Rightarrow> bytes \<Rightarrow> gex_state \<Rightarrow> int
   \<Rightarrow> py_error + bytes" where
  "gex_hash l h v_c v_s i_c i_s k_s x K =
     (case (i_c, i_s) of
        (Some i_c, Some i_s) \<Rightarrow>
          (case (gex_p x, gex_g x, gex_e x, gex_f x) of
             (Some p, Some g, Some e, Some f) \<Rightarrow>
               rbind (message_of ([FString v_c, FString v_s, FString i_c, FString i_s, FString k_s]
                   @ (if old_style x then [] else [FInt (min_bits x)]) @ [FInt (preferred_bits x)]
                   @ (if old_style x then [] else [FInt (max_bits x)])
                   @ [FMpint p, FMpint g, FMpint e, FMpint f, FMpint K])) (\<lambda>m. Inr (digest l h m))
           | _ \<Rightarrow> Inl TypeError)
      | _ \<Rightarrow> Inl OtherException)"

text \<open>\<^verbatim>\<open>(v < 1) or (v > self.p - 1)\<close>.\<close>

definition gex_out_of_range :: "int \<Rightarrow> int option \<Rightarrow> py_error + bool" where
  "gex_out_of_range v p = (if v < 1 then Inr True else case p of None \<Rightarrow> Inl TypeError | Some p \<Rightarrow> Inr (v > p - 1))"

text \<open>\<^verbatim>\<open>_parse_kexdh_gex_init\<close> up to the reply: the numbers, then the hash and the signature.\<close>

definition gex_powers :: "bytes list \<Rightarrow> message \<Rightarrow> (('e, 'z, 'y) kexing_scheme, int) bpy" where
  "gex_powers draws m =
     bbind (nb (on_message get_mpint m)) (\<lambda>(e, m).
     bbind (bmodify (on_gex (\<lambda>x. x\<lparr>gex_e := Some e\<rparr>))) (\<lambda>_ s.
     bbind (blift (gex_out_of_range e (gex_p (kex_gex s)))) (\<lambda>bad.
     if bad then braise (SSHException ''Client kex e is out of range'')
     else
       bbind (gex_generate_x (the (gex_p (kex_gex s))) draws) (\<lambda>x.
       bbind (blift (py_pow (gex_g (kex_gex s)) (Some x) (gex_p (kex_gex s)))) (\<lambda>f.
       bbind (bmodify (on_gex (\<lambda>x. x\<lparr>gex_f := Some f\<rparr>))) (\<lambda>_.
       blift (py_pow (Some e) (Some x) (gex_p (kex_gex s))))))) s))"

definition gex_signed :: "('e, 'z) lib \<Rightarrow> int \<Rightarrow> (('e, 'z, 'y) kexing_scheme, bytes) py" where
  "gex_signed l K s =
     (case (get_server_key s, host_key_type s) of
        (Some key, Some ty) \<Rightarrow>
          pbind (plift (gex_hash l (kex_hash s) (remote_version s) (local_version s) (remote_kex_init s)
                          (local_kex_init s) (hk_blob key) (kex_gex s) K)) (\<lambda>H.
          pbind (pmodify (set_K_H K H)) (\<lambda>_.
          pbind (plift (sign_ssh_data l key H ty)) (\<lambda>sig. \<lambda>s.
          plift (message_of [FRaw [MSG_KEXDH_GEX_REPLY], FString (hk_blob key), FMpint (the (gex_f (kex_gex s))), FString sig]) s))) s
      | _ \<Rightarrow> (Inl OtherException, s))"

definition gex_reply :: "('e, 'z) lib \<Rightarrow> bytes list \<Rightarrow> message \<Rightarrow> (('e, 'z, 'y) kexing_scheme, bytes) bpy" where
  "gex_reply l draws m = bbind (gex_powers draws m) (\<lambda>K. nb (gex_signed l K))"

definition gex_parse_init ::
  "('e, 'z) lib \<Rightarrow> (nat \<Rightarrow> bytes) \<Rightarrow> bytes list \<Rightarrow> message \<Rightarrow> (('e, 'z, 'y) kexing_scheme, unit) bpy" where
  "gex_parse_init l rnd draws m =
     bbind (gex_reply l draws m) (\<lambda>r.
     bbind (t_send_message l rnd r) (\<lambda>_.
     activate_outbound l rnd))"

text \<open>\<^verbatim>\<open>_parse_kexdh_gex_reply\<close> up to \<^verbatim>\<open>_set_K_H\<close>.\<close>

definition gex_reply_secret :: "('e, 'z) lib \<Rightarrow> message \<Rightarrow> (('e, 'z, 'y) kexing_scheme, bytes \<times> bytes) py" where
  "gex_reply_secret l m =
     pbind (on_message get_string m) (\<lambda>(host_key, m).
     pbind (on_message get_mpint m) (\<lambda>(f, m).
     pbind (pmodify (on_gex (\<lambda>x. x\<lparr>gex_f := Some f\<rparr>))) (\<lambda>_.
     pbind (on_message get_string m) (\<lambda>(sig, m). \<lambda>s.
     pbind (plift (gex_out_of_range f (gex_p (kex_gex s)))) (\<lambda>bad.
     if bad then praise (SSHException ''Server kex f is out of range'')
     else
       pbind (plift (py_pow (Some f) (gex_x (kex_gex s)) (gex_p (kex_gex s)))) (\<lambda>K. \<lambda>s.
       pbind (plift (gex_hash l (kex_hash s) (local_version s) (remote_version s) (local_kex_init s)
                       (remote_kex_init s) host_key (kex_gex s) K)) (\<lambda>H.
       pbind (pmodify (set_K_H K H)) (\<lambda>_.
       pret (host_key, sig))) s)) s))))"

definition gex_parse_reply ::
  "('e, 'z) lib \<Rightarrow> (nat \<Rightarrow> bytes) \<Rightarrow> message \<Rightarrow> (('e, 'z, 'y) kexing_scheme, unit) bpy" where
  "gex_parse_reply l rnd m =
     bbind (nb (gex_reply_secret l m)) (\<lambda>(host_key, sig).
     bbind (nb (verify_key l host_key sig)) (\<lambda>_.
     activate_outbound l rnd))"

definition gex_parse_next ::
  "('e, 'z) lib \<Rightarrow> (nat \<Rightarrow> bytes) \<Rightarrow> modulus_pack \<Rightarrow> bytes list \<Rightarrow> bytes list \<Rightarrow> byte \<Rightarrow> message
   \<Rightarrow> (('e, 'z, 'y) kexing_scheme, unit) bpy" where
  "gex_parse_next l rnd pk rolls draws ptype m =
     (if ptype = MSG_KEXDH_GEX_REQUEST then gex_parse_request l rnd pk rolls m
      else if ptype = MSG_KEXDH_GEX_GROUP then gex_parse_group l rnd draws m
      else if ptype = MSG_KEXDH_GEX_INIT then gex_parse_init l rnd draws m
      else if ptype = MSG_KEXDH_GEX_REPLY then gex_parse_reply l rnd m
      else if ptype = MSG_KEXDH_GEX_REQUEST_OLD then gex_parse_request_old l rnd pk rolls m
      else braise (SSHException ''KexGex asked to handle packet type''))"

section \<open>The secret number\<close>

lemma mask_loop_value:
  assumes "0 < h" "h < 256"
  shows "\<exists>j. mask_loop h m = Some (m div 2 ^ j) \<and> 128 \<le> h * 2 ^ j \<and> h * 2 ^ j < 256"
  using assms
proof (induction "nat (256 - h)" arbitrary: h m rule: less_induct)
  case less
  show ?case
  proof (cases "h < 128")
    case True
    with less.prems obtain j where "mask_loop (2 * h) (m div 2) = Some (m div 2 div 2 ^ j)" "128 \<le> 2 * h * 2 ^ j" "2 * h * 2 ^ j < 256"
      using less.hyps [of "2 * h" "m div 2"] by auto
    with True less.prems show ?thesis
      by (subst mask_loop.simps) (auto simp: and_128 zdiv_zmult2_eq intro!: exI [of _ "Suc j"])
  next
    case False
    with less.prems show ?thesis by (subst mask_loop.simps) (auto simp: and_128 intro!: exI [of _ 0])
  qed
qed

lemma gex_draw_bounds: "gex_draw q m draws = Some x \<Longrightarrow> 1 < x \<and> x < q"
  by (induction draws) (auto simp: Let_def split: if_splits)

lemma gex_find_x_bounds: "gex_find_x p draws = Some x \<Longrightarrow> 1 < x \<and> x < (p - 1) div 2"
  by (auto simp: gex_find_x_def Let_def dest: gex_draw_bounds split: option.splits)

lemma gex_find_x_small: "p \<le> 6 \<Longrightarrow> gex_find_x p draws = None"
  using gex_find_x_bounds [of p draws] by (cases "gex_find_x p draws") auto

lemma masked_byte:
  assumes "uint (b :: byte) * 2 ^ j < 256"
  shows "b AND word_of_int (255 div 2 ^ j) = b"
proof (cases "b = 0")
  case False
  then have "uint b \<noteq> 0" by (simp add: word_uint_eq_iff)
  then have "1 \<le> uint b" using uint_byte_bounds(1) [of b] by linarith
  then have le: "1 * (2 :: int) ^ j \<le> uint b * 2 ^ j" by (rule mult_right_mono) simp
  have "(2 :: int) ^ j < 2 ^ 8" using le_less_trans [OF le assms] by simp
  then have j: "j < 8" by (rule power_less_imp_less_exp [rotated]) simp
  then have m: "255 div 2 ^ j = (mask (8 - j) :: int)" by (auto simp: less_Suc_eq numeral_eq_Suc mask_eq_exp_minus_1)
  have "uint b * 2 ^ j < 2 ^ (8 - j) * 2 ^ j" using assms j by (simp flip: power_add)
  then have "uint b < 2 ^ (8 - j)" by simp
  then have "uint (take_bit (8 - j) b) = uint b" by (simp add: unsigned_take_bit_eq take_bit_int_eq_self)
  then have "take_bit (8 - j) b = b" by (simp only: word_uint_eq_iff)
  then show ?thesis by (simp add: m take_bit_eq_mask of_int_mask_eq)
qed simp

lemma gex_find_x_all:
  assumes x: "1 < x" "x < (p - 1) div 2"
  shows "\<exists>d. gex_find_x p [d] = Some x"
proof -
  define q where "q = (p - 1) div 2"
  have q: "0 < q" "x < q" using x by (simp_all add: q_def)
  obtain n s where d: "deflate_digits q = (n, s)" by force
  have s: "deflate_long q False = s" "be_dec s = q" "s \<noteq> []"
    using deflate_long_digits(1) [OF d] deflate_unsigned_value [of q] deflate_digits [OF d] q
    by (auto simp: inflate_long_positive)
  obtain h t where ht: "s = h # t" using s(3) by (cases s) auto
  have "h \<noteq> 0 \<or> t = []"
    using deflate_digits [OF d] q s(2) ht be_dec_bounds(2) [of s] by (auto simp: signed_value_def)
  then have "h \<noteq> 0" using s(2) q(1) ht by (auto simp: be_dec_Cons)
  then have "0 < uint h" "uint h < 256" using uint_byte_bounds [of h] by (auto simp: word_uint_eq_iff order_less_le)
  then obtain j where j: "mask_loop (uint h) 255 = Some (255 div 2 ^ j)" "uint h * 2 ^ j < 256"
    using mask_loop_value [of "uint h" 255] by auto
  define d where "d = be_enc (length s) x"
  have "x < 256 ^ length s" using q s(2) be_dec_bounds(2) [of s] by simp
  then have dd: "be_dec d = x" "length d = length s" using x by (simp_all add: d_def)
  obtain b u where bu: "d = b # u" using dd(2) ht by (cases d) auto
  have len: "length u = length t" using dd(2) bu ht by simp
  have "uint b * 256 ^ length t \<le> x" using dd(1) be_dec_bounds(1) [of u] by (simp add: bu be_dec_Cons len)
  also have "x < (uint h + 1) * 256 ^ length t"
    using q(2) s(2) be_dec_bounds(2) [of t] by (simp add: ht be_dec_Cons algebra_simps)
  finally have "uint b \<le> uint h" by simp
  then have "uint b * 2 ^ j \<le> uint h * 2 ^ j" by (rule mult_right_mono) simp
  then have "uint b * 2 ^ j < 256" using j(2) by (rule le_less_trans)
  then have "b AND word_of_int (255 div 2 ^ j) = b" by (rule masked_byte)
  then have "gex_find_x p [d] = Some x"
    using j(1) dd(1) x q by (simp add: gex_find_x_def q_def [symmetric] s(1) ht bu inflate_long_positive Let_def)
  then show ?thesis ..
qed

text \<open>The secret number of group exchange is in range, and none is excluded: for a modulus with
  \<open>p > 6\<close> and every number between 1 and \<open>(p - 1) / 2\<close> there are random bytes with which
  \<^verbatim>\<open>_generate_x\<close> returns it; in particular the search can end.\<close>

theorem gex_x_range:
  "(\<forall>draws x. gex_find_x p draws = Some x \<longrightarrow> 1 < x \<and> x < (p - 1) div 2)
   \<and> (\<forall>x. 1 < x \<longrightarrow> x < (p - 1) div 2 \<longrightarrow> (\<exists>d. gex_find_x p [d] = Some x))"
  by (simp add: gex_find_x_bounds gex_find_x_all)

theorem gex_x_range_witness: "\<exists>d. gex_find_x 23 [d] = Some 7"
  using gex_x_range [of 23] by simp

section \<open>The group\<close>

lemma bit_length_bound: "0 \<le> p \<Longrightarrow> bit_length p \<le> 8192 \<Longrightarrow> p < 256 ^ 1024"
proof -
  assume p: "0 \<le> p" "bit_length p \<le> 8192"
  have "p < 2 ^ nat (bit_length p)" using p(1) by (rule bit_length_less)
  also have "\<dots> \<le> (2 :: int) ^ 8192" using p(2) by (intro power_increasing) simp_all
  also have "\<dots> = 256 ^ 1024" by (simp flip: power_mult [of 2 8 1024, simplified])
  finally show ?thesis .
qed

lemma bit_length_big: "1024 \<le> bit_length p \<Longrightarrow> 0 < p \<Longrightarrow> 6 < p"
proof (rule ccontr)
  assume p: "1024 \<le> bit_length p" "0 < p" "\<not> 6 < p"
  then have "bit_length p \<in> bit_length ` {1, 2, 3, 4, 5, 6}" by (intro imageI) auto
  then show False using p(1) by (simp add: bit_length_def nat_bits.simps)
qed

lemma gex_request_ints:
  assumes "u32_ok a" "u32_ok b" "u32_ok c"
  shows "on_message get_int (Message_init (Some (be_enc 4 a @ be_enc 4 b @ be_enc 4 c))) t =
           (Inr (a, reading (be_enc 4 a) (be_enc 4 b @ be_enc 4 c)), t)"
    "on_message get_int (reading (be_enc 4 a) (be_enc 4 b @ be_enc 4 c)) t =
           (Inr (b, reading (be_enc 4 a @ be_enc 4 b) (be_enc 4 c)), t)"
    "on_message get_int (reading (be_enc 4 a @ be_enc 4 b) (be_enc 4 c)) t =
           (Inr (c, reading (be_enc 4 a @ be_enc 4 b @ be_enc 4 c) []), t)"
  using int_codec.get_enc [OF assms(1), of "[]"] int_codec.get_enc [OF assms(2)] int_codec.get_enc [OF assms(3), where post = "[]"]
  by (simp_all add: on_message_def Message_init_tl)

lemma gex_group_mpints:
  assumes "mpint_ok a" "mpint_ok b"
  shows "on_message get_mpint (Message_init (Some (enc_mpint a @ enc_mpint b))) t = (Inr (a, reading (enc_mpint a) (enc_mpint b)), t)"
    "on_message get_mpint (reading (enc_mpint a) (enc_mpint b)) t = (Inr (b, reading (enc_mpint a @ enc_mpint b) []), t)"
  using mpint_codec.get_enc [OF assms(1), of "[]"] mpint_codec.get_enc [OF assms(2), where post = "[]"]
  by (simp_all add: on_message_def Message_init_tl)

text \<open>Whatever a client asks for, the server picks the group by consistent limits: on a pack of primes read
  from any file the modulus that it sends has the least size at hand from the preferred one up to the
  maximum, else the greatest from the minimum up, else the nearest end of the list, where the preferred
  size is the client's, moved into the range from 1024 to 8192, and minimum and maximum are the
  client's, moved so that they contain it.\<close>

theorem server_group_wanted:
  assumes "u32_ok a" "u32_ok b" "u32_ok c" "kex_gex s = KexGex_init" "pk = read_moduli ls pk0"
    "gex_group_for pk rolls (Message_init (Some (be_enc 4 a @ be_enc 4 b @ be_enc 4 c))) s = (Done (Inr m), s')"
  shows "\<exists>n g p. n = max 1024 (min b 8192) \<and> gex_p (kex_gex s') = Some p \<and> gex_g (kex_gex s') = Some g \<and>
    min_bits (kex_gex s') = min a n \<and> preferred_bits (kex_gex s') = n \<and> max_bits (kex_gex s') = max c n \<and>
    bit_length p = wanted_bits (min a n) n (max c n) (fst ` set (pack pk))"
proof -
  define n where "n = max 1024 (min b 8192)"
  define g0 where "g0 = clamp_bits a b c KexGex_init"
  have g0: "min_bits g0 = min a n" "preferred_bits g0 = n" "max_bits g0 = max c n"
    by (auto simp: g0_def clamp_bits_def clamp_preferred_def KexGex_init_def Let_def n_def)
  from assms(6) have "gex_group pk rolls (s\<lparr>kex_gex := g0\<rparr>) = (Done (Inr m), s')"
    by (simp add: gex_group_for_def nb_def gex_request_ints [OF assms(1-3)] py_monad on_gex_def assms(4) g0_def)
  then obtain g p where r: "get_modulus pk rolls (min a n) n (max c n) = Some (Inr (g, p))"
    "s' = s\<lparr>kex_gex := g0\<lparr>gex_g := Some g, gex_p := Some p\<rparr>\<rparr>"
    by (auto simp: gex_group_def py_monad g0 on_gex_def split: if_splits option.splits sum.splits)
  from get_modulus_wanted [OF assms(5) r(1)] have "bit_length p = wanted_bits (min a n) n (max c n) (fst ` set (pack pk))"
    by (auto split: if_splits)
  then show ?thesis using g0 by (intro exI [of _ n] exI [of _ g] exI [of _ p] conjI n_def) (simp_all add: r(2))
qed

definition demo_gexing :: "bool \<Rightarrow> (byte, unit) kexing" where
  "demo_gexing server = (demo_dh server)\<lparr>kex_engine := Some KexGexSHA256, has_modulus_pack := True\<rparr>"

lemma demo_gexing_gex: "kex_gex (demo_gexing b) = KexGex_init"
  by (simp add: demo_gexing_def demo_dh_def demo_keyed_simps)

theorem server_group_wanted_witness:
  "\<exists>m s' p. gex_group_for (read_moduli demo_moduli ModulusPack_init) [[]]
       (Message_init (Some (be_enc 4 1 @ be_enc 4 5000 @ be_enc 4 100))) (demo_gexing True) = (Done (Inr m), s')
    \<and> max_bits (kex_gex s') = 5000 \<and> gex_p (kex_gex s') = Some p \<and> bit_length p = 8"
proof -
  define pk where "pk = read_moduli demo_moduli ModulusPack_init"
  have r: "get_modulus pk [[]] 1 5000 5000 = Some (Inr (5, 251))" "fst ` set (pack pk) = {4, 8}"
    unfolding pk_def by code_simp+
  have "mpint_ok 251" "mpint_ok 5" by (rule mpint_ok_small [of _ 1]; simp)+
  then have m: "message_of [FRaw [MSG_KEXDH_GEX_GROUP], FMpint 251, FMpint 5] = Inr (MSG_KEXDH_GEX_GROUP # enc_mpint 251 @ enc_mpint 5)"
    by (subst message_of_ok) (simp_all add: enc_fields_def)
  have u: "u32_ok 1" "u32_ok 5000" "u32_ok 100" by (simp_all add: u32_ok_def)
  have c: "clamp_bits 1 5000 100 KexGex_init = KexGex_init\<lparr>min_bits := 1, preferred_bits := 5000, max_bits := 5000\<rparr>"
    by (simp add: clamp_bits_def clamp_preferred_def KexGex_init_def)
  have "has_modulus_pack (demo_gexing True)" by (simp add: demo_gexing_def)
  then obtain m s' where g: "gex_group_for pk [[]] (Message_init (Some (be_enc 4 1 @ be_enc 4 5000 @ be_enc 4 100))) (demo_gexing True) = (Done (Inr m), s')"
    using r(1) m by (simp add: gex_group_for_def gex_group_def nb_def gex_request_ints [OF u] py_monad on_gex_def demo_gexing_gex c)
  have "in_range (min 1 5000) (max 100 5000) {4, 8} = {4, 8}" "in_range 5000 (max 100 5000) {4, 8} = {}" by (auto simp: in_range_def)
  then have "wanted_bits (min 1 5000) 5000 (max 100 5000) {4, 8} = 8" by (simp add: wanted_bits_def)
  with server_group_wanted [OF u demo_gexing_gex pk_def g] r(2) g show ?thesis by (auto simp: pk_def)
qed

section \<open>An honest exchange\<close>

lemma coprime_pow_mod:
  assumes "coprime g p" "1 < p"
  shows "1 \<le> pow_mod g x p" "pow_mod g x p \<le> p - 1"
proof -
  have "coprime (g ^ nat x) p" using assms(1) by simp
  then have "\<not> p dvd g ^ nat x" using assms(2) coprime_common_divisor [of "g ^ nat x" p p] by auto
  then have "g ^ nat x mod p \<noteq> 0" by (simp add: dvd_eq_mod_eq_0)
  moreover have "0 \<le> g ^ nat x mod p" "g ^ nat x mod p < p" using assms(2) by simp_all
  ultimately show "1 \<le> pow_mod g x p" "pow_mod g x p \<le> p - 1" by (simp_all add: pow_mod_def)
qed

text \<open>A group as it should be.\<close>

definition group_ok :: "int \<Rightarrow> int \<Rightarrow> bool" where
  "group_ok g p \<longleftrightarrow> 1024 \<le> bit_length p \<and> bit_length p \<le> 8192 \<and> 0 < g \<and> g < p \<and> coprime g p"

lemma group_ok_mpint: "group_ok g p \<Longrightarrow> 0 \<le> n \<Longrightarrow> n \<le> p \<Longrightarrow> mpint_ok n"
  using bit_length_bound [of p] by (intro mpint_ok_small [of _ 1024]) (simp_all add: group_ok_def)

lemma group_ok_power:
  assumes "group_ok g p"
  shows "1 \<le> pow_mod g x p" "pow_mod g x p \<le> p - 1" "mpint_ok (pow_mod g x p)" "p \<noteq> 0"
proof -
  have p: "coprime g p" "1 < p" using assms by (auto simp: group_ok_def)
  show "1 \<le> pow_mod g x p" "pow_mod g x p \<le> p - 1" by (rule coprime_pow_mod [OF p])+
  then show "mpint_ok (pow_mod g x p)" by (intro group_ok_mpint [OF assms]) simp_all
  show "p \<noteq> 0" using p by simp
qed

lemma gex_request_done:
  "gex_request False KexGex_init = Inr (MSG_KEXDH_GEX_REQUEST # be_enc 4 1024 @ be_enc 4 2048 @ be_enc 4 8192)"
  unfolding gex_request_def by (simp, subst message_of_ok) (simp_all add: enc_fields_def u32_ok_def KexGex_init_def)

lemma gex_group_done:
  assumes "kex_gex s = KexGex_init" "has_modulus_pack s" "get_modulus pk rolls 1024 2048 8192 = Some (Inr (g, p))" "group_ok g p"
  shows "gex_group_for pk rolls (Message_init (Some (be_enc 4 1024 @ be_enc 4 2048 @ be_enc 4 8192))) s =
    (Done (Inr (MSG_KEXDH_GEX_GROUP # enc_mpint p @ enc_mpint g)), s\<lparr>kex_gex := KexGex_init\<lparr>gex_g := Some g, gex_p := Some p\<rparr>\<rparr>)"
proof -
  have u: "u32_ok 1024" "u32_ok 2048" "u32_ok 8192" by (simp_all add: u32_ok_def)
  have c: "clamp_bits 1024 2048 8192 KexGex_init = KexGex_init"
    by (simp add: clamp_bits_def clamp_preferred_def KexGex_init_def)
  have "message_of [FRaw [MSG_KEXDH_GEX_GROUP], FMpint p, FMpint g] = Inr (MSG_KEXDH_GEX_GROUP # enc_mpint p @ enc_mpint g)"
    using assms(4) group_ok_mpint [OF assms(4)] by (subst message_of_ok) (simp_all add: enc_fields_def group_ok_def)
  moreover have "min_bits KexGex_init = 1024" "preferred_bits KexGex_init = 2048" "max_bits KexGex_init = 8192"
    by (simp_all add: KexGex_init_def)
  ultimately show ?thesis
    using assms by (simp add: gex_group_for_def gex_group_def nb_def gex_request_ints [OF u] py_monad on_gex_def c)
qed

lemma gex_init_done:
  assumes "kex_gex c = KexGex_init" "group_ok g p" "gex_find_x p draws = Some x"
  shows "gex_init draws (Message_init (Some (enc_mpint p @ enc_mpint g))) c =
    (Done (Inr (MSG_KEXDH_GEX_INIT # enc_mpint (pow_mod g x p))),
     c\<lparr>kex_gex := KexGex_init\<lparr>gex_p := Some p, gex_g := Some g, gex_x := Some x, gex_e := Some (pow_mod g x p)\<rparr>\<rparr>)"
proof -
  note r = group_ok_power(1-3) [OF assms(2), of x] group_ok_power(4) [OF assms(2)]
  have m: "mpint_ok p" "mpint_ok g" using assms(2) group_ok_mpint [OF assms(2)] by (auto simp: group_ok_def)
  have "message_of [FRaw [MSG_KEXDH_GEX_INIT], FMpint (pow_mod g x p)] = Inr (MSG_KEXDH_GEX_INIT # enc_mpint (pow_mod g x p))"
    using r by (subst message_of_ok) (simp_all add: enc_fields_def)
  then show ?thesis
    using assms r by (simp add: gex_init_def nb_def gex_group_mpints [OF m] py_monad on_gex_def group_ok_def gex_generate_x_def py_pow_def)
qed

lemma gex_powers_done:
  assumes "gex_p (kex_gex s) = Some p" "gex_g (kex_gex s) = Some g" "group_ok g p" "gex_find_x p draws = Some y"
    "1 \<le> e" "e \<le> p - 1" "mpint_ok e"
  shows "gex_powers draws (Message_init (Some (enc_mpint e))) s =
    (Done (Inr (pow_mod e y p)),
     s\<lparr>kex_gex := kex_gex s\<lparr>gex_e := Some e, gex_x := Some y, gex_f := Some (pow_mod g y p)\<rparr>\<rparr>)"
  using assms group_ok_power [OF assms(3)] mpint_message [OF assms(7)]
  by (simp add: gex_powers_def nb_def on_message_def py_monad on_gex_def gex_out_of_range_def gex_generate_x_def py_pow_def)

lemma gex_hash_done:
  assumes "list_all string_ok [v_c, v_s, i_c, i_s, k_s]" "mpint_ok K" "list_all u32_ok [min_bits x, preferred_bits x, max_bits x]"
    "gex_p x = Some p" "gex_g x = Some g" "gex_e x = Some e" "gex_f x = Some f" "list_all mpint_ok [p, g, e, f]"
  shows "\<exists>b. gex_hash l h v_c v_s (Some i_c) (Some i_s) k_s x K = Inr (digest l h b)"
  using message_of_ok [of "[FString v_c, FString v_s, FString i_c, FString i_s, FString k_s]
      @ (if old_style x then [] else [FInt (min_bits x)]) @ [FInt (preferred_bits x)]
      @ (if old_style x then [] else [FInt (max_bits x)]) @ [FMpint p, FMpint g, FMpint e, FMpint f, FMpint K]"] assms
  by (auto simp: gex_hash_def rbind_def)

lemma gex_signed_done:
  assumes "get_server_key s = Some key" "host_key_type s = Some ty" "string_ok (hk_blob key)" "string_ok sig"
    "gex_f (kex_gex s) = Some f" "mpint_ok f" "sign_ssh_data l key H ty = Inr sig"
    "gex_hash l (kex_hash s) (remote_version s) (local_version s) (remote_kex_init s) (local_kex_init s)
       (hk_blob key) (kex_gex s) K = Inr H"
  shows "gex_signed l K s =
    (Inr (MSG_KEXDH_GEX_REPLY # enc_string (hk_blob key) @ enc_mpint f @ enc_string sig), set_K_H K H s)"
proof -
  have "message_of [FRaw [MSG_KEXDH_GEX_REPLY], FString (hk_blob key), FMpint f, FString sig] =
      Inr (MSG_KEXDH_GEX_REPLY # enc_string (hk_blob key) @ enc_mpint f @ enc_string sig)"
    using assms by (subst message_of_ok) (simp_all add: enc_fields_def)
  moreover have "kex_gex (set_K_H K H s) = kex_gex s" by (auto simp: set_K_H_def Let_def)
  ultimately show ?thesis using assms by (simp add: gex_signed_def pbind_def plift_def pmodify_def)
qed

lemma gex_secret_done:
  assumes "string_ok blob" "mpint_ok f" "string_ok sig" "gex_p (kex_gex c) = Some p" "gex_x (kex_gex c) = Some x"
    "1 \<le> f" "f \<le> p - 1"
    "gex_hash l (kex_hash c) (local_version c) (remote_version c) (local_kex_init c) (remote_kex_init c)
       blob ((kex_gex c)\<lparr>gex_f := Some f\<rparr>) (pow_mod f x p) = Inr H"
  shows "gex_reply_secret l (Message_init (Some (enc_string blob @ enc_mpint f @ enc_string sig))) c =
    (Inr (blob, sig), set_K_H (pow_mod f x p) H (c\<lparr>kex_gex := (kex_gex c)\<lparr>gex_f := Some f\<rparr>\<rparr>))"
proof -
  have "kex_hash (c\<lparr>kex_gex := g\<rparr>) = kex_hash c" for g by (simp add: kex_hash_def)
  with assms(4-8) show ?thesis
    by (simp add: gex_reply_secret_def reply_message [OF assms(1-3), unfolded get_binary_string] pbind_def pmodify_def plift_def pret_def on_gex_def gex_out_of_range_def py_pow_def)
qed

text \<open>What the transport changes while a message is on its way.\<close>

definition underway :: "('e, 'z, hash_class) packetizer \<Rightarrow> byte list \<Rightarrow> ('e, 'z, 'y) kexing_scheme \<Rightarrow> ('e, 'z, 'y) kexing_scheme" where
  "underway p e s = s\<lparr>pktz := p, expected_packet := e\<rparr>"

text \<open>C16: group exchange. Two ends that agreed on it, a server with a pack of primes and any random numbers, go
  through the five steps: request, group, the client's value, reply, and the end of the exchange at the
  client. When the group is a good one (\<open>group_ok\<close>) and the host key signs, every step succeeds, both
  ends hold the secret \<open>g^(x y) mod p\<close>, the same exchange hash and the same session identifier, the
  signature that reaches the client is that of the agreed host key over this hash, and in both
  directions they are ready for new keys in step.\<close>

theorem gex_exchange_agrees:
  assumes ready: "ready_for_kex c0 s0 mc ms" and fresh: "kex_gex c0 = KexGex_init" "kex_gex s0 = KexGex_init"
    and pk: "has_modulus_pack s0" "get_modulus pk rolls 1024 2048 8192 = Some (Inr (g, p))" "group_ok g p"
    and xy: "gex_find_x p cdraws = Some x" "gex_find_x p sdraws = Some y"
    and key: "get_server_key s0 = Some key" "host_key_type s0 = Some ty" "string_ok (hk_blob key)"
    and sign: "\<And>b. \<exists>sig. sign_ssh_data l key (digest l (kex_hash c0) b) ty = Inr sig \<and> string_ok sig"
  shows "\<exists>m1 m2 m3 m4 s1 s2 c1 c2 sig H.
      gex_request False (kex_gex c0) = Inr m1 \<and>
      gex_group_for pk rolls (Message_init (Some (tl m1))) (underway p1 e1 s0) = (Done (Inr m2), s1) \<and>
      gex_init cdraws (Message_init (Some (tl m2))) (underway p2 e2 c0) = (Done (Inr m3), c1) \<and>
      gex_reply l sdraws (Message_init (Some (tl m3))) (underway p3 e3 s1) = (Done (Inr m4), s2) \<and>
      gex_reply_secret l (Message_init (Some (tl m4))) (underway p4 e4 c1) = (Inr (hk_blob key, sig), c2) \<and>
      t_K c2 = Some (pow_mod g (x * y) p) \<and> t_K s2 = t_K c2 \<and> t_H c2 = Some H \<and> t_H s2 = Some H \<and>
      sign_ssh_data l key H ty = Inr sig \<and>
      session_id c2 = Some (case session_id c0 of None \<Rightarrow> H | Some i \<Rightarrow> i) \<and> session_id s2 = session_id c2 \<and>
      keys_shared c2 s2 \<and> keys_shared s2 c2"
proof -
  have nn: "0 \<le> x" "0 \<le> y" using gex_find_x_bounds [OF xy(1)] gex_find_x_bounds [OF xy(2)] by auto
  define e f K where d: "e = pow_mod g x p" "f = pow_mod g y p" "K = pow_mod g (x * y) p"
  note pw = group_ok_power [OF pk(3)]
  have fr: "1 \<le> f" "f \<le> p - 1" using pw by (simp_all add: d)
  have K: "pow_mod e y p = K" "pow_mod f x p = K" using pow_mod_commute [OF nn] by (simp_all add: d)
  have vs: "local_version c0 = remote_version s0" "remote_version c0 = local_version s0" "string_ok (local_version c0)"
    "string_ok (local_version s0)" "local_kex_init c0 = Some mc" "remote_kex_init s0 = Some mc"
    "local_kex_init s0 = Some ms" "remote_kex_init c0 = Some ms" "string_ok mc" "string_ok ms"
    using ready unfolding ready_for_kex_def by blast+
  define G where "G z = KexGex_init\<lparr>gex_p := Some p, gex_g := Some g, gex_x := Some z, gex_e := Some e, gex_f := Some f\<rparr>" for z
  have mp: "mpint_ok p" "mpint_ok g" "mpint_ok e" "mpint_ok f" "mpint_ok K"
    using group_ok_mpint [OF pk(3)] pk(3) pw by (auto simp: d group_ok_def)
  have Gf: "gex_p (G z) = Some p" "gex_g (G z) = Some g" "gex_e (G z) = Some e" "gex_f (G z) = Some f"
    "old_style (G z) = False" "min_bits (G z) = 1024" "preferred_bits (G z) = 2048" "max_bits (G z) = 8192" for z
    by (simp_all add: G_def KexGex_init_def)
  have G: "gex_hash l h v w i j b (G x) z = gex_hash l h v w i j b (G y) z" for h v w i j b z
    unfolding gex_hash_def by (simp only: Gf)
  obtain b H where b: "H = digest l (kex_hash c0) b" and H: "gex_hash l (kex_hash c0) (local_version c0) (local_version s0)
      (Some mc) (Some ms) (hk_blob key) (G x) K = Inr H"
    using gex_hash_done [where l = l and h = "kex_hash c0" and K = K and x = "G x"] vs key(3) mp
    by (force simp: G_def KexGex_init_def u32_ok_def)
  obtain sig where sig: "sign_ssh_data l key H ty = Inr sig" "string_ok sig" using sign b by blast
  define s1 where "s1 = (underway p1 e1 s0)\<lparr>kex_gex := KexGex_init\<lparr>gex_g := Some g, gex_p := Some p\<rparr>\<rparr>"
  define c1 where "c1 = (underway p2 e2 c0)\<lparr>kex_gex := KexGex_init\<lparr>gex_p := Some p, gex_g := Some g, gex_x := Some x, gex_e := Some e\<rparr>\<rparr>"
  define s2 where "s2 = (underway p3 e3 s1)\<lparr>kex_gex := G y\<rparr>"
  define c2 where "c2 = (underway p4 e4 c1)\<lparr>kex_gex := G x\<rparr>"
  have 1: "gex_group_for pk rolls (Message_init (Some (be_enc 4 1024 @ be_enc 4 2048 @ be_enc 4 8192))) (underway p1 e1 s0) =
      (Done (Inr (MSG_KEXDH_GEX_GROUP # enc_mpint p @ enc_mpint g)), s1)"
    unfolding s1_def by (rule gex_group_done) (use fresh pk in \<open>simp_all add: underway_def\<close>)
  have 2: "gex_init cdraws (Message_init (Some (enc_mpint p @ enc_mpint g))) (underway p2 e2 c0) =
      (Done (Inr (MSG_KEXDH_GEX_INIT # enc_mpint e)), c1)"
    unfolding c1_def d by (rule gex_init_done) (use fresh pk xy in \<open>simp_all add: underway_def\<close>)
  have 3: "gex_powers sdraws (Message_init (Some (enc_mpint e))) (underway p3 e3 s1) = (Done (Inr K), s2)"
    using gex_powers_done [where s = "underway p3 e3 s1" and g = g and p = p and y = y and e = e and draws = sdraws] pk xy pw mp K
    by (simp add: s2_def s1_def underway_def G_def d)
  have S: "get_server_key s2 = Some key" "host_key_type s2 = Some ty" "kex_gex s2 = G y" "kex_hash s2 = kex_hash c0"
    "remote_version s2 = local_version c0" "local_version s2 = local_version s0" "remote_kex_init s2 = Some mc" "local_kex_init s2 = Some ms"
    using key vs ready by (auto simp: s2_def s1_def underway_def get_server_key_def kex_hash_def ready_for_kex_def agreed_kex_def)
  have 4: "gex_signed l K s2 = (Inr (MSG_KEXDH_GEX_REPLY # enc_string (hk_blob key) @ enc_mpint f @ enc_string sig), set_K_H K H s2)"
    using key(3) sig mp(4) H by (intro gex_signed_done [OF S(1,2)]) (simp_all add: S Gf G)
  define c3 where "c3 = underway p4 e4 c1"
  have C: "gex_p (kex_gex c3) = Some p" "gex_x (kex_gex c3) = Some x" "(kex_gex c3)\<lparr>gex_f := Some f\<rparr> = G x" "kex_hash c3 = kex_hash c0"
    "remote_version c3 = local_version s0" "local_version c3 = local_version c0" "remote_kex_init c3 = Some ms" "local_kex_init c3 = Some mc"
    using vs by (simp_all add: c3_def c1_def underway_def G_def kex_hash_def)
  have "gex_reply_secret l (Message_init (Some (enc_string (hk_blob key) @ enc_mpint f @ enc_string sig))) c3 =
      (Inr (hk_blob key, sig), set_K_H (pow_mod f x p) H (c3\<lparr>kex_gex := (kex_gex c3)\<lparr>gex_f := Some f\<rparr>\<rparr>))"
    using key(3) sig(2) mp(4) H fr by (intro gex_secret_done C(1,2)) (simp_all add: C(3-) K)
  then have 5: "gex_reply_secret l (Message_init (Some (enc_string (hk_blob key) @ enc_mpint f @ enc_string sig))) (underway p4 e4 c1) =
      (Inr (hk_blob key, sig), set_K_H K H c2)"
    unfolding c2_def c3_def [symmetric] by (simp add: C(3) K)
  have ke: "kex_engine c0 = kex_engine s0" using ready by (auto simp: ready_for_kex_def agreed_kex_def)
  have "keys_shared (set_K_H K H c2) (set_K_H K H s2) \<and> keys_shared (set_K_H K H s2) (set_K_H K H c2)"
    using ready_algorithms [OF ready] ready mp(5) ke
    by (simp add: keys_shared_def has_secrets_def c2_def c1_def s2_def s1_def underway_def set_K_H_fields kex_hash_def ready_for_kex_def agreed_kex_def)
  with gex_request_done 1 2 3 4 5 sig(1) ready show ?thesis
    by (auto simp: fresh gex_reply_def bbind_def nb_def set_K_H_fields c2_def c1_def s2_def s1_def underway_def ready_for_kex_def d)
qed

lemma group14_group_ok: "group_ok 2 group14_P"
proof -
  define P where "P = group14_P"
  have P: "(2 :: int) ^ 1023 \<le> P" "P < 2 ^ 4096" "odd P" "2 < P" by (simp_all add: P_def group14_P_def)
  then have "(2 :: int) ^ 1023 < 2 ^ nat (bit_length P)" using bit_length_less [of P] by linarith
  then have "1023 < nat (bit_length P)" by (rule power_less_imp_less_exp [rotated]) simp
  moreover have "(2 :: int) ^ (nat (bit_length P) - 1) < 2 ^ 4096" using bit_length_lower [of P] P by linarith
  then have "nat (bit_length P) - 1 < 4096" by (rule power_less_imp_less_exp [rotated]) simp
  ultimately have "1024 \<le> bit_length P" "bit_length P \<le> 8192" by linarith+
  with P(3,4) show ?thesis by (simp add: group_ok_def P_def [symmetric])
qed

definition demo_pack :: modulus_pack where
  "demo_pack = \<lparr>pack = [(2048, [(2, group14_P)])], discarded = []\<rparr>"

lemma demo_gexing_ready: "ready_for_kex (demo_gexing False) (demo_gexing True) [20] [20]"
proof -
  have "security.truncate (demo_gexing b) = security.truncate (demo_dh b)" for b
    by (simp add: demo_gexing_def security.truncate_def)
  note t = preferred_truncate [OF this] known_truncate [OF this]
  show ?thesis
    using demo_dh_ready unfolding ready_for_kex_def agreed_defs t by (auto simp: demo_gexing_def)
qed

definition demo_pktz :: "(byte, unit, hash_class) packetizer" where
  "demo_pktz = Packetizer_init [] [] 0"

theorem gex_exchange_agrees_witness:
  "\<exists>cd sd m1 m2 m3 m4 s1 s2 c1 c2 sig.
      gex_request False (kex_gex (demo_gexing False)) = Inr m1 \<and>
      gex_group_for demo_pack [[]] (Message_init (Some (tl m1))) (underway demo_pktz [] (demo_gexing True)) = (Done (Inr m2), s1) \<and>
      gex_init cd (Message_init (Some (tl m2))) (underway demo_pktz [] (demo_gexing False)) = (Done (Inr m3), c1) \<and>
      gex_reply demo_lib sd (Message_init (Some (tl m3))) (underway demo_pktz [] s1) = (Done (Inr m4), s2) \<and>
      gex_reply_secret demo_lib (Message_init (Some (tl m4))) (underway demo_pktz [] c1) = (Inr ([1], sig), c2) \<and> keys_shared c2 s2"
proof -
  have "5 < (group14_P - 1) div 2" by (simp add: group14_P_def)
  then obtain cd sd where x: "gex_find_x group14_P [cd] = Some 3" "gex_find_x group14_P [sd] = Some 5"
    using gex_find_x_all [of 3 group14_P] gex_find_x_all [of 5 group14_P] by auto
  have m: "has_modulus_pack (demo_gexing True)" "get_modulus demo_pack [[]] 1024 2048 8192 = Some (Inr (2, group14_P))"
    by (simp add: demo_gexing_def) code_simp
  have key: "get_server_key (demo_gexing True) = Some \<lparr>hk_class = RSAKey, hk_name = lit ''ssh-rsa'', hk_blob = [1], hk_public_blob = None\<rparr>"
    "host_key_type (demo_gexing True) = Some (lit ''ssh-rsa'')" "kex_hash (demo_gexing False) = SHA256"
    by (simp_all add: demo_gexing_def demo_dh_def get_server_key_def kex_hash_def)
  from gex_exchange_agrees [OF demo_gexing_ready demo_gexing_gex demo_gexing_gex m group14_group_ok x key(1,2),
      where l = demo_lib and ?p1.0 = demo_pktz and ?p2.0 = demo_pktz and ?p3.0 = demo_pktz and ?p4.0 = demo_pktz
        and ?e1.0 = "[]" and ?e2.0 = "[]" and ?e3.0 = "[]" and ?e4.0 = "[]"]
  show ?thesis by (fastforce simp: key string_ok_def demo_lib_def)
qed

section \<open>A negative modulus\<close>

text \<open>Only the length of the modulus is checked, and it is that of the absolute value: a server that sends a
  negative modulus of acceptable length makes the client draw random numbers for ever, whatever they
  are; the handler never returns.\<close>

theorem negative_modulus_hangs:
  assumes "mpint_ok p" "mpint_ok g" "p < 0" "1024 \<le> bit_length p" "bit_length p \<le> 8192"
  shows "\<exists>s'. gex_init draws (Message_init (Some (enc_mpint p @ enc_mpint g))) s = (Waiting, s')"
  using assms(3-5)
  by (simp add: gex_init_def nb_def gex_group_mpints [OF assms(1,2)] py_monad on_gex_def gex_generate_x_def gex_find_x_small)

theorem negative_modulus_hangs_witness:
  "\<exists>s'. gex_init [replicate 255 1] (Message_init (Some (enc_mpint (- group14_P) @ enc_mpint 2))) (demo_gexing False) = (Waiting, s')"
proof -
  have "length (deflate_long (- group14_P) True) = 257" by code_simp
  then have "mpint_ok (- group14_P)" by (simp add: mpint_ok_def string_ok_def)
  moreover have "mpint_ok 2" by (rule mpint_ok_small [of _ 1]) simp_all
  moreover have "- group14_P < 0" by (simp add: group14_P_def)
  moreover have "bit_length (- group14_P) = bit_length group14_P" by (simp add: bit_length_def)
  ultimately show ?thesis using group14_group_ok by (intro negative_modulus_hangs) (simp_all add: group_ok_def)
qed

end
