(* ===== verification/Kex_Engines.thy ===== *)
theory Kex_Engines
  imports Transport_Strict Kex_Ecdh Kex_Gex
begin

text \<open>
  The engines of \<^verbatim>\<open>kex_gex.py\<close>, \<^verbatim>\<open>kex_ecdh_nist.py\<close> and \<^verbatim>\<open>kex_curve25519.py\<close> in the place that the transport has
  for them, and the proof that they keep the contract on which the theorems about sessions rely
  (\<open>parts_ok\<close>, \<open>engines_in_order\<close>). What is left open are the engines that use GSS-API.
\<close>

section \<open>The engines\<close>

text \<open>What the engines draw on: the curves, the private keys, the pack of primes, the random bytes for the choice
  of a prime and for secret numbers.\<close>

record engine_env =
  en_ec :: ec_lib
  en_keys :: "int list"
  en_pack :: modulus_pack
  en_rolls :: "bytes list"
  en_draws :: "bytes list"

definition is_ec :: "kex_class \<Rightarrow> bool" where
  "is_ec k \<longleftrightarrow> is_nist k \<or> k = KexCurve25519"

definition is_gex :: "kex_class \<Rightarrow> bool" where
  "is_gex k \<longleftrightarrow> k = KexGex \<or> k = KexGexSHA256"

definition engines :: "('e, 'z) lib \<Rightarrow> (nat \<Rightarrow> bytes) \<Rightarrow> engine_env \<Rightarrow> ('e, 'z) parts \<Rightarrow> ('e, 'z) parts" where
  "engines l rnd en gss =
     \<lparr>other_start = (\<lambda>k.
        if is_gex k then gex_start_kex l rnd False
        else if is_ec k then ec_start_kex l (en_ec en) k rnd (en_keys en)
        else other_start gss k),
      other_next = (\<lambda>k t m.
        if is_gex k then gex_parse_next l rnd (en_pack en) (en_rolls en) (en_draws en) t m
        else if is_ec k then ec_parse_next l (en_ec en) k rnd t m
        else other_next gss k t m)\<rparr>"

section \<open>Frames\<close>

lemma ec_offer_frame: "framed P \<Longrightarrow> bkeeps P (ec_offer ec k keys)"
  by (rule bkeeps_stateI)
    (auto simp: ec_offer_def bbind_def blift_def bret_def expect_packet_def outer_def Let_def
      split: list.splits sum.splits elim!: framedD)

lemma ec_start_frame: "framed P \<Longrightarrow> bkeeps P (ec_start_kex l ec k rnd keys)"
  unfolding ec_start_kex_def
  by (rule bkeeps_bbind [OF ec_offer_frame])
    (auto intro!: bkeeps_bret bkeeps_bbind send_frame framed_update simp: outer_def expect_packet_def split: option.splits)

lemma ec_reply_of_frame:
  assumes "secret_closed P" shows "keeps P (ec_reply_of l q_c q_s key ty K) (\<lambda>_. True)"
  unfolding ec_reply_of_def
  by (rule keeps_stateI, erule keeps_pbindD) (intro keeps_plift' keeps_pbind' secret_closed_set assms)+

lemma ec_init_secret_frame:
  assumes "secret_closed P" shows "keeps P (ec_init_secret l ec k m) (\<lambda>_. True)"
proof -
  have "keeps P (\<lambda>s. case (get_server_key s, host_key_type s) of
      (Some key, Some ty) \<Rightarrow> ec_reply_of l q_c q_s key ty K s | _ \<Rightarrow> (Inl OtherException, s)) (\<lambda>_. True)" for q_c q_s K
    by (rule keeps_stateI) (auto split: option.splits intro: keepsD [OF ec_reply_of_frame [OF assms]])
  note 1 = keeps_pbindD [OF _ keeps_plift'(2) this [unfolded prod.case]]
  note 2 = keeps_pbindD [OF _ keeps_plift'(2) ec_reply_of_frame [OF assms]]
  have "keeps P (\<lambda>s. let q_s = ec_public ec k (kex_x s) in
     if k = KexCurve25519 then
       pbind (plift (ec_secret ec k (kex_x s) q_c)) (\<lambda>K. \<lambda>s.
       case (get_server_key s, host_key_type s) of
         (Some key, Some ty) \<Rightarrow> ec_reply_of l q_c q_s key ty K s
       | _ \<Rightarrow> (Inl OtherException, s)) s
     else
       (case (get_server_key s, host_key_type s) of
          (Some key, Some ty) \<Rightarrow>
            pbind (plift (ec_secret ec k (kex_x s) q_c)) (\<lambda>K. ec_reply_of l q_c q_s key ty K) s
        | _ \<Rightarrow> (Inl OtherException, s))) (\<lambda>_. True)" for q_c
    unfolding Let_def by (rule keeps_stateI) (auto split: option.splits intro: 1 2)
  then show ?thesis
    unfolding ec_init_secret_def
    by (auto intro!: keeps_pbind' keeps_on_message keeps_plift' split: prod.splits)
qed

lemma ec_reply_secret_frame:
  assumes "secret_closed P" shows "keeps P (ec_reply_secret l ec k m) (\<lambda>_. True)"
proof -
  have "keeps P (\<lambda>s. pbind (plift (a s)) (\<lambda>K. pbind (plift (r s K)) (\<lambda>H.
      pbind (pmodify (set_K_H K H)) (\<lambda>_. pret v))) s) (\<lambda>_. True)" for a r v
    by (rule keeps_stateI, erule keeps_pbindD) (intro keeps_plift' keeps_pbind' secret_closed_set assms keeps_pret TrueI)+
  then show ?thesis
    unfolding ec_reply_secret_def
    by (auto intro!: keeps_pbind' keeps_on_message keeps_plift' keeps_pret split: prod.splits)
qed

lemma ec_next_frame:
  assumes "secret_closed P" shows "bkeeps P (ec_parse_next l ec k rnd t m)"
proof -
  note f = secret_closed_framed [OF assms]
  have "bkeeps P (ec_parse_init l ec k rnd m)" unfolding ec_parse_init_def
    by (intro bkeeps_bbind bkeeps_nb ec_init_secret_frame assms send_frame activate_outbound_frame f)
  moreover have "bkeeps P (ec_parse_reply l ec k rnd m)" unfolding ec_parse_reply_def
    by (auto intro!: bkeeps_bbind bkeeps_nb ec_reply_secret_frame assms verify_key_frame activate_outbound_frame f split: prod.splits)
  ultimately show ?thesis by (auto simp: bkeeps_def ec_parse_next_def braise_def)
qed

lemma on_gex_frame: "framed P \<Longrightarrow> bkeeps P (bmodify (on_gex f))" "framed P \<Longrightarrow> keeps P (pmodify (on_gex f)) (\<lambda>_. True)"
  by (auto intro!: framed_update framed_pmodify simp: on_gex_def outer_def)

lemma expect_frame: "framed P \<Longrightarrow> bkeeps P (bmodify (expect_packet ts))"
  by (auto intro!: framed_update simp: expect_packet_def outer_def)

lemma gex_start_frame: "framed P \<Longrightarrow> bkeeps P (gex_start_kex l rnd old)"
proof (rule bkeeps_stateI)
  fix s assume P: "framed P" "P s"
  have "bkeeps P (bbind (blift r) (\<lambda>m. bbind (bmodify (on_gex f)) (\<lambda>_. bbind (t_send_message l rnd m) (\<lambda>_.
      bmodify (expect_packet ts)))))" for r f ts
    by (intro bkeeps_bbind bkeeps_blift on_gex_frame send_frame expect_frame P(1))
  note 1 = bkeepsD [OF this P(2)]
  have "P (snd (bret () (expect_packet ts s)))" for ts
    using bkeepsD [OF expect_frame [OF P(1)] P(2), of ts] by (simp add: bret_def bmodify_def)
  with 1 show "P (snd (gex_start_kex l rnd old s))" by (simp add: gex_start_kex_def)
qed

lemma gex_group_frame: "framed P \<Longrightarrow> bkeeps P (gex_group pk rolls)"
  by (rule bkeeps_stateI)
    (auto simp: gex_group_def braise_def bbind_def bmodify_def blift_def on_gex_def outer_def
      split: option.splits sum.splits elim!: framedD)

lemma gex_request_frame: "framed P \<Longrightarrow> bkeeps P (gex_parse_request l rnd pk rolls m)"
  unfolding gex_parse_request_def gex_group_for_def
  by (auto intro!: bkeeps_bbind bkeeps_nb_message on_gex_frame gex_group_frame send_frame expect_frame split: prod.splits)

lemma gex_request_old_frame: "framed P \<Longrightarrow> bkeeps P (gex_parse_request_old l rnd pk rolls m)"
  unfolding gex_parse_request_old_def
  by (auto intro!: bkeeps_bbind bkeeps_nb_message on_gex_frame gex_group_frame send_frame expect_frame split: prod.splits)

lemma gex_generate_frame: "framed P \<Longrightarrow> bkeeps P (gex_generate_x p draws)"
  by (rule bkeeps_stateI)
    (auto simp: gex_generate_x_def bret_def on_gex_def outer_def split: option.splits elim!: framedD)

lemma gex_group_msg_frame: "framed P \<Longrightarrow> bkeeps P (gex_parse_group l rnd draws m)"
  unfolding gex_parse_group_def gex_init_def
  by (auto intro!: bkeeps_bbind bkeeps_nb_message bkeeps_braise bkeeps_blift on_gex_frame gex_generate_frame send_frame expect_frame
      split: prod.splits)

lemma gex_powers_frame:
  assumes "framed P" shows "bkeeps P (gex_powers draws m)"
proof -
  have "bkeeps P (if bad then braise e else bbind (gex_generate_x p draws) (\<lambda>x. bbind (blift (r x)) (\<lambda>f.
      bbind (bmodify (on_gex (h f))) (\<lambda>_. blift (q x)))))" for bad e p r h q
    by (auto intro!: bkeeps_bbind bkeeps_braise bkeeps_blift on_gex_frame gex_generate_frame assms)
  then have "bkeeps P (\<lambda>s. bbind (blift (a s)) (\<lambda>bad. if bad then braise e else bbind (gex_generate_x (p s) draws) (\<lambda>x.
      bbind (blift (r s x)) (\<lambda>f. bbind (bmodify (on_gex (h f))) (\<lambda>_. blift (q s x))))) s)" for a e p r h q
    by (intro bkeeps_stateI, elim bkeeps_bbindD) (rule bkeeps_blift)
  then show ?thesis
    unfolding gex_powers_def by (auto intro!: bkeeps_bbind bkeeps_nb_message on_gex_frame assms split: prod.splits)
qed

lemma gex_signed_frame:
  assumes "secret_closed P" shows "keeps P (gex_signed l K) (\<lambda>_. True)"
proof -
  have "P (snd (pbind (plift r) (\<lambda>H. pbind (pmodify (set_K_H K H)) (\<lambda>_. pbind (plift (q H)) (\<lambda>sig s. plift (v sig s) s))) s))"
    if "P s" for r q v s
    using that by (rule keeps_pbindD) (intro keeps_plift' keeps_pbind' secret_closed_set assms)+
  then show ?thesis by (intro keeps_stateI) (auto simp: gex_signed_def split: option.splits)
qed

lemma gex_reply_secret_frame:
  assumes "secret_closed P" shows "keeps P (gex_reply_secret l m) (\<lambda>_. True)"
proof -
  note f = secret_closed_framed [OF assms]
  have "keeps P (\<lambda>s. pbind (plift (r s)) (\<lambda>H. pbind (pmodify (set_K_H K H)) (\<lambda>_. pret v)) s) (\<lambda>_. True)" for r K v
    by (rule keeps_stateI, erule keeps_pbindD) (intro keeps_plift' keeps_pbind' secret_closed_set assms keeps_pret TrueI)+
  then have "keeps P (if bad then praise e else pbind (plift a) (\<lambda>K. \<lambda>s. pbind (plift (r K s)) (\<lambda>H.
      pbind (pmodify (set_K_H K H)) (\<lambda>_. pret v)) s)) (\<lambda>_. True)" for bad e a r v
    by (auto intro!: keeps_pbind' keeps_plift' keeps_praise)
  then have "keeps P (\<lambda>s. pbind (plift (b s)) (\<lambda>bad. if bad then praise e else pbind (plift (a s)) (\<lambda>K. \<lambda>s. pbind (plift (r K s)) (\<lambda>H.
      pbind (pmodify (set_K_H K H)) (\<lambda>_. pret v)) s)) s) (\<lambda>_. True)" for b e a r v
    by (intro keeps_stateI, elim keeps_pbindD) (rule keeps_plift'(2))
  then show ?thesis
    unfolding gex_reply_secret_def
    by (auto intro!: keeps_pbind' keeps_on_message on_gex_frame f split: prod.splits)
qed

lemma gex_next_frame:
  assumes "secret_closed P" shows "bkeeps P (gex_parse_next l rnd pk rolls draws t m)"
proof -
  note f = secret_closed_framed [OF assms]
  have "bkeeps P (gex_parse_init l rnd draws m)" unfolding gex_parse_init_def gex_reply_def
    by (intro bkeeps_bbind bkeeps_nb gex_powers_frame gex_signed_frame assms send_frame activate_outbound_frame f)
  moreover have "bkeeps P (gex_parse_reply l rnd m)" unfolding gex_parse_reply_def
    by (auto intro!: bkeeps_bbind bkeeps_nb gex_reply_secret_frame assms verify_key_frame activate_outbound_frame f split: prod.splits)
  ultimately show ?thesis unfolding gex_parse_next_def
    by (simp add: gex_request_frame gex_request_old_frame gex_group_msg_frame f bkeeps_braise)
qed

section \<open>Order\<close>

lemma settles_expect_kex: "t \<in> kex_types \<Longrightarrow> settles kex_types (bmodify (expect_packet [t]))"
  by (intro settles_expect) simp_all

lemma ec_start_settles: "settles kex_types (ec_start_kex l ec k rnd keys)"
proof (rule settlesI)
  fix s x s'
  assume "ec_start_kex l ec k rnd keys s = (Done (Inr x), s')"
  then obtain o1 s1 where o1: "ec_offer ec k keys s = (Done (Inr o1), s1)" and q:
    "(case o1 of None \<Rightarrow> bret () | Some m \<Rightarrow> bbind (t_send_message l rnd m) (\<lambda>_. bmodify (expect_packet [MSG_KEXECDH_REPLY]))) s1
       = (Done (Inr x), s')"
    unfolding ec_start_kex_def by (rule bbind_eq_InrE)
  show "settled kex_types s'"
  proof (cases o1)
    case None
    with o1 q show ?thesis
      by (auto simp: ec_offer_def py_monad expect_packet_def Let_def settled_def kex_types_def msg_codes
          split: list.splits sum.splits if_splits)
  next
    case (Some m)
    have "settles kex_types (bbind (t_send_message l rnd m) (\<lambda>_. bmodify (expect_packet [MSG_KEXECDH_REPLY])))"
      by (intro settles_bbind settles_expect_kex) (simp add: kex_types_def msg_codes)
    from settlesD [OF this] show ?thesis using q Some by simp
  qed
qed

lemma ec_next_settles: "settles {MSG_NEWKEYS} (ec_parse_next l ec k rnd t m)"
proof -
  have "settles {MSG_NEWKEYS} (ec_parse_init l ec k rnd m)"
    unfolding ec_parse_init_def by (intro settles_bbind activate_outbound_settles)
  moreover have "settles {MSG_NEWKEYS} (ec_parse_reply l ec k rnd m)"
    unfolding ec_parse_reply_def by (auto intro!: settles_bbind activate_outbound_settles split: prod.splits)
  ultimately show ?thesis unfolding ec_parse_next_def by (intro settles_if settles_braise)
qed

lemma gex_start_settles: "settles kex_types (gex_start_kex l rnd old)"
proof -
  have "settles kex_types (\<lambda>s. bret () (expect_packet [MSG_KEXDH_GEX_REQUEST, MSG_KEXDH_GEX_REQUEST_OLD] s))"
    by (auto simp: settles_def settled_def bret_def expect_packet_def kex_types_def msg_codes)
  moreover have "settles kex_types (\<lambda>s. bbind (blift (r s)) (\<lambda>m. bbind (bmodify f) (\<lambda>_. bbind (t_send_message l rnd m) (\<lambda>_.
      bmodify (expect_packet [MSG_KEXDH_GEX_GROUP])))) s)" for r f
  proof -
    have "settles kex_types (bbind (blift r) (\<lambda>m. bbind (bmodify f) (\<lambda>_. bbind (t_send_message l rnd m) (\<lambda>_.
        bmodify (expect_packet [MSG_KEXDH_GEX_GROUP])))))" for r
      by (intro settles_bbind settles_expect_kex) (simp add: kex_types_def msg_codes)
    then show ?thesis by (auto simp: settles_def)
  qed
  ultimately show ?thesis unfolding gex_start_kex_def by (intro settles_if)
qed

lemma settles_on_gex: "settles T m \<Longrightarrow> settles T (bbind m (\<lambda>_. bmodify (on_gex f)))"
proof (rule settlesI)
  fix s x s' assume m: "settles T m" "bbind m (\<lambda>_. bmodify (on_gex f)) s = (Done (Inr x), s')"
  from m(2) obtain y s1 where y: "m s = (Done (Inr y), s1)" "bmodify (on_gex f) s1 = (Done (Inr x), s')" by (rule bbind_eq_InrE)
  with settlesD [OF m(1) y(1)] show "settled T s'" by (auto simp: settled_def bmodify_def on_gex_def)
qed

lemma gex_request_old_settles: "settles kex_types (gex_parse_request_old l rnd pk rolls m)"
proof -
  have "settles kex_types (bbind (bmodify (expect_packet [MSG_KEXDH_GEX_INIT])) (\<lambda>_. bmodify (on_gex f)))" for f
    by (intro settles_on_gex settles_expect_kex) (simp add: kex_types_def msg_codes)
  then show ?thesis
    unfolding gex_parse_request_old_def
    by (intro settles_bbind, split prod.split, intro allI impI) (rule settles_bbind, rule settles_bbind, rule settles_bbind)
qed

lemma gex_next_settles: "settles (insert MSG_NEWKEYS kex_types) (gex_parse_next l rnd pk rolls draws t m)"
proof -
  note up = settles_mono [where U = "insert MSG_NEWKEYS kex_types"]
  have k: "MSG_KEXDH_GEX_INIT \<in> kex_types" "MSG_KEXDH_GEX_REPLY \<in> kex_types" by (simp_all add: kex_types_def msg_codes)
  have "settles kex_types (gex_parse_request l rnd pk rolls m)" "settles kex_types (gex_parse_group l rnd draws m)"
    unfolding gex_parse_request_def gex_parse_group_def by (intro settles_bbind settles_expect_kex k)+
  moreover have "settles {MSG_NEWKEYS} (gex_parse_init l rnd draws m)" "settles {MSG_NEWKEYS} (gex_parse_reply l rnd m)"
    unfolding gex_parse_init_def gex_parse_reply_def
    by (auto intro!: settles_bbind activate_outbound_settles split: prod.splits)
  ultimately show ?thesis
    unfolding gex_parse_next_def using gex_request_old_settles [of l rnd pk rolls m]
    by (auto intro: up settles_braise)
qed

section \<open>The contract\<close>

lemma framed_same: "framed (\<lambda>s'. outer s' = v \<and> session_id s' = i \<and> agreed_on_strict_kex s' = a)"
  by (simp add: framed_def)

lemma secret_closed_same:
  "secret_closed (\<lambda>s'. outer s' = v \<and> (i \<noteq> None \<longrightarrow> session_id s' = i) \<and> agreed_on_strict_kex s' = a)"
  by (auto simp: secret_closed_def framed_def set_K_H_outer set_K_H_fields)

text \<open>C17: the other engines keep the contract of the transport. With group exchange, the NIST curves and
  Curve25519 as they are in the code, for any curve library, keys, primes and random bytes, the engines
  change nothing outside the key exchange, never replace a session identifier or the agreement on
  strict key exchange, and always say which message of the exchange comes next, provided that the
  engines which use GSS-API do so; so all theorems about sessions hold for them.\<close>

theorem engines_keep_contract:
  fixes l :: "('e, 'z) lib"
  assumes gss: "parts_ok gss" "engines_in_order gss"
  shows "parts_ok (engines l rnd en gss) \<and> engines_in_order (engines l rnd en gss)"
proof -
  have start: "outer (snd (m s)) = outer s \<and> session_id (snd (m s)) = session_id s \<and> agreed_on_strict_kex (snd (m s)) = agreed_on_strict_kex s"
    if "\<And>P. framed P \<Longrightarrow> bkeeps P m" for m :: "(('e, 'z) transport, unit) bpy" and s
    using bkeepsD [OF that [OF framed_same [of "outer s" "session_id s" "agreed_on_strict_kex s"]], of s] by simp
  have nxt: "outer (snd (m s)) = outer s \<and> (session_id s \<noteq> None \<longrightarrow> session_id (snd (m s)) = session_id s)
      \<and> agreed_on_strict_kex (snd (m s)) = agreed_on_strict_kex s"
    if "\<And>P. secret_closed P \<Longrightarrow> bkeeps P m" for m :: "(('e, 'z) transport, unit) bpy" and s
    using bkeepsD [OF that [OF secret_closed_same [of "outer s" "session_id s" "agreed_on_strict_kex s"]], of s] by simp
  note kept = start [OF gex_start_frame] start [OF ec_start_frame] nxt [OF gex_next_frame] nxt [OF ec_next_frame]
  have "parts_ok (engines l rnd en gss)"
    using gss(1) kept by (simp add: parts_ok_def engines_def)
  moreover have "engines_in_order (engines l rnd en gss)"
    using gss(2) kept
    by (simp add: engines_in_order_def engines_def gex_start_settles ec_start_settles gex_next_settles settles_mono [OF ec_next_settles])
  ultimately show ?thesis ..
qed

definition demo_env :: engine_env where
  "demo_env = \<lparr>en_ec = demo_ec, en_keys = [3], en_pack = demo_pack, en_rolls = [[]], en_draws = []\<rparr>"

theorem engines_keep_contract_witness:
  "parts_ok (engines demo_lib (\<lambda>n. replicate n 0) demo_env demo_engines)
   \<and> engines_in_order (engines demo_lib (\<lambda>n. replicate n 0) demo_env demo_engines)"
proof -
  have "parts_ok demo_engines" "engines_in_order demo_engines"
    by (auto simp: parts_ok_def engines_in_order_def demo_engines_def bmodify_def expect_packet_def outer_def
        settles_def settled_def kex_types_def)
  then show ?thesis by (rule engines_keep_contract)
qed

end
