(* ===== verification/Buffered_File.thy ===== *)
theory Buffered_File
  imports Py_Util
begin

text \<open>
  \<^verbatim>\<open>BufferedFile\<close> (\<^verbatim>\<open>paramiko/file.py\<close>), the buffered reading and writing that channel files and remote
  files share. The stream below is given by the results of the successive calls of \<^verbatim>\<open>_read\<close> and
  \<^verbatim>\<open>_write\<close>. Shown: reading, by size or by lines, gives the stream, with newlines translated
  exactly in universal mode; what is written arrives in order; and where data is lost or doubled when
  the stream raises.
\<close>

section \<open>State\<close>

definition LF :: byte where "LF = 10"
definition CR :: byte where "CR = 13"

text \<open>The next results of \<^verbatim>\<open>_read\<close>: data, of which a read takes at most the size asked for, or an
  exception. After the last one, the end of the stream.\<close>

datatype raw_event = RawData bytes | RawError py_error

text \<open>The attribute \<^verbatim>\<open>newlines\<close> is \<^verbatim>\<open>None\<close>, bytes or a tuple.\<close>

datatype newlines_seen = NoNewlines | OneNewline bytes | Newlines "bytes list"

text \<open>The flags are separate fields; \<open>sink\<close> is what \<^verbatim>\<open>_write\<close> has taken, \<open>takes\<close> its next results.\<close>

record bfile =
  newlines :: newlines_seen
  FLAG_READ :: bool
  FLAG_WRITE :: bool
  FLAG_APPEND :: bool
  FLAG_BINARY :: bool
  FLAG_BUFFERED :: bool
  FLAG_LINE_BUFFERED :: bool
  FLAG_UNIVERSAL_NEWLINE :: bool
  bufsize :: int
  wbuffer :: bytes
  rbuffer :: bytes
  at_trailing_cr :: bool
  file_closed :: bool
  file_pos :: int
  file_realpos :: int
  file_size :: int
  raw :: "raw_event list"
  takes :: "(py_error + nat) list"
  sink :: bytes

definition DEFAULT_BUFSIZE :: int where "DEFAULT_BUFSIZE = 8192"

definition BufferedFile_init :: "raw_event list \<Rightarrow> (py_error + nat) list \<Rightarrow> bfile" where
  "BufferedFile_init r t =
     \<lparr>newlines = NoNewlines, FLAG_READ = False, FLAG_WRITE = False, FLAG_APPEND = False, FLAG_BINARY = False, FLAG_BUFFERED = False,
      FLAG_LINE_BUFFERED = False, FLAG_UNIVERSAL_NEWLINE = False, bufsize = DEFAULT_BUFSIZE, wbuffer = [], rbuffer = [],
      at_trailing_cr = False, file_closed = False, file_pos = 0, file_realpos = 0, file_size = 0, raw = r, takes = t, sink = []\<rparr>"

text \<open>\<^verbatim>\<open>_set_mode\<close>; \<open>size\<close> is the result of \<^verbatim>\<open>_get_size()\<close>.\<close>

definition set_mode :: "int \<Rightarrow> string \<Rightarrow> int \<Rightarrow> bfile \<Rightarrow> bfile" where
  "set_mode sz mode b f =
     (let f = f\<lparr>bufsize := DEFAULT_BUFSIZE\<rparr>;
          b = (if b < 0 then 0 else b);
          f = (if b = 1 then f\<lparr>FLAG_BUFFERED := True, FLAG_LINE_BUFFERED := True\<rparr>
               else if b > 1 then f\<lparr>bufsize := b, FLAG_BUFFERED := True, FLAG_LINE_BUFFERED := False\<rparr>
               else f\<lparr>FLAG_BUFFERED := False, FLAG_LINE_BUFFERED := False\<rparr>);
          f = (if CHR ''r'' \<in> set mode \<or> CHR ''+'' \<in> set mode then f\<lparr>FLAG_READ := True\<rparr> else f);
          f = (if CHR ''w'' \<in> set mode \<or> CHR ''+'' \<in> set mode then f\<lparr>FLAG_WRITE := True\<rparr> else f);
          f = (if CHR ''a'' \<in> set mode
               then f\<lparr>FLAG_WRITE := True, FLAG_APPEND := True, file_size := sz, file_pos := sz, file_realpos := sz\<rparr> else f);
          f = (if CHR ''b'' \<in> set mode then f\<lparr>FLAG_BINARY := True\<rparr> else f)
      in if CHR ''U'' \<in> set mode then f\<lparr>FLAG_UNIVERSAL_NEWLINE := True, newlines := NoNewlines\<rparr> else f)"

section \<open>Reading\<close>

definition raw_read :: "int \<Rightarrow> (bfile, bytes) py" where
  "raw_read n f =
     (case raw f of
        [] \<Rightarrow> (Inr [], f)
      | RawError e # r \<Rightarrow> (Inl e, f\<lparr>raw := r\<rparr>)
      | RawData d # r \<Rightarrow>
          (Inr (take (nat n) d),
           f\<lparr>raw := (if drop (nat n) d = [] then r else RawData (drop (nat n) d) # r)\<rparr>))"

text \<open>A read in which \<^verbatim>\<open>EOFError\<close> is caught.\<close>

definition read_some :: "int \<Rightarrow> (bfile, bytes) py" where
  "read_some n f = (case raw_read n f of (Inl EOFError, f) \<Rightarrow> (Inr [], f) | r \<Rightarrow> r)"

definition raw_size :: "bfile \<Rightarrow> nat" where
  "raw_size f = sum_list (map (\<lambda>e. case e of RawData d \<Rightarrow> Suc (length d) | RawError _ \<Rightarrow> 1) (raw f))"

lemma read_some_size: "read_some n f = (Inr d, f') \<Longrightarrow> d \<noteq> [] \<Longrightarrow> raw_size f' < raw_size f"
  by (cases "raw f"; cases "hd (raw f)")
    (auto simp: read_some_def raw_read_def raw_size_def split: if_splits py_error.splits)

text \<open>The loop of \<^verbatim>\<open>read()\<close> without a size, and that of \<^verbatim>\<open>read(size)\<close>.\<close>

function read_to_end :: "bytes \<Rightarrow> (bfile, bytes) py" where
  "read_to_end result f =
     (case read_some DEFAULT_BUFSIZE f of
        (Inl e, f) \<Rightarrow> (Inl e, f)
      | (Inr d, f) \<Rightarrow>
          if d = [] then (Inr result, f)
          else read_to_end (result @ d) (f\<lparr>file_realpos := file_realpos f + int (length d), file_pos := file_pos f + int (length d)\<rparr>))"
  by pat_completeness auto

termination
  by (relation "measure (\<lambda>(r, f). raw_size f)") (auto dest!: sym [of _ "read_some _ _"] read_some_size simp: raw_size_def)

function fill_loop :: "int \<Rightarrow> (bfile, unit) py" where
  "fill_loop sz f =
     (if int (length (rbuffer f)) < sz then
        (let n = sz - int (length (rbuffer f)); n = (if FLAG_BUFFERED f then max (bufsize f) n else n) in
         case read_some n f of
           (Inl e, f) \<Rightarrow> (Inl e, f)
         | (Inr d, f) \<Rightarrow>
             if d = [] then (Inr (), f)
             else fill_loop sz (f\<lparr>rbuffer := rbuffer f @ d, file_realpos := file_realpos f + int (length d)\<rparr>))
      else (Inr (), f))"
  by pat_completeness auto

termination
  by (relation "measure (\<lambda>(n, f). raw_size f)") (auto dest!: sym [of _ "read_some _ _"] read_some_size simp: raw_size_def)

declare read_to_end.simps [simp del] fill_loop.simps [simp del]

definition take_buffer :: "int \<Rightarrow> (bfile, bytes) py" where
  "take_buffer sz f =
     (let result = take (nat sz) (rbuffer f)
      in (Inr result, f\<lparr>rbuffer := drop (nat sz) (rbuffer f), file_pos := file_pos f + int (length result)\<rparr>))"

definition file_read :: "int option \<Rightarrow> (bfile, bytes) py" where
  "file_read sz f =
     (if file_closed f then (Inl (SocketError ''File is closed''), f)
      else if \<not> FLAG_READ f then (Inl (SocketError ''File is not open for reading''), f)
      else if sz = None \<or> the sz < 0 then
        read_to_end (rbuffer f) (f\<lparr>rbuffer := [], file_pos := file_pos f + int (length (rbuffer f))\<rparr>)
      else if the sz \<le> int (length (rbuffer f)) then take_buffer (the sz) f
      else pbind (fill_loop (the sz)) (\<lambda>_. take_buffer (the sz)) f)"

definition record_newline :: "bytes \<Rightarrow> bfile \<Rightarrow> bfile" where
  "record_newline nl f =
     (if \<not> FLAG_UNIVERSAL_NEWLINE f then f
      else case newlines f of
        NoNewlines \<Rightarrow> f\<lparr>newlines := OneNewline nl\<rparr>
      | OneNewline old \<Rightarrow> if old \<noteq> nl then f\<lparr>newlines := Newlines [old, nl]\<rparr> else f
      | Newlines l \<Rightarrow> if nl \<notin> set l then f\<lparr>newlines := Newlines (l @ [nl])\<rparr> else f)"

text \<open>The first step of the loop of \<^verbatim>\<open>readline\<close>.\<close>

definition settle_cr :: "bytes \<Rightarrow> bfile \<Rightarrow> bytes \<times> bfile" where
  "settle_cr line f =
     (if at_trailing_cr f \<and> FLAG_UNIVERSAL_NEWLINE f \<and> line \<noteq> []
      then if hd line = LF then (tl line, (record_newline [CR, LF] f)\<lparr>at_trailing_cr := False\<rparr>)
           else (line, (record_newline [CR] f)\<lparr>at_trailing_cr := False\<rparr>)
      else (line, f))"

lemma settle_cr_raw [simp]: "raw (snd (settle_cr line f)) = raw f"
  by (simp add: settle_cr_def record_newline_def split: newlines_seen.splits)

lemma raw_size_settle [simp]: "raw_size (snd (settle_cr line f)) = raw_size f"
  by (simp add: raw_size_def)

lemma raw_size_realpos [simp]: "raw_size (f\<lparr>file_realpos := n\<rparr>) = raw_size f"
  by (simp add: raw_size_def)

text \<open>The loop ends because the stream has ended, or with a line that holds a newline or is cut.\<close>

datatype line_end = LineEof bytes | LineFound bytes bool

function line_loop :: "int option \<Rightarrow> bytes \<Rightarrow> (bfile, line_end) py" where
  "line_loop sz line f =
     (let sf = settle_cr line f; line = fst sf; f = snd sf in
      if sz \<noteq> None \<and> the sz \<ge> 0 \<and> int (length line) \<ge> the sz
      then (Inr (LineFound (take (nat (the sz)) line) True), f\<lparr>rbuffer := drop (nat (the sz)) line\<rparr>)
      else if LF \<in> set line \<or> FLAG_UNIVERSAL_NEWLINE f \<and> CR \<in> set line then (Inr (LineFound line False), f)
      else
        let n = (if sz \<noteq> None \<and> the sz \<ge> 0 then the sz - int (length line) else bufsize f) in
        case read_some n f of
          (Inl e, f) \<Rightarrow> (Inl e, f)
        | (Inr d, f) \<Rightarrow>
            if d = [] then (Inr (LineEof line), f\<lparr>rbuffer := [], file_pos := file_pos f + int (length line)\<rparr>)
            else line_loop sz (line @ d) (f\<lparr>file_realpos := file_realpos f + int (length d)\<rparr>))"
  by pat_completeness auto

termination
  by (relation "measure (\<lambda>(s, l, f). raw_size f)") (auto dest!: sym [of _ "read_some _ _"] read_some_size)

declare line_loop.simps [simp del]

text \<open>\<^verbatim>\<open>line.find\<close>, and the place of the first newline.\<close>

definition byte_find :: "byte \<Rightarrow> bytes \<Rightarrow> nat option" where
  "byte_find b line = (if b \<in> set line then Some (length (takeWhile (\<lambda>c. c \<noteq> b) line)) else None)"

definition newline_pos :: "bool \<Rightarrow> bytes \<Rightarrow> nat option" where
  "newline_pos uni line =
     (case (byte_find LF line, if uni then byte_find CR line else None) of
        (p, None) \<Rightarrow> p
      | (None, Some r) \<Rightarrow> Some r
      | (Some p, Some r) \<Rightarrow> Some (if r < p then r else p))"

text \<open>What \<^verbatim>\<open>readline\<close> does after its loop.\<close>

definition cut_line :: "bytes \<Rightarrow> bool \<Rightarrow> bfile \<Rightarrow> bytes \<times> bfile" where
  "cut_line line truncated f =
     (case newline_pos (FLAG_UNIVERSAL_NEWLINE f) line of
        None \<Rightarrow> (line, f\<lparr>file_pos := file_pos f + int (length line)\<rparr>)
      | Some pos \<Rightarrow>
          let xpos = (if line ! pos = CR \<and> pos + 1 < length line \<and> line ! (pos + 1) = LF then pos + 2 else pos + 1);
              rest = (if truncated then drop xpos line @ rbuffer f else drop xpos line);
              lf = drop pos (take xpos line);
              line = take pos line @ [LF];
              f = f\<lparr>rbuffer := rest\<rparr>;
              f = (if rest = [] \<and> lf = [CR] then f\<lparr>at_trailing_cr := True\<rparr> else record_newline lf f)
          in (line, f\<lparr>file_pos := file_pos f + int (length line)\<rparr>))"

definition as_line :: "bytes \<Rightarrow> (bfile, pystr) py" where
  "as_line line f = (if FLAG_BINARY f then (Inr line, f) else (utf8_decode line, f))"

definition file_readline :: "int option \<Rightarrow> (bfile, pystr) py" where
  "file_readline sz f =
     (if file_closed f then (Inl (SocketError ''File is closed''), f)
      else if \<not> FLAG_READ f then (Inl (SocketError ''File not open for reading''), f)
      else pbind (line_loop sz (rbuffer f)) (\<lambda>e f.
        case e of
          LineEof line \<Rightarrow> as_line line f
        | LineFound line truncated \<Rightarrow> (case cut_line line truncated f of (line, f) \<Rightarrow> as_line line f)) f)"

section \<open>What is read\<close>

fun event_data :: "raw_event \<Rightarrow> bytes" where
  "event_data (RawData d) = d"
| "event_data (RawError e) = []"

definition raw_data :: "bfile \<Rightarrow> bytes" where
  "raw_data f = concat (map event_data (raw f))"

text \<open>A stream that raises nothing, so that only its end reads as empty.\<close>

definition raw_ok :: "bfile \<Rightarrow> bool" where
  "raw_ok f \<longleftrightarrow> (\<forall>e \<in> set (raw f). \<exists>d. e = RawData d \<and> d \<noteq> [])"

text \<open>Newlines translated: a line feed after a carriage return is dropped, a carriage return becomes a line
  feed; the first argument says whether a carriage return has just been read.\<close>

fun translated :: "bool \<Rightarrow> bytes \<Rightarrow> bytes" where
  "translated b [] = []"
| "translated b (c # cs) =
     (if b \<and> c = LF then translated False cs else if c = CR then LF # translated True cs else c # translated False cs)"

text \<open>What a reader still gets: from a buffer and the stream, and from a file.\<close>

definition coming :: "bfile \<Rightarrow> bytes \<Rightarrow> bytes" where
  "coming f line =
     (if FLAG_UNIVERSAL_NEWLINE f then translated (at_trailing_cr f) (line @ raw_data f) else line @ raw_data f)"

definition file_view :: "bfile \<Rightarrow> bytes" where
  "file_view f = coming f (rbuffer f)"

lemma read_some_cases:
  assumes "read_some n f = (Inr d, f')"
  obtains (eof) "raw f = []" "d = []" "f' = f"
  | (data) x r where "raw f = RawData x # r" "d = take (nat n) x"
      "f' = f\<lparr>raw := (if drop (nat n) x = [] then r else RawData (drop (nat n) x) # r)\<rparr>"
  | (caught) r where "raw f = RawError EOFError # r" "d = []" "f' = f\<lparr>raw := r\<rparr>"
proof (cases "raw f")
  case Nil
  with assms have "d = []" "f' = f" by (simp_all add: read_some_def raw_read_def)
  with Nil show ?thesis by (rule eof)
next
  case (Cons e r)
  show ?thesis
  proof (cases e)
    case (RawData x)
    with assms Cons have "raw f = RawData x # r" "d = take (nat n) x"
      "f' = f\<lparr>raw := (if drop (nat n) x = [] then r else RawData (drop (nat n) x) # r)\<rparr>" by (simp_all add: read_some_def raw_read_def)
    then show ?thesis by (rule data)
  next
    case (RawError x)
    with assms Cons have "x = EOFError" by (cases x) (simp_all add: read_some_def raw_read_def)
    with assms Cons RawError have "raw f = RawError EOFError # r" "d = []" "f' = f\<lparr>raw := r\<rparr>" by (simp_all add: read_some_def raw_read_def)
    then show ?thesis by (rule caught)
  qed
qed

lemma read_some_data:
  assumes "read_some n f = (Inr d, f')"
  shows "\<exists>r. f' = f\<lparr>raw := r\<rparr>" "raw_data f = d @ raw_data f'"
    "raw_ok f \<Longrightarrow> 0 < n \<Longrightarrow> raw_ok f' \<and> (d = [] \<longrightarrow> raw f' = [])"
proof -
  from assms show "\<exists>r. f' = f\<lparr>raw := r\<rparr>"
    by (cases rule: read_some_cases) (auto intro: exI [of _ "raw f"])
  from assms show "raw_data f = d @ raw_data f'"
  proof (cases rule: read_some_cases)
    case (data x r)
    then have "raw_data f' = drop (nat n) x @ concat (map event_data r)" by (simp add: raw_data_def)
    then show ?thesis using data by (simp add: raw_data_def)
  qed (simp_all add: raw_data_def)
  show "raw_ok f' \<and> (d = [] \<longrightarrow> raw f' = [])" if "raw_ok f" "0 < n"
    using assms by (cases rule: read_some_cases) (use that in \<open>auto simp: raw_ok_def\<close>)
qed

lemma read_some_ok: "raw_ok f \<Longrightarrow> \<exists>d f'. read_some n f = (Inr d, f')"
  by (cases "raw f") (auto simp: read_some_def raw_read_def raw_ok_def split: list.splits raw_event.splits)

lemma record_newline_fields [simp]:
  "FLAG_UNIVERSAL_NEWLINE (record_newline nl f) = FLAG_UNIVERSAL_NEWLINE f" "at_trailing_cr (record_newline nl f) = at_trailing_cr f"
  "raw (record_newline nl f) = raw f" "rbuffer (record_newline nl f) = rbuffer f" "bufsize (record_newline nl f) = bufsize f"
  "FLAG_BINARY (record_newline nl f) = FLAG_BINARY f" "file_closed (record_newline nl f) = file_closed f" "FLAG_READ (record_newline nl f) = FLAG_READ f"
  by (simp_all add: record_newline_def split: newlines_seen.splits)

lemma translated_plain: "LF \<notin> set l \<Longrightarrow> CR \<notin> set l \<Longrightarrow> l \<noteq> [] \<Longrightarrow> translated b (l @ s) = l @ translated False s"
proof -
  have "LF \<notin> set l \<Longrightarrow> CR \<notin> set l \<Longrightarrow> translated False (l @ s) = l @ translated False s" for l by (induction l) auto
  then show "LF \<notin> set l \<Longrightarrow> CR \<notin> set l \<Longrightarrow> l \<noteq> [] \<Longrightarrow> translated b (l @ s) = l @ translated False s" by (cases l) auto
qed

lemma translated_other: "c \<noteq> LF \<Longrightarrow> translated b (c # s) = translated False (c # s)"
  by simp

text \<open>What the operations leave alone while they read.\<close>

definition same_file :: "bfile \<Rightarrow> bfile \<Rightarrow> bool" where
  "same_file f g \<longleftrightarrow> FLAG_UNIVERSAL_NEWLINE g = FLAG_UNIVERSAL_NEWLINE f \<and> FLAG_BINARY g = FLAG_BINARY f \<and>
     file_closed g = file_closed f \<and> FLAG_READ g = FLAG_READ f \<and> bufsize g = bufsize f"

lemma same_file_refl [simp]: "same_file f f"
  by (simp add: same_file_def)

lemma same_file_trans: "same_file f g \<Longrightarrow> same_file g h \<Longrightarrow> same_file f h"
  by (simp add: same_file_def)

lemma settle_cr_coming:
  assumes "settle_cr line f = (l, g)"
  shows "coming g l = coming f line" "same_file f g" "raw g = raw f" "rbuffer g = rbuffer f"
    "FLAG_UNIVERSAL_NEWLINE f \<Longrightarrow> l \<noteq> [] \<Longrightarrow> \<not> at_trailing_cr g" "\<not> FLAG_UNIVERSAL_NEWLINE f \<Longrightarrow> l = line"
    "at_trailing_cr g \<Longrightarrow> at_trailing_cr f" "raw_data g = raw_data f"
  using assms by (cases line; auto simp: settle_cr_def coming_def same_file_def raw_data_def split: if_splits)+

subsection \<open>By size\<close>

lemma read_to_end_all:
  "raw_ok f \<Longrightarrow> \<exists>f'. read_to_end r f = (Inr (r @ raw_data f), f') \<and> raw f' = [] \<and> rbuffer f' = rbuffer f
     \<and> file_pos f' = file_pos f + int (length (raw_data f))"
proof (induction r f rule: read_to_end.induct)
  case (1 r f)
  obtain d g where d: "read_some DEFAULT_BUFSIZE f = (Inr d, g)" using read_some_ok [OF "1.prems"] by blast
  have n: "0 < DEFAULT_BUFSIZE" by (simp add: DEFAULT_BUFSIZE_def)
  obtain q where g: "g = f\<lparr>raw := q\<rparr>" using read_some_data(1) [OF d] by blast
  note D = read_some_data(2) [OF d] read_some_data(3) [OF d "1.prems" n]
  show ?case
  proof (cases "d = []")
    case True
    with D have "raw_data f = []" by (simp add: raw_data_def)
    with True D d g show ?thesis by (simp add: read_to_end.simps [of r f])
  next
    case False
    define h where "h = g\<lparr>file_realpos := file_realpos g + int (length d), file_pos := file_pos g + int (length d)\<rparr>"
    have "raw_ok h" "raw_data h = raw_data g" using D by (simp_all add: h_def raw_ok_def raw_data_def)
    with "1.IH" [OF d [symmetric] refl False] obtain f' where
      "read_to_end (r @ d) h = (Inr ((r @ d) @ raw_data g), f')" "raw f' = []" "rbuffer f' = rbuffer h"
      "file_pos f' = file_pos h + int (length (raw_data g))" unfolding h_def [symmetric] by auto
    with d False D(1) g show ?thesis by (simp add: read_to_end.simps [of r f] h_def)
  qed
qed

lemma fill_loop_fills:
  "raw_ok f \<Longrightarrow> \<exists>f'. fill_loop n f = (Inr (), f') \<and> rbuffer f' @ raw_data f' = rbuffer f @ raw_data f
     \<and> (n \<le> int (length (rbuffer f')) \<or> raw f' = []) \<and> raw_ok f' \<and> file_pos f' = file_pos f"
proof (induction n f rule: fill_loop.induct)
  case (1 n f)
  show ?case
  proof (cases "int (length (rbuffer f)) < n")
    case False
    with "1.prems" show ?thesis by (simp add: fill_loop.simps [of n f])
  next
    case True
    define k where "k = n - int (length (rbuffer f))"
    define m where "m = (if FLAG_BUFFERED f then max (bufsize f) k else k)"
    have m: "0 < m" using True by (auto simp: m_def k_def max_def)
    obtain d g where d: "read_some m f = (Inr d, g)" using read_some_ok [OF "1.prems"] by blast
    obtain q where g: "g = f\<lparr>raw := q\<rparr>" using read_some_data(1) [OF d] by blast
    note D = read_some_data(2) [OF d] read_some_data(3) [OF d "1.prems" m]
    define h where "h = g\<lparr>rbuffer := rbuffer g @ d, file_realpos := file_realpos g + int (length d)\<rparr>"
    have e: "fill_loop n f = (if d = [] then (Inr (), g) else fill_loop n h)"
      unfolding fill_loop.simps [of n f] Let_def k_def [symmetric] m_def [symmetric] using True d by (simp add: h_def)
    show ?thesis
    proof (cases "d = []")
      case True
      with e D g show ?thesis by (auto simp: raw_ok_def)
    next
      case False
      have "raw_ok h" "raw_data h = raw_data g" using D by (simp_all add: h_def raw_ok_def raw_data_def)
      moreover from "1.IH" [OF True k_def m_def d [symmetric] refl False]
      have "raw_ok h \<Longrightarrow> \<exists>f'. fill_loop n h = (Inr (), f') \<and> rbuffer f' @ raw_data f' = rbuffer h @ raw_data h
         \<and> (n \<le> int (length (rbuffer f')) \<or> raw f' = []) \<and> raw_ok f' \<and> file_pos f' = file_pos h"
        unfolding h_def [symmetric] .
      ultimately show ?thesis using e False D(1) g by (simp add: h_def)
    qed
  qed
qed

text \<open>Reading by size gives the stream: from a file that is open for reading and whose stream raises
  nothing, \<^verbatim>\<open>read(n)\<close> returns exactly the next \<open>n\<close> bytes, fewer only at the end, and \<^verbatim>\<open>read()\<close> all the
  rest, however the stream is cut into pieces and whatever is buffered; the rest is kept in order and
  the position advances by what was returned.\<close>

theorem file_read_stream:
  assumes "raw_ok f" "\<not> file_closed f" "FLAG_READ f"
  shows "\<exists>r f'. file_read n f = (Inr r, f') \<and> r = (if n = None \<or> the n < 0 then rbuffer f @ raw_data f
        else take (nat (the n)) (rbuffer f @ raw_data f)) \<and> r @ rbuffer f' @ raw_data f' = rbuffer f @ raw_data f
      \<and> file_pos f' = file_pos f + int (length r)"
proof (cases "n = None \<or> the n < 0")
  case True
  have "raw_ok (f\<lparr>rbuffer := [], file_pos := p\<rparr>)" "raw_data (f\<lparr>rbuffer := [], file_pos := p\<rparr>) = raw_data f" for p
    using assms(1) by (simp_all add: raw_ok_def raw_data_def)
  with read_to_end_all [of "f\<lparr>rbuffer := [], file_pos := file_pos f + int (length (rbuffer f))\<rparr>" "rbuffer f"]
  obtain f' where "read_to_end (rbuffer f) (f\<lparr>rbuffer := [], file_pos := file_pos f + int (length (rbuffer f))\<rparr>) = (Inr (rbuffer f @ raw_data f), f')"
    "raw f' = []" "rbuffer f' = []" "file_pos f' = file_pos f + int (length (rbuffer f)) + int (length (raw_data f))" by auto
  with True assms show ?thesis by (simp add: file_read_def raw_data_def)
next
  case False
  then obtain k where k: "n = Some k" "0 \<le> k" by auto
  show ?thesis
  proof (cases "k \<le> int (length (rbuffer f))")
    case True
    then have "raw_data (f\<lparr>rbuffer := a, file_pos := b\<rparr>) = raw_data f" "nat k \<le> length (rbuffer f)" for a b by (simp_all add: raw_data_def)
    with True k assms show ?thesis by (simp add: file_read_def take_buffer_def Let_def)
  next
    case False
    obtain g where g: "fill_loop k f = (Inr (), g)" "rbuffer g @ raw_data g = rbuffer f @ raw_data f"
      "k \<le> int (length (rbuffer g)) \<or> raw g = []" "file_pos g = file_pos f"
      using fill_loop_fills [OF assms(1), of k] by blast
    have "take (nat k) (rbuffer g @ raw_data g) = take (nat k) (rbuffer g)" using g(3) by (auto simp: raw_data_def nat_le_iff)
    then have t: "take (nat k) (rbuffer g) = take (nat k) (rbuffer f @ raw_data f)" by (simp add: g(2))
    define r where "r = take (nat k) (rbuffer g)"
    define h where "h = g\<lparr>rbuffer := drop (nat k) (rbuffer g), file_pos := file_pos f + int (length r)\<rparr>"
    have "raw_data h = raw_data g" by (simp add: raw_data_def h_def)
    then have "r @ rbuffer h @ raw_data h = rbuffer f @ raw_data f"
      by (simp add: g(2) [symmetric] append_assoc [symmetric] r_def h_def del: append_assoc)
    moreover have "file_read n f = (Inr r, h)"
      using False k g(1,4) assms by (simp add: file_read_def pbind_def take_buffer_def Let_def r_def h_def)
    moreover have "file_pos h = file_pos f + int (length r)" by (simp add: h_def)
    moreover have "r = take (nat k) (rbuffer f @ raw_data f)" using t by (simp only: r_def)
    ultimately show ?thesis using k by (intro exI [of _ r] exI [of _ h]) simp
  qed
qed

definition demo_file :: "raw_event list \<Rightarrow> bfile" where
  "demo_file r = set_mode 0 ''rb'' 0 (BufferedFile_init r [])"

lemma demo_file_fields [simp]:
  "raw (demo_file r) = r" "rbuffer (demo_file r) = []" "file_pos (demo_file r) = 0" "FLAG_READ (demo_file r)" "FLAG_BINARY (demo_file r)"
  "\<not> file_closed (demo_file r)" "\<not> at_trailing_cr (demo_file r)" "\<not> FLAG_UNIVERSAL_NEWLINE (demo_file r)" "bufsize (demo_file r) = 8192"
  by (simp_all add: demo_file_def set_mode_def BufferedFile_init_def Let_def DEFAULT_BUFSIZE_def)

theorem file_read_stream_witness:
  "\<exists>f'. file_read (Some 3) (demo_file [RawData [1, 2], RawData [3, 4]]) = (Inr [1, 2, 3], f') \<and> file_pos f' = 3"
  using file_read_stream [of "demo_file [RawData [1, 2], RawData [3, 4]]" "Some 3"]
  by (auto simp: raw_ok_def raw_data_def)

subsection \<open>By lines\<close>

text \<open>A line ends with the first line feed.\<close>

definition first_line :: "bytes \<Rightarrow> bytes" where
  "first_line s = takeWhile (\<lambda>c. c \<noteq> LF) s @ (if LF \<in> set s then [LF] else [])"

lemma first_line_found: "LF \<notin> set l \<Longrightarrow> first_line (l @ LF # r) = l @ [LF]"
  by (simp add: first_line_def takeWhile_append)

lemma first_line_none: "LF \<notin> set l \<Longrightarrow> first_line l = l"
  by (auto simp: first_line_def takeWhile_eq_all_conv)

definition has_newline :: "bfile \<Rightarrow> bytes \<Rightarrow> bool" where
  "has_newline f line \<longleftrightarrow> LF \<in> set line \<or> FLAG_UNIVERSAL_NEWLINE f \<and> CR \<in> set line"

text \<open>What holds when the loop has ended without a size.\<close>

definition loop_done :: "bfile \<Rightarrow> bytes \<Rightarrow> line_end \<Rightarrow> bfile \<Rightarrow> bool" where
  "loop_done f line e g \<longleftrightarrow> same_file f g \<and>
     (case e of
        LineEof l \<Rightarrow> coming f line = l @ coming g [] \<and> rbuffer g = [] \<and> LF \<notin> set l \<and> (raw_ok f \<and> 0 < bufsize f \<longrightarrow> raw g = [])
      | LineFound l t \<Rightarrow> \<not> t \<and> coming f line = coming g l \<and> has_newline g l \<and> (FLAG_UNIVERSAL_NEWLINE g \<longrightarrow> \<not> at_trailing_cr g)
          \<and> (raw_ok f \<and> 0 < bufsize f \<longrightarrow> raw_ok g))"

lemma line_loop_done:
  "line_loop n line f = (Inr e, g) \<Longrightarrow> n = None \<or> the n < 0 \<Longrightarrow> loop_done f line e g"
proof (induction n line f rule: line_loop.induct)
  case (1 n line f)
  obtain l f1 where s: "settle_cr line f = (l, f1)" by force
  note S = settle_cr_coming [OF s]
  have ok: "raw_ok f1 = raw_ok f" using S(3) by (simp add: raw_ok_def)
  show ?case
  proof (cases "has_newline f1 l")
    case True
    with "1.prems" s have "e = LineFound l False" "g = f1"
      by (auto simp: line_loop.simps [of n line f] has_newline_def split: if_splits)
    moreover have "l \<noteq> []" using True by (auto simp: has_newline_def)
    then have "FLAG_UNIVERSAL_NEWLINE f1 \<longrightarrow> \<not> at_trailing_cr f1" using S(2,5) by (simp add: same_file_def)
    ultimately show ?thesis using True S(1,2) ok by (simp add: loop_done_def)
  next
    case nl: False
    then have nl': "LF \<notin> set l" "\<not> (FLAG_UNIVERSAL_NEWLINE f1 \<and> CR \<in> set l)" by (simp_all add: has_newline_def)
    have r: "(case read_some (bufsize f1) f1 of
          (Inl e, f) \<Rightarrow> (Inl e, f)
        | (Inr d, f) \<Rightarrow>
            if d = [] then (Inr (LineEof l), f\<lparr>rbuffer := [], file_pos := file_pos f + int (length l)\<rparr>)
            else line_loop n (l @ d) (f\<lparr>file_realpos := file_realpos f + int (length d)\<rparr>)) = (Inr e, g)"
      using "1.prems" nl' unfolding line_loop.simps [of n line f] s Let_def fst_conv snd_conv
      by (cases n; cases "FLAG_UNIVERSAL_NEWLINE f1") simp_all
    obtain d f2 where d: "read_some (bufsize f1) f1 = (Inr d, f2)"
      using r by (cases "read_some (bufsize f1) f1") (auto split: sum.splits)
    obtain q where f2: "f2 = f1\<lparr>raw := q\<rparr>" using read_some_data(1) [OF d] by blast
    note D = read_some_data(2,3) [OF d]
    have nb: "0 < bufsize f \<Longrightarrow> 0 < bufsize f1" using S(2) by (simp add: same_file_def)
    show ?thesis
    proof (cases "d = []")
      case True
      with r d have e: "e = LineEof l" and g: "g = f2\<lparr>rbuffer := [], file_pos := file_pos f2 + int (length l)\<rparr>" by simp_all
      have "coming f1 l = l @ coming g []"
        using nl S(5) D(1) True S(2)
        by (cases "l = []") (auto simp: coming_def g f2 raw_data_def has_newline_def same_file_def translated_plain)
      then show ?thesis using S D True nl nb ok by (auto simp: loop_done_def e g f2 same_file_def has_newline_def)
    next
      case False
      define h where "h = f2\<lparr>file_realpos := file_realpos f2 + int (length d)\<rparr>"
      have "line_loop n (l @ d) h = (Inr e, g)" using r d False by (simp add: h_def)
      moreover have "(Inr d, f2) = read_some (if n \<noteq> None \<and> 0 \<le> the n then the n - int (length l) else bufsize f1) f1"
        using d "1.prems"(2) by (cases n) simp_all
      ultimately have "loop_done h (fst (settle_cr line f) @ d) e g"
        unfolding h_def by (intro "1.IH" [OF refl refl refl _ _ refl _ refl False]) (use "1.prems"(2) nl' in \<open>auto simp: s\<close>)
      then have "loop_done h (l @ d) e g" by (simp add: s)
      moreover have "coming h (l @ d) = coming f1 l" using D(1) by (simp add: coming_def h_def f2 raw_data_def)
      moreover have "same_file f h" using S(2) by (simp add: h_def f2 same_file_def)
      moreover have "raw_ok f \<Longrightarrow> 0 < bufsize f \<Longrightarrow> raw_ok h" using D(2) nb ok by (simp add: h_def raw_ok_def)
      moreover have "bufsize h = bufsize f" using S(2) by (simp add: h_def f2 same_file_def)
      ultimately show ?thesis using S(1) by (auto simp: loop_done_def same_file_def split: line_end.splits)
    qed
  qed
qed

lemma byte_find_append: "b \<notin> set p \<Longrightarrow> byte_find b (p @ q) = map_option (\<lambda>k. length p + k) (byte_find b q)"
proof -
  assume b: "b \<notin> set p"
  then have "takeWhile (\<lambda>c. c \<noteq> b) (p @ q) = p @ takeWhile (\<lambda>c. c \<noteq> b) q" by (intro takeWhile_append2) auto
  with b show ?thesis by (simp add: byte_find_def)
qed

lemma byte_find_Cons: "byte_find b (c # q) = (if b = c then Some 0 else map_option Suc (byte_find b q))"
  by (auto simp: byte_find_def)

lemma newline_pos_split:
  assumes "has_newline f l"
  obtains p c r where "l = p @ c # r" "LF \<notin> set p" "FLAG_UNIVERSAL_NEWLINE f \<longrightarrow> CR \<notin> set p"
    "c = LF \<or> FLAG_UNIVERSAL_NEWLINE f \<and> c = CR" "newline_pos (FLAG_UNIVERSAL_NEWLINE f) l = Some (length p)"
proof -
  have "\<exists>x \<in> set l. x = LF \<or> FLAG_UNIVERSAL_NEWLINE f \<and> x = CR" using assms by (auto simp: has_newline_def)
  from split_list_first_prop [OF this] obtain p c r where l: "l = p @ c # r" "c = LF \<or> FLAG_UNIVERSAL_NEWLINE f \<and> c = CR"
    "\<forall>y \<in> set p. \<not> (y = LF \<or> FLAG_UNIVERSAL_NEWLINE f \<and> y = CR)" by blast
  then have p: "LF \<notin> set p" "FLAG_UNIVERSAL_NEWLINE f \<longrightarrow> CR \<notin> set p" by auto
  have "newline_pos (FLAG_UNIVERSAL_NEWLINE f) l = Some (length p)"
    using l(2) p
    by (cases "FLAG_UNIVERSAL_NEWLINE f"; cases "byte_find LF r"; cases "byte_find CR r")
      (auto simp: newline_pos_def l(1) byte_find_append byte_find_Cons)
  with l p that show ?thesis by blast
qed

lemma LF_CR [simp]: "LF \<noteq> CR" "CR \<noteq> LF"
  by (simp_all add: LF_def CR_def)

lemma coming_newline:
  assumes "LF \<notin> set p" "FLAG_UNIVERSAL_NEWLINE f \<longrightarrow> CR \<notin> set p" "FLAG_UNIVERSAL_NEWLINE f \<longrightarrow> \<not> at_trailing_cr f"
    "c = LF \<or> FLAG_UNIVERSAL_NEWLINE f \<and> c = CR"
  shows "coming f (p @ c # r) = p @ LF # (if FLAG_UNIVERSAL_NEWLINE f then translated (c = CR) (r @ raw_data f) else r @ raw_data f)"
  using assms by (cases "p = []") (auto simp: coming_def translated_plain)

lemma cut_line_view:
  assumes "has_newline f l" "FLAG_UNIVERSAL_NEWLINE f \<longrightarrow> \<not> at_trailing_cr f" "cut_line l False f = (line, g)"
  shows "coming f l = line @ file_view g" "line = first_line (coming f l)" "same_file f g" "raw g = raw f" "line \<noteq> []"
proof -
  from assms(1) obtain p c r where l: "l = p @ c # r" "LF \<notin> set p" "FLAG_UNIVERSAL_NEWLINE f \<longrightarrow> CR \<notin> set p"
    "c = LF \<or> FLAG_UNIVERSAL_NEWLINE f \<and> c = CR" "newline_pos (FLAG_UNIVERSAL_NEWLINE f) l = Some (length p)"
    by (rule newline_pos_split)
  note c = coming_newline [OF l(2,3) assms(2) l(4), of r, folded l(1)]
  have n: "l ! length p = c" "l ! (length p + 1) = r ! 0" "length p + 1 < length l \<longleftrightarrow> r \<noteq> []" by (simp_all add: l(1) nth_append)
  define rest where "rest = (if c = CR \<and> r \<noteq> [] \<and> r ! 0 = LF then tl r else r)"
  define lf where "lf = (if c = CR \<and> r \<noteq> [] \<and> r ! 0 = LF then [CR, LF] else [c])"
  define h where "h = (if rest = [] \<and> lf = [CR] then f\<lparr>rbuffer := rest, at_trailing_cr := True\<rparr> else record_newline lf (f\<lparr>rbuffer := rest\<rparr>))"
  have "cut_line l False f = (p @ [LF], h\<lparr>file_pos := file_pos h + int (length (p @ [LF]))\<rparr>)"
    unfolding cut_line_def l(5) option.case Let_def n rest_def lf_def h_def
    by (cases "r \<noteq> []") (auto simp: l(1) neq_Nil_conv)
  with assms(3) have line: "line = p @ [LF]" and g: "g = h\<lparr>file_pos := file_pos h + int (length (p @ [LF]))\<rparr>" by auto
  show "same_file f g" "raw g = raw f" "line \<noteq> []" by (auto simp: g h_def same_file_def line)
  show "line = first_line (coming f l)" using c first_line_found [OF l(2)] by (simp add: line)
  have "raw_data g = raw_data f" by (simp add: g h_def raw_data_def)
  then show "coming f l = line @ file_view g"
    using c l(4) assms(2)
    by (cases r) (auto simp: line file_view_def coming_def g h_def rest_def lf_def)
qed

lemma line_loop_total:
  "raw_ok f \<Longrightarrow> 0 < bufsize f \<Longrightarrow> n = None \<or> the n < 0 \<Longrightarrow> \<exists>e g. line_loop n line f = (Inr e, g)"
proof (induction n line f rule: line_loop.induct)
  case (1 n line f)
  obtain l f1 where s: "settle_cr line f = (l, f1)" by force
  note S = settle_cr_coming [OF s]
  have ok: "raw_ok f1" "0 < bufsize f1" using S "1.prems" by (simp_all add: raw_ok_def same_file_def)
  obtain d f2 where d: "read_some (bufsize f1) f1 = (Inr d, f2)" using read_some_ok [OF ok(1)] by blast
  obtain q where f2: "f2 = f1\<lparr>raw := q\<rparr>" using read_some_data(1) [OF d] by blast
  have rd: "(Inr d, f2) = read_some (if n \<noteq> None \<and> 0 \<le> the n then the n - int (length l) else bufsize f1) f1"
    using d "1.prems"(3) by (cases n) simp_all
  define h where "h = f2\<lparr>file_realpos := file_realpos f2 + int (length d)\<rparr>"
  have hk: "raw_ok h" "0 < bufsize h" using read_some_data(3) [OF d ok] ok by (simp_all add: h_def f2 raw_ok_def)
  show ?case
  proof (cases "has_newline f1 l \<or> d = []")
    case True
    then show ?thesis using "1.prems"(3) rd unfolding line_loop.simps [of n line f] s Let_def fst_conv snd_conv rd [symmetric]
      by (auto simp: has_newline_def)
  next
    case False
    then have "\<exists>e g. line_loop n (fst (settle_cr line f) @ d) h = (Inr e, g)"
      unfolding h_def using "1.prems"(3) rd hk
      by (intro "1.IH" [OF refl refl refl _ _ refl _ refl]) (auto simp: s has_newline_def h_def)
    then show ?thesis using "1.prems"(3) unfolding line_loop.simps [of n line f] s Let_def fst_conv snd_conv rd [symmetric]
      by (auto simp: h_def)
  qed
qed

lemma as_line_Inr: "as_line l f = (Inr line, g) \<Longrightarrow> line = l \<and> g = f"
  by (auto simp: as_line_def utf8_decode_def split: if_splits)

lemma file_readline_view:
  assumes "file_readline n f = (Inr line, g)" "n = None \<or> the n < 0"
  shows "file_view f = line @ file_view g" "same_file f g"
proof -
  from assms(1) obtain e f1 where e: "line_loop n (rbuffer f) f = (Inr e, f1)" and
    r: "(case e of LineEof line \<Rightarrow> as_line line f1
        | LineFound line truncated \<Rightarrow> (case cut_line line truncated f1 of (line, f) \<Rightarrow> as_line line f)) = (Inr line, g)"
    by (auto simp: file_readline_def elim!: pbind_eq_InrE split: if_splits)
  from line_loop_done [OF e assms(2)] have d: "loop_done f (rbuffer f) e f1" .
  have "file_view f = line @ file_view g \<and> same_file f g"
  proof (cases e)
    case (LineEof l)
    with r have "line = l" "g = f1" using as_line_Inr by auto
    with d LineEof show ?thesis by (auto simp: loop_done_def file_view_def)
  next
    case (LineFound l t)
    with d have l: "\<not> t" "has_newline f1 l" "FLAG_UNIVERSAL_NEWLINE f1 \<longrightarrow> \<not> at_trailing_cr f1" "coming f (rbuffer f) = coming f1 l" "same_file f f1"
      by (auto simp: loop_done_def)
    obtain l' f2 where c: "cut_line l False f1 = (l', f2)" by force
    with r LineFound l(1) have "line = l'" "g = f2" using as_line_Inr by auto
    with cut_line_view [OF l(2,3) c] l(4,5) show ?thesis by (auto simp: file_view_def intro: same_file_trans)
  qed
  then show "file_view f = line @ file_view g" "same_file f g" by auto
qed

lemma file_readline_first:
  assumes "raw_ok f" "0 < bufsize f" "\<not> file_closed f" "FLAG_READ f" "FLAG_BINARY f"
  shows "\<exists>g. file_readline None f = (Inr (first_line (file_view f)), g) \<and> raw_ok g \<and> (file_view f = [] \<longrightarrow> raw_data g = [])"
proof -
  obtain e f1 where e: "line_loop None (rbuffer f) f = (Inr e, f1)" using line_loop_total [OF assms(1,2)] by blast
  have d: "loop_done f (rbuffer f) e f1" using line_loop_done [OF e] by simp
  then have b: "FLAG_BINARY f1" using assms(5) by (simp add: loop_done_def same_file_def)
  show ?thesis
  proof (cases e)
    case (LineEof l)
    with d assms(1,2) have l: "file_view f = l" "LF \<notin> set l" "raw_ok f1" "raw_data f1 = []"
      by (auto simp: loop_done_def coming_def raw_data_def raw_ok_def file_view_def)
    have "file_readline None f = (Inr l, f1)" using e LineEof assms(3,4) b by (simp add: file_readline_def pbind_def as_line_def)
    with l show ?thesis by (simp add: first_line_none)
  next
    case (LineFound l t)
    with d assms(1,2) have l: "\<not> t" "has_newline f1 l" "FLAG_UNIVERSAL_NEWLINE f1 \<longrightarrow> \<not> at_trailing_cr f1" "coming f (rbuffer f) = coming f1 l" "raw_ok f1"
      by (auto simp: loop_done_def)
    obtain l' f2 where c: "cut_line l False f1 = (l', f2)" by force
    note v = cut_line_view [OF l(2,3) c]
    have "FLAG_BINARY f2" "raw_ok f2" using v b l(5) by (auto simp: same_file_def raw_ok_def)
    moreover from this have "file_readline None f = (Inr l', f2)"
      using e LineFound l(1) c assms(3,4) by (simp add: file_readline_def pbind_def as_line_def)
    moreover have "l' = first_line (file_view f)" "file_view f \<noteq> []" using v l(4) by (auto simp: file_view_def)
    ultimately show ?thesis by blast
  qed
qed

text \<open>\<^verbatim>\<open>readlines\<close>; the length of a text counts characters.\<close>

definition line_len :: "bfile \<Rightarrow> pystr \<Rightarrow> int" where
  "line_len f l = int (if FLAG_BINARY f then length l else length (filter (\<lambda>b. \<not> utf8_cont b) l))"

function readlines_loop :: "int option \<Rightarrow> pystr list \<Rightarrow> int \<Rightarrow> (bfile, pystr list) py" where
  "readlines_loop hint lines count f =
     (case file_readline None f of
        (Inl e, f) \<Rightarrow> (Inl e, f)
      | (Inr line, f) \<Rightarrow>
          if line = [] then (Inr lines, f)
          else if hint \<noteq> None \<and> count + line_len f line \<ge> the hint then (Inr (lines @ [line]), f)
          else readlines_loop hint (lines @ [line]) (count + line_len f line) f)"
  by pat_completeness auto

termination
proof (relation "measure (\<lambda>(h, l, c, f). length (file_view f))")
  fix hint :: "int option" and lines count f p r line g
  assume a: "(r, g) = file_readline None f" "r = Inr line" "line \<noteq> []"
  then have "file_view f = line @ file_view g" using file_readline_view(1) [of None f line g] by simp
  then show "((hint, lines @ [line], count + line_len g line, g), hint, lines, count, f) \<in> measure (\<lambda>(h, l, c, f). length (file_view f))"
    using a(3) by simp
qed simp

declare readlines_loop.simps [simp del]

definition file_readlines :: "int option \<Rightarrow> (bfile, pystr list) py" where
  "file_readlines hint = readlines_loop hint [] 0"

text \<open>\<^verbatim>\<open>__next__\<close>: \<open>None\<close> stands for \<^verbatim>\<open>StopIteration\<close>.\<close>

definition file_next :: "(bfile, pystr option) py" where
  "file_next = pbind (file_readline None) (\<lambda>line. pret (if line = [] then None else Some line))"

lemma first_line_empty [simp]: "first_line s = [] \<longleftrightarrow> s = []"
  by (cases s) (auto simp: first_line_def)

text \<open>The lines of a text.\<close>

function lines_of :: "bytes \<Rightarrow> bytes list" where
  "lines_of s = (if s = [] then [] else first_line s # lines_of (drop (length (first_line s)) s))"
  by pat_completeness auto

termination
  by (relation "measure length") (auto simp: diff_less)

declare lines_of.simps [simp del]

lemma readlines_loop_lines:
  "raw_ok f \<Longrightarrow> 0 < bufsize f \<Longrightarrow> \<not> file_closed f \<Longrightarrow> FLAG_READ f \<Longrightarrow> FLAG_BINARY f \<Longrightarrow>
     \<exists>g. readlines_loop None ls k f = (Inr (ls @ lines_of (file_view f)), g) \<and> raw_data g = []"
proof (induction "length (file_view f)" arbitrary: f ls k rule: less_induct)
  case less
  obtain g where g: "file_readline None f = (Inr (first_line (file_view f)), g)" "raw_ok g" "file_view f = [] \<longrightarrow> raw_data g = []"
    using file_readline_first [OF less.prems] by blast
  note v = file_readline_view [OF g(1)]
  show ?case
  proof (cases "file_view f = []")
    case True
    with g v show ?thesis by (simp add: readlines_loop.simps [of None ls k f] lines_of.simps)
  next
    case False
    have gv: "file_view g = drop (length (first_line (file_view f))) (file_view f)"
      using v(1) by (metis append_eq_conv_conj)
    have "length (file_view g) < length (file_view f)" using v(1) False by (metis first_line_empty length_append length_greater_0_conv less_add_same_cancel2 simp_thms(6))
    moreover have "0 < bufsize g" "\<not> file_closed g" "FLAG_READ g" "FLAG_BINARY g" using v(2) less.prems by (auto simp: same_file_def)
    ultimately obtain h where "readlines_loop None (ls @ [first_line (file_view f)]) (k + line_len g (first_line (file_view f))) g
        = (Inr ((ls @ [first_line (file_view f)]) @ lines_of (file_view g)), h)" "raw_data h = []"
      using less.hyps g(2) by blast
    with g(1) False show ?thesis
      by (simp add: readlines_loop.simps [of None ls k f] lines_of.simps [of "file_view f"] gv)
  qed
qed

text \<open>C36: reading by lines gives the lines of the stream: from a file that is open for reading in binary mode and
  whose stream raises nothing, \<^verbatim>\<open>readlines()\<close> returns the lines of what is buffered and still to come, however the
  stream is cut into pieces. In universal newline mode these are the lines of the text in which a
  carriage return, with or without a line feed after it, counts as one newline, even where a piece
  ends between the two.\<close>

theorem readlines_lines:
  assumes "raw_ok f" "0 < bufsize f" "\<not> file_closed f" "FLAG_READ f" "FLAG_BINARY f"
  shows "\<exists>g. file_readlines None f = (Inr (lines_of (if FLAG_UNIVERSAL_NEWLINE f
      then translated (at_trailing_cr f) (rbuffer f @ raw_data f) else rbuffer f @ raw_data f)), g) \<and> raw_data g = []"
proof -
  obtain g where g: "readlines_loop None [] 0 f = (Inr (lines_of (file_view f)), g)" "raw_data g = []"
    using readlines_loop_lines [OF assms, of "[]" 0] by auto
  then show ?thesis by (simp add: file_readlines_def file_view_def coming_def)
qed

text \<open>A carriage return and its line feed in two pieces.\<close>

definition demo_crlf :: bfile where
  "demo_crlf = (demo_file [RawData [1, CR], RawData [LF, 2, CR, 3]])\<lparr>FLAG_UNIVERSAL_NEWLINE := True\<rparr>"

theorem readlines_lines_witness: "\<exists>g. file_readlines None demo_crlf = (Inr [[1, LF], [2, LF], [3]], g)"
proof -
  have "raw_ok demo_crlf" "0 < bufsize demo_crlf" "\<not> file_closed demo_crlf" "FLAG_READ demo_crlf" "FLAG_BINARY demo_crlf"
    by (simp_all add: demo_crlf_def raw_ok_def)
  moreover have "lines_of (translated (at_trailing_cr demo_crlf) (rbuffer demo_crlf @ raw_data demo_crlf)) = [[1, LF], [2, LF], [3]]" by code_simp
  moreover have "FLAG_UNIVERSAL_NEWLINE demo_crlf" by (simp add: demo_crlf_def)
  ultimately show ?thesis using readlines_lines [of demo_crlf] by auto
qed

text \<open>A stream that raises while a line is read: what was read in this call is lost, because only the
  loop's own variable holds it. The buffer keeps what was in it before.\<close>

lemma readline_loses_data:
  assumes "raw f = RawData a # RawError e # r" "a \<noteq> []" "int (length a) \<le> bufsize f" "LF \<notin> set (rbuffer f @ a)" "e \<noteq> EOFError"
    "\<not> FLAG_UNIVERSAL_NEWLINE f" "\<not> file_closed f" "FLAG_READ f"
  shows "\<exists>g. file_readline None f = (Inl e, g) \<and> file_view g = rbuffer f @ concat (map event_data r)"
proof -
  have s: "settle_cr l g = (l, g)" if "\<not> FLAG_UNIVERSAL_NEWLINE g" for l g using that by (simp add: settle_cr_def)
  have x: "(case (Inl e, h) of (Inl EOFError, f) \<Rightarrow> (Inr [], f) | q \<Rightarrow> q) = (Inl e, h)" for h :: bfile using assms(5) by (cases e) simp_all
  have 1: "read_some (bufsize f) f = (Inr a, f\<lparr>raw := RawError e # r\<rparr>)" using assms(1,3) by (simp add: read_some_def raw_read_def)
  define h where "h = f\<lparr>raw := RawError e # r, file_realpos := file_realpos f + int (length a)\<rparr>"
  have 2: "read_some (bufsize h) h = (Inl e, h\<lparr>raw := r\<rparr>)" unfolding read_some_def raw_read_def h_def using x by simp
  have "line_loop None (rbuffer f @ a) h = (Inl e, h\<lparr>raw := r\<rparr>)"
    using assms(4,6) 2 by (subst line_loop.simps) (simp add: s h_def)
  then have "line_loop None (rbuffer f) f = (Inl e, h\<lparr>raw := r\<rparr>)"
    using assms(2,4,6) 1 by (subst line_loop.simps) (simp add: s h_def)
  then show ?thesis using assms(6-8) by (simp add: file_readline_def pbind_def file_view_def coming_def raw_data_def h_def)
qed

section \<open>Writing\<close>

text \<open>\<^verbatim>\<open>_write_all\<close>: \<open>ts\<close> are the results of \<^verbatim>\<open>_write\<close>, a count or an exception; without a further result
  it waits.\<close>

fun write_data :: "(py_error + nat) list \<Rightarrow> bytes \<Rightarrow> (bfile, unit) bpy" where
  "write_data ts [] f = (Done (Inr ()), f\<lparr>takes := ts\<rparr>)"
| "write_data [] (c # cs) f = (Waiting, f\<lparr>takes := []\<rparr>)"
| "write_data (Inl e # ts) (c # cs) f = (Done (Inl e), f\<lparr>takes := ts\<rparr>)"
| "write_data (Inr k # ts) (c # cs) f =
     (let f = f\<lparr>sink := sink f @ take k (c # cs)\<rparr>;
          f = (if FLAG_APPEND f
               then f\<lparr>file_size := file_size f + int k, file_pos := file_size f + int k, file_realpos := file_size f + int k\<rparr>
               else f\<lparr>file_pos := file_pos f + int k, file_realpos := file_realpos f + int k\<rparr>)
      in write_data ts (drop k (c # cs)) f)"

definition file_write_all :: "bytes \<Rightarrow> (bfile, unit) bpy" where
  "file_write_all d f = write_data (takes f) d f"

definition file_flush :: "(bfile, unit) bpy" where
  "file_flush f = bbind (file_write_all (wbuffer f)) (\<lambda>_. bmodify (\<lambda>f. f\<lparr>wbuffer := []\<rparr>)) f"

text \<open>\<^verbatim>\<open>data.rfind(linefeed_byte)\<close>, when there is one.\<close>

definition last_newline :: "bytes \<Rightarrow> nat" where
  "last_newline d = length d - 1 - length (takeWhile (\<lambda>c. c \<noteq> LF) (rev d))"

definition file_write :: "bytes \<Rightarrow> (bfile, unit) bpy" where
  "file_write d f =
     (if file_closed f then braise (SocketError ''File is closed'') f
      else if \<not> FLAG_WRITE f then braise (SocketError ''File not open for writing'') f
      else if \<not> FLAG_BUFFERED f then file_write_all d f
      else
        let f = f\<lparr>wbuffer := wbuffer f @ d\<rparr> in
        if FLAG_LINE_BUFFERED f then
          (if LF \<in> set d then
             (let wbuf = wbuffer f; k = last_newline d + (length wbuf - length d) in
              bbind (file_write_all (take (k + 1) wbuf)) (\<lambda>_. bmodify (\<lambda>f. f\<lparr>wbuffer := drop (k + 1) wbuf\<rparr>)) f)
           else bret () f)
        else if int (length (wbuffer f)) \<ge> bufsize f then file_flush f
        else bret () f)"

fun file_writelines :: "bytes list \<Rightarrow> (bfile, unit) bpy" where
  "file_writelines [] = bret ()"
| "file_writelines (l # ls) = bbind (file_write l) (\<lambda>_. file_writelines ls)"

definition file_close :: "(bfile, unit) bpy" where
  "file_close = bbind file_flush (\<lambda>_. bmodify (\<lambda>f. f\<lparr>file_closed := True\<rparr>))"

lemma write_data_done:
  "write_data ts d f = (Done (Inr ()), f') \<Longrightarrow> sink f' = sink f @ d \<and> wbuffer f' = wbuffer f \<and>
     FLAG_BUFFERED f' = FLAG_BUFFERED f \<and> FLAG_LINE_BUFFERED f' = FLAG_LINE_BUFFERED f \<and> bufsize f' = bufsize f"
  by (induction ts d f rule: write_data.induct) (auto simp: Let_def split: if_splits)

lemma file_flush_done:
  "file_flush f = (Done (Inr ()), f') \<Longrightarrow> sink f' = sink f @ wbuffer f \<and> wbuffer f' = [] \<and>
     FLAG_BUFFERED f' = FLAG_BUFFERED f \<and> FLAG_LINE_BUFFERED f' = FLAG_LINE_BUFFERED f \<and> bufsize f' = bufsize f"
  unfolding file_flush_def file_write_all_def
  by (erule bbind_eq_InrE) (auto simp: bmodify_def dest!: write_data_done)

text \<open>What the buffer may hold.\<close>

definition wbuffer_ok :: "bfile \<Rightarrow> bool" where
  "wbuffer_ok f \<longleftrightarrow> (\<not> FLAG_BUFFERED f \<longrightarrow> wbuffer f = []) \<and> (FLAG_LINE_BUFFERED f \<longrightarrow> LF \<notin> set (wbuffer f)) \<and>
     (FLAG_BUFFERED f \<and> \<not> FLAG_LINE_BUFFERED f \<longrightarrow> wbuffer f = [] \<or> int (length (wbuffer f)) < bufsize f)"

lemma last_newline_split:
  assumes "LF \<in> set d"
  obtains p r where "d = p @ LF # r" "LF \<notin> set r" "last_newline d = length p"
proof -
  obtain p r where d: "d = p @ LF # r" "LF \<notin> set r" using split_list_last [OF assms] by blast
  have "takeWhile (\<lambda>c. c \<noteq> LF) (rev r @ LF # rev p) = rev r @ takeWhile (\<lambda>c. c \<noteq> LF) (LF # rev p)"
    using d(2) by (intro takeWhile_append2) auto
  moreover have "rev d = rev r @ LF # rev p" by (simp add: d(1))
  ultimately have "takeWhile (\<lambda>c. c \<noteq> LF) (rev d) = rev r" by simp
  then have "last_newline d = length p" by (simp add: last_newline_def) (simp add: d(1))
  then show ?thesis by (rule that [OF d])
qed

lemma file_write_done:
  assumes "file_write d f = (Done (Inr ()), f')" "wbuffer_ok f"
  shows "sink f' @ wbuffer f' = sink f @ wbuffer f @ d \<and> wbuffer_ok f'"
proof -
  consider (plain) "\<not> FLAG_BUFFERED f" | (line) "FLAG_BUFFERED f" "FLAG_LINE_BUFFERED f" "LF \<in> set d"
    | (full) "FLAG_BUFFERED f" "\<not> FLAG_LINE_BUFFERED f" "int (length (wbuffer f @ d)) \<ge> bufsize f"
    | (kept) "FLAG_BUFFERED f" "FLAG_LINE_BUFFERED f \<and> LF \<notin> set d \<or> \<not> FLAG_LINE_BUFFERED f \<and> \<not> int (length (wbuffer f @ d)) \<ge> bufsize f"
    by auto
  then show ?thesis
  proof cases
    case plain
    with assms show ?thesis
      by (auto simp: file_write_def braise_def file_write_all_def wbuffer_ok_def dest!: write_data_done split: if_splits)
  next
    case full
    with assms(1) have "file_flush (f\<lparr>wbuffer := wbuffer f @ d\<rparr>) = (Done (Inr ()), f')"
      by (auto simp: file_write_def braise_def Let_def split: if_splits)
    from file_flush_done [OF this] full show ?thesis by (auto simp: wbuffer_ok_def)
  next
    case kept
    with assms(1) have "f' = f\<lparr>wbuffer := wbuffer f @ d\<rparr>"
      by (auto simp: file_write_def braise_def bret_def Let_def split: if_splits)
    with kept assms(2) show ?thesis by (auto simp: wbuffer_ok_def)
  next
    case line
    obtain p r where d: "d = p @ LF # r" "LF \<notin> set r" "last_newline d = length p" using last_newline_split [OF line(3)] .
    define w where "w = wbuffer f @ d"
    have k: "last_newline d + (length w - length d) + 1 = length (wbuffer f @ p @ [LF])" by (simp add: w_def d(3))
    have w: "w = (wbuffer f @ p @ [LF]) @ r" by (simp add: w_def d)
    have "bbind (file_write_all (wbuffer f @ p @ [LF])) (\<lambda>_. bmodify (\<lambda>f. f\<lparr>wbuffer := r\<rparr>)) (f\<lparr>wbuffer := w\<rparr>) = (Done (Inr ()), f')"
      using assms(1) line k w unfolding file_write_def w_def [symmetric] Let_def
      by (auto simp: braise_def w_def [symmetric] split: if_splits)
    then obtain u g where g: "write_data (takes f) (wbuffer f @ p @ [LF]) (f\<lparr>wbuffer := w\<rparr>) = (Done (Inr u), g)" "f' = g\<lparr>wbuffer := r\<rparr>"
      by (auto simp: file_write_all_def bmodify_def elim!: bbind_eq_InrE)
    from write_data_done [of "takes f"] g(1) have "sink g = sink f @ wbuffer f @ p @ [LF]" "FLAG_BUFFERED g" "FLAG_LINE_BUFFERED g" "bufsize g = bufsize f"
      using line by fastforce+
    with g(2) d show ?thesis by (auto simp: wbuffer_ok_def)
  qed
qed

text \<open>A stream that goes on taking bytes: the next \<open>n\<close> results and all further ones are positive counts.\<close>

definition takes_ok :: "nat \<Rightarrow> bfile \<Rightarrow> bool" where
  "takes_ok n f \<longleftrightarrow> list_all (\<lambda>t. case t of Inl _ \<Rightarrow> False | Inr k \<Rightarrow> 0 < k) (takes f) \<and> n \<le> length (takes f)"

definition writable_file :: "bfile \<Rightarrow> bool" where
  "writable_file f \<longleftrightarrow> \<not> file_closed f \<and> FLAG_WRITE f"

lemma write_data_returns:
  "list_all (\<lambda>t. case t of Inl _ \<Rightarrow> False | Inr k \<Rightarrow> 0 < k) ts \<Longrightarrow> length d + n \<le> length ts \<Longrightarrow>
     \<exists>g. write_data ts d f = (Done (Inr ()), g) \<and> takes_ok n g \<and> writable_file g = writable_file f"
proof (induction ts d f rule: write_data.induct)
  case (4 k ts c cs f)
  have "length (drop k (c # cs)) + n \<le> length ts" "list_all (\<lambda>t. case t of Inl _ \<Rightarrow> False | Inr k \<Rightarrow> 0 < k) ts" using "4.prems" by auto
  from "4.IH" [OF refl refl this(2,1)] show ?case
    by (cases "FLAG_APPEND f") (simp_all add: Let_def writable_file_def)
qed (auto simp: takes_ok_def writable_file_def)

lemma file_write_all_returns:
  assumes "takes_ok (length d + n) f"
  obtains g where "file_write_all d f = (Done (Inr ()), g)" "takes_ok n g" "writable_file g = writable_file f" "wbuffer g = wbuffer f"
  using write_data_returns [of "takes f" d n f] write_data_done [of "takes f" d f] assms
  by (auto simp: takes_ok_def file_write_all_def)

lemma takes_ok_wbuffer [simp]: "takes_ok n (f\<lparr>wbuffer := w\<rparr>) = takes_ok n f" "writable_file (f\<lparr>wbuffer := w\<rparr>) = writable_file f"
  by (simp_all add: takes_ok_def writable_file_def)

lemma file_flush_returns:
  assumes "takes_ok (length (wbuffer f) + n) f"
  obtains g where "file_flush f = (Done (Inr ()), g)" "takes_ok n g" "writable_file g = writable_file f" "wbuffer g = []"
proof -
  obtain g where "file_write_all (wbuffer f) f = (Done (Inr ()), g)" "takes_ok n g" "writable_file g = writable_file f"
    using file_write_all_returns [OF assms] .
  then show ?thesis by (intro that [of "g\<lparr>wbuffer := []\<rparr>"]) (simp_all add: file_flush_def bbind_def bmodify_def)
qed

lemma file_write_returns:
  assumes "takes_ok (length (wbuffer f) + length d + n) f" "writable_file f"
  shows "\<exists>g. file_write d f = (Done (Inr ()), g) \<and> takes_ok (length (wbuffer g) + n) g \<and> writable_file g"
proof -
  have open_file: "\<not> file_closed f" "FLAG_WRITE f" using assms(2) by (simp_all add: writable_file_def)
  define f1 where "f1 = f\<lparr>wbuffer := wbuffer f @ d\<rparr>"
  have f1: "takes_ok (length (wbuffer f1) + n) f1" "writable_file f1" "FLAG_LINE_BUFFERED f1 = FLAG_LINE_BUFFERED f" "bufsize f1 = bufsize f"
    using assms by (simp_all add: f1_def)
  consider (plain) "\<not> FLAG_BUFFERED f" | (line) "FLAG_BUFFERED f" "FLAG_LINE_BUFFERED f" "LF \<in> set d"
    | (full) "FLAG_BUFFERED f" "\<not> FLAG_LINE_BUFFERED f" "bufsize f \<le> int (length (wbuffer f1))"
    | (kept) "FLAG_BUFFERED f" "FLAG_LINE_BUFFERED f \<and> LF \<notin> set d \<or> \<not> FLAG_LINE_BUFFERED f \<and> \<not> bufsize f \<le> int (length (wbuffer f1))"
    by auto
  then show ?thesis
  proof cases
    case plain
    have "takes_ok (length d + (length (wbuffer f) + n)) f" using assms(1) by (simp add: ac_simps)
    from file_write_all_returns [OF this] plain open_file assms(2) show ?thesis by (fastforce simp: file_write_def)
  next
    case full
    from file_flush_returns [OF f1(1)] full open_file f1(2) show ?thesis
      by (fastforce simp: file_write_def f1_def [symmetric] Let_def f1(3,4))
  next
    case kept
    then have "file_write d f = (Done (Inr ()), f1)" using open_file unfolding file_write_def f1_def [symmetric] Let_def
      by (auto simp: bret_def f1(3,4))
    with f1 show ?thesis by simp
  next
    case line
    define k where "k = last_newline d + (length (wbuffer f1) - length d) + 1"
    have "length (wbuffer f1) = length (take k (wbuffer f1)) + length (drop k (wbuffer f1))" by (metis append_take_drop_id length_append)
    with f1(1) have "takes_ok (length (take k (wbuffer f1)) + (length (drop k (wbuffer f1)) + n)) f1" by (simp only: add.assoc)
    then obtain g where g: "file_write_all (take k (wbuffer f1)) f1 = (Done (Inr ()), g)" "takes_ok (length (drop k (wbuffer f1)) + n) g"
      "writable_file g = writable_file f1" by (rule file_write_all_returns)
    then have "file_write d f = (Done (Inr ()), g\<lparr>wbuffer := drop k (wbuffer f1)\<rparr>)"
      using line open_file unfolding file_write_def f1_def [symmetric] Let_def k_def
      by (simp add: f1(3) bbind_def bmodify_def)
    with g f1(2) show ?thesis by simp
  qed
qed

lemma file_writelines_done:
  assumes "wbuffer_ok f" "writable_file f" "takes_ok (length (wbuffer f) + length (concat ds)) f"
  shows "\<exists>g. file_writelines ds f = (Done (Inr ()), g) \<and> sink g @ wbuffer g = sink f @ wbuffer f @ concat ds \<and>
    takes_ok (length (wbuffer g)) g \<and> wbuffer_ok g"
  using assms
proof (induction ds arbitrary: f)
  case (Cons d ds)
  then obtain g where g: "file_write d f = (Done (Inr ()), g)" "takes_ok (length (wbuffer g) + length (concat ds)) g" "writable_file g"
    using file_write_returns [of f d "length (concat ds)"] by (auto simp: add.assoc)
  note w = file_write_done [OF g(1) Cons.prems(1)]
  then obtain h where h: "file_writelines ds g = (Done (Inr ()), h)" "sink h @ wbuffer h = sink g @ wbuffer g @ concat ds"
    "takes_ok (length (wbuffer h)) h" "wbuffer_ok h"
    using Cons.IH [OF _ g(3,2)] by blast
  have "sink h @ wbuffer h = (sink g @ wbuffer g) @ concat ds" using h(2) by simp
  then have "sink h @ wbuffer h = sink f @ wbuffer f @ concat (d # ds)" using w by simp
  with g(1) h show ?case by (simp add: bbind_def)
qed (simp add: bret_def)

text \<open>C37: what is written arrives in order: write any pieces to a file that is open for writing, unbuffered,
  buffered or line buffered, over a stream that goes on taking bytes, in portions of any size, and
  close it. All this returns; the stream has then received what was buffered before and after it the
  pieces, in order, once each, and nothing is left in the buffer.\<close>

theorem written_in_order:
  assumes "wbuffer_ok f" "writable_file f" "takes_ok (length (wbuffer f) + length (concat ds)) f"
  shows "\<exists>g. bbind (file_writelines ds) (\<lambda>_. file_close) f = (Done (Inr ()), g) \<and>
    sink g = sink f @ wbuffer f @ concat ds \<and> wbuffer g = [] \<and> file_closed g"
proof -
  obtain g where g: "file_writelines ds f = (Done (Inr ()), g)" "sink g @ wbuffer g = sink f @ wbuffer f @ concat ds"
    "takes_ok (length (wbuffer g) + 0) g" using file_writelines_done [OF assms] by auto
  from g(3) obtain h where "file_flush g = (Done (Inr ()), h)" by (rule file_flush_returns)
  with file_flush_done [OF this] g show ?thesis by (simp add: file_close_def bbind_def bmodify_def)
qed

theorem written_in_order_witness:
  "\<exists>g. bbind (file_writelines [[1, 2], [3, LF, 4]]) (\<lambda>_. file_close) (set_mode 0 ''wb'' 1 (BufferedFile_init [] [Inr 1, Inr 5, Inr 9, Inr 9, Inr 9]))
     = (Done (Inr ()), g) \<and> sink g = [1, 2, 3, LF, 4] \<and> file_closed g"
proof -
  define f where "f = set_mode 0 ''wb'' 1 (BufferedFile_init [] [Inr 1, Inr 5, Inr 9, Inr 9, Inr 9])"
  have "wbuffer_ok f" "writable_file f" "takes_ok (length (wbuffer f) + length (concat [[1, 2], [3, LF, 4]])) f" "sink f = []" "wbuffer f = []"
    by (simp_all add: f_def set_mode_def BufferedFile_init_def wbuffer_ok_def writable_file_def takes_ok_def Let_def)
  then show ?thesis using written_in_order [of f "[[1, 2], [3, LF, 4]]"] unfolding f_def [symmetric] by fastforce
qed

text \<open>A flush that fails on the way leaves the whole buffer: the next one, which may be that of \<^verbatim>\<open>close\<close> or
  \<^verbatim>\<open>__del__\<close>, writes the first part again.\<close>

lemma failed_flush_doubles:
  assumes "takes f = [Inr k, Inl e, Inr (length (wbuffer f))]" "k < length (wbuffer f)"
  shows "\<exists>g h. file_flush f = (Done (Inl e), g) \<and> file_flush g = (Done (Inr ()), h) \<and>
    sink h = sink f @ take k (wbuffer f) @ wbuffer f"
proof -
  obtain c cs where w: "wbuffer f = c # cs" using assms(2) by (cases "wbuffer f") auto
  obtain d ds where r: "drop k (c # cs) = d # ds" using assms(2) w by (cases "drop k (c # cs)") auto
  define g where "g = snd (file_flush f)"
  have g: "file_flush f = (Done (Inl e), g)" "sink g = sink f @ take k (wbuffer f)" "wbuffer g = wbuffer f" "takes g = [Inr (length (wbuffer f))]"
    using assms(1) by (auto simp: g_def file_flush_def file_write_all_def bbind_def w r Let_def)
  have "fst (file_flush g) = Done (Inr ())" using g w by (simp add: file_flush_def file_write_all_def bbind_def bmodify_def Let_def)
  then obtain h where h: "file_flush g = (Done (Inr ()), h)" by (cases "file_flush g") auto
  from file_flush_done [OF this] g h show ?thesis by simp
qed

text \<open>Line buffering has no limit: a line without its end stays in the buffer, however long it is.\<close>

lemma line_buffer_unlimited:
  assumes "\<not> file_closed f" "FLAG_WRITE f" "FLAG_BUFFERED f" "FLAG_LINE_BUFFERED f" "LF \<notin> set d"
  shows "file_write d f = (Done (Inr ()), f\<lparr>wbuffer := wbuffer f @ d\<rparr>)"
  using assms by (simp add: file_write_def bret_def Let_def)

end
