(* ===== verification/Ber.thy ===== *)
theory Ber
  imports Py_Util
begin

text \<open>
  The BER encoding of key files, \<^verbatim>\<open>paramiko/ber.py\<close>. A \<^verbatim>\<open>BER\<close> object that is read is given by the part of
  its content from \<^verbatim>\<open>idx\<close> on. Shown: what is encoded from integers and lists is decoded to the same,
  and what is encoded from other types is not.
\<close>

section \<open>Definitions\<close>

datatype ber = BInt int | BSeq "ber list"

text \<open>The identifier, the data and what follows; \<open>None\<close> where the code returns \<^verbatim>\<open>None\<close>.\<close>

fun ident_loop :: "int \<Rightarrow> bytes \<Rightarrow> int \<times> bytes" where
  "ident_loop ident [] = (ident, [])"
| "ident_loop ident (t # r) =
     (let ident = push_bit 7 ident OR uint (t AND 0x7F) in if t AND 0x80 = 0 then (ident, r) else ident_loop ident r)"

definition ber_ident :: "bytes \<Rightarrow> (int \<times> bytes) option" where
  "ber_ident s =
     (case s of
        [] \<Rightarrow> None
      | i # r \<Rightarrow> Some (if i AND 31 = 31 then ident_loop 0 r else (uint i, r)))"

definition ber_size :: "bytes \<Rightarrow> (int \<times> bytes) option" where
  "ber_size s =
     (case s of
        [] \<Rightarrow> None
      | z # r \<Rightarrow>
          if z AND 0x80 \<noteq> 0 then
            (let t = unat (z AND 0x7F) in
             if t > length r then None else Some (inflate_long (take t r) True, drop t r))
          else Some (uint z, r))"

definition ber_header :: "bytes \<Rightarrow> (int \<times> bytes \<times> bytes) option" where
  "ber_header s =
     (case ber_ident s of
        None \<Rightarrow> None
      | Some (ident, r) \<Rightarrow>
          (case ber_size r of
             None \<Rightarrow> None
           | Some (n, r) \<Rightarrow> if n > int (length r) then None else Some (ident, take (nat n) r, drop (nat n) r)))"

lemma ident_loop_length: "length (snd (ident_loop i s)) \<le> length s"
  by (induction i s rule: ident_loop.induct) (auto simp: Let_def)

lemma ber_header_length:
  assumes "ber_header s = Some (i, d, r)"
  shows "length d < length s" "length r < length s"
proof -
  obtain i' q n r' where q: "ber_ident s = Some (i', q)" "ber_size q = Some (n, r')" "d = take (nat n) r'" "r = drop (nat n) r'"
    using assms by (auto simp: ber_header_def split: option.splits if_splits)
  have "length q < length s"
    using q(1) ident_loop_length [of 0 "tl s"] by (auto simp: ber_ident_def split: list.splits if_splits)
  moreover have "length r' \<le> length q" using q(2) by (auto simp: ber_size_def Let_def split: list.splits if_splits)
  ultimately show "length d < length s" "length r < length s" using q by auto
qed

text \<open>\<^verbatim>\<open>decode_sequence\<close> and the switch on the identifier.\<close>

function decode_items :: "bytes \<Rightarrow> py_error + ber list" and ber_value :: "int \<Rightarrow> bytes \<Rightarrow> py_error + ber" where
  "decode_items s =
     (case ber_header s of
        None \<Rightarrow> Inr []
      | Some (ident, d, r) \<Rightarrow> rbind (ber_value ident d) (\<lambda>v. rbind (decode_items r) (\<lambda>vs. Inr (v # vs))))"
| "ber_value ident d =
     (if ident = 0x30 then rbind (decode_items d) (\<lambda>l. Inr (BSeq l))
      else if ident = 2 then Inr (BInt (inflate_long d False))
      else Inl BERException)"
  by pat_completeness auto

termination
  by (relation "measure (\<lambda>x. case x of Inl s \<Rightarrow> 2 * length s | Inr (i, d) \<Rightarrow> 2 * length d + 1)")
    (use ber_header_length in \<open>fastforce dest: sym [of _ "ber_header _"] simp: less_Suc_eq_le\<close>)+

declare decode_items.simps [simp del] ber_value.simps [simp del]

definition ber_decode :: "bytes \<Rightarrow> py_error + ber option" where
  "ber_decode s =
     (case ber_header s of
        None \<Rightarrow> Inr None
      | Some (ident, d, r) \<Rightarrow> rbind (ber_value ident d) (\<lambda>v. Inr (Some v)))"

text \<open>What may be given to \<^verbatim>\<open>encode\<close>: adding a string to bytes raises.\<close>

datatype py_value = VInt int | VBool bool | VStr pystr | VList "py_value list" | VOther

definition encode_tlv :: "byte \<Rightarrow> bytes \<Rightarrow> py_error + bytes" where
  "encode_tlv ident val =
     (if length val > 0x7F then
        (let lenstr = deflate_long (int (length val)) True in
         if 0x80 + length lenstr > 255 then Inl StructError
         else Inr (ident # of_nat (0x80 + length lenstr) # lenstr @ val))
      else Inr (ident # of_nat (length val) # val))"

fun ber_encode :: "py_value \<Rightarrow> py_error + bytes" and encode_sequence :: "py_value list \<Rightarrow> py_error + bytes" where
  "ber_encode (VBool b) = encode_tlv 1 [if b then 0xFF else 0]"
| "ber_encode (VInt n) = encode_tlv 2 (deflate_long n True)"
| "ber_encode (VStr s) = Inl TypeError"
| "ber_encode (VList l) = rbind (encode_sequence l) (encode_tlv 0x30)"
| "ber_encode VOther = Inl BERException"
| "encode_sequence [] = Inr []"
| "encode_sequence (x # xs) = rbind (ber_encode x) (\<lambda>e. rbind (encode_sequence xs) (\<lambda>es. Inr (e @ es)))"

section \<open>Round trip\<close>

fun plain :: "py_value \<Rightarrow> bool" where
  "plain (VInt n) = True"
| "plain (VList l) = list_all plain l"
| "plain _ = False"

fun ber_of :: "py_value \<Rightarrow> ber" where
  "ber_of (VInt n) = BInt n"
| "ber_of (VList l) = BSeq (map ber_of l)"
| "ber_of _ = BInt 0"

lemma byte_of_nat: "n < 256 \<Longrightarrow> uint (of_nat n :: byte) = int n"
  by (simp add: unsigned_of_nat take_bit_eq_mod)

lemma encode_tlv_header:
  assumes "encode_tlv ident val = Inr e" "ident AND 31 \<noteq> 31"
  shows "ber_header (e @ s) = Some (uint ident, val, s)"
proof (cases "length val > 0x7F")
  case True
  define l where "l = deflate_long (int (length val)) True"
  have e: "e = ident # of_nat (0x80 + length l) # l @ val" "length l \<le> 127"
    using assms(1) True by (auto simp: encode_tlv_def l_def [symmetric] Let_def split: if_splits)
  have "twos_complement l = int (length val)" using inflate_deflate_long [of "int (length val)"] by (simp add: l_def inflate_long_signed)
  moreover have "be_dec l = twos_complement l"
  proof (rule ccontr)
    assume "be_dec l \<noteq> twos_complement l"
    then have "twos_complement l = be_dec l - 256 ^ length l" by (auto simp: twos_complement_def split: if_splits)
    with calculation be_dec_bounds(2) [of l] show False by simp
  qed
  ultimately have v: "inflate_long l True = int (length val)" by (simp add: inflate_long_positive)
  have u: "uint (of_nat (128 + length l) :: byte) = 128 + int (length l)" 
    using byte_of_nat [of "128 + length l"] e(2) by simp
  then have z: "(of_nat (128 + length l) :: byte) AND 128 \<noteq> 0" "uint ((of_nat (128 + length l) :: byte) AND 127) = int (length l)"
    using e(2) by (simp_all add: byte_and_80 byte_and_7F)
  then have "unat ((of_nat (128 + length l) :: byte) AND 127) = length l" by (simp add: unat_eq_nat_uint)
  note z = z(1) this
  show ?thesis using z v assms(2) by (simp add: e ber_header_def ber_ident_def ber_size_def Let_def)
next
  case False
  then have e: "e = ident # of_nat (length val) # val" using assms(1) by (simp add: encode_tlv_def)
  have u: "uint (of_nat (length val) :: byte) = int (length val)" using False by (simp add: unsigned_of_nat take_bit_eq_mod)
  then have z: "(of_nat (length val) :: byte) AND 128 = 0" using False by (simp add: byte_and_80)
  show ?thesis using z u assms(2) by (simp add: e ber_header_def ber_ident_def ber_size_def)
qed

lemma ber_header_Nil [simp]: "ber_header [] = None"
  by (simp add: ber_header_def ber_ident_def)

lemma encode_decode:
  "plain x \<Longrightarrow> ber_encode x = Inr e \<Longrightarrow> \<exists>i d. ber_header (e @ s) = Some (i, d, s) \<and> ber_value i d = Inr (ber_of x)"
  "list_all plain l \<Longrightarrow> encode_sequence l = Inr e \<Longrightarrow> decode_items e = Inr (map ber_of l)"
proof (induction x and l arbitrary: e s and e rule: ber_encode_encode_sequence.induct)
  case (2 n)
  then have "encode_tlv 2 (deflate_long n True) = Inr e" by simp
  from encode_tlv_header [OF this] show ?case by (simp add: ber_value.simps inflate_deflate_long)
next
  case (4 l)
  then obtain c where c: "encode_sequence l = Inr c" "encode_tlv 0x30 c = Inr e" by (auto simp: rbind_def split: sum.splits)
  with 4 have "decode_items c = Inr (map ber_of l)" by simp
  with encode_tlv_header [OF c(2)] show ?case by (simp add: ber_value.simps)
next
  case (7 x xs)
  then obtain a b where e: "ber_encode x = Inr a" "encode_sequence xs = Inr b" "e = a @ b"
    by (auto simp: rbind_def split: sum.splits)
  have "list_all plain xs" "plain x" using "7.prems" by simp_all
  with "7.IH" e obtain i d where "ber_header (a @ b) = Some (i, d, b)" "ber_value i d = Inr (ber_of x)" "decode_items b = Inr (map ber_of xs)"
    by (metis (no_types, lifting))
  then show ?case by (simp add: decode_items.simps [of "a @ b"] e(3))
qed (simp_all add: decode_items.simps)

text \<open>Only a part whose length needs more than 127 bytes cannot be encoded: room enough for a value and all the
  headers in it.\<close>

fun ber_room :: "py_value \<Rightarrow> nat" where
  "ber_room (VInt n) = length (deflate_long n True) + 129"
| "ber_room (VList l) = sum_list (map ber_room l) + 129"
| "ber_room _ = 0"

definition ber_limit :: nat where
  "ber_limit = 256 ^ 126"

lemma deflate_length_short:
  assumes "n < ber_limit"
  shows "length (deflate_long (int n) True) \<le> 127"
proof (rule ccontr)
  define l where "l = deflate_long (int n) True"
  assume "\<not> length (deflate_long (int n) True) \<le> 127"
  then have l: "1 < length l" "126 \<le> length l - 2" by (simp_all add: l_def)
  have "128 * 256 ^ (length l - 2) \<le> twos_complement l \<or> twos_complement l < - (128 * 256 ^ (length l - 2))"
    by (rule normal_long_big) (use l in \<open>simp_all add: l_def deflate_long_normal\<close>)
  moreover have "twos_complement l = int n" using inflate_deflate_long [of "int n"] by (simp add: l_def inflate_long_signed)
  moreover have "(256 :: int) ^ 126 \<le> 256 ^ (length l - 2)" by (rule power_increasing [OF l(2)]) simp
  moreover have "int n < 256 ^ 126" using assms unfolding ber_limit_def by (metis of_nat_less_iff of_nat_numeral of_nat_power)
  ultimately show False by linarith
qed

lemma encode_tlv_total:
  assumes "length val < ber_limit"
  shows "\<exists>e. encode_tlv ident val = Inr e \<and> length e \<le> length val + 129"
  using deflate_length_short [OF assms] by (auto simp: encode_tlv_def Let_def)

lemma encode_total:
  "plain x \<Longrightarrow> ber_room x < ber_limit \<Longrightarrow> \<exists>e. ber_encode x = Inr e \<and> length e \<le> ber_room x"
  "list_all plain l \<Longrightarrow> sum_list (map ber_room l) < ber_limit \<Longrightarrow>
     \<exists>e. encode_sequence l = Inr e \<and> length e \<le> sum_list (map ber_room l)"
proof (induction x and l rule: ber_encode_encode_sequence.induct)
  case (2 n)
  then have "length (deflate_long n True) < ber_limit" unfolding ber_room.simps by linarith
  from encode_tlv_total [OF this, of 2] show ?case by simp
next
  case (4 l)
  then have "sum_list (map ber_room l) < ber_limit" unfolding ber_room.simps by linarith
  with 4 obtain c where c: "encode_sequence l = Inr c" "length c \<le> sum_list (map ber_room l)" by auto
  then have "length c < ber_limit" using \<open>sum_list (map ber_room l) < ber_limit\<close> by linarith
  from encode_tlv_total [OF this, of "0x30"] c show ?case by auto
next
  case (7 x xs)
  then have r: "ber_room x < ber_limit" "sum_list (map ber_room xs) < ber_limit" unfolding list.map sum_list.Cons by linarith+
  with 7 obtain a where a: "ber_encode x = Inr a" "length a \<le> ber_room x" by auto
  with 7 r obtain b where "encode_sequence xs = Inr b" "length b \<le> sum_list (map ber_room xs)" by auto
  with a show ?case by simp
qed simp_all

text \<open>C40: what BER encodes it decodes: every value built from integers of any size and lists, however deep and
  long, can be encoded, and is read back as it was written, whatever follows it; the only limit is
  that lengths have at most 127 bytes.\<close>

theorem ber_roundtrip:
  assumes "plain x" "ber_room x < ber_limit"
  shows "\<exists>e. ber_encode x = Inr e \<and> (\<forall>s. ber_decode (e @ s) = Inr (Some (ber_of x)))"
proof -
  obtain e where e: "ber_encode x = Inr e" using encode_total(1) [OF assms] by blast
  have "ber_decode (e @ s) = Inr (Some (ber_of x))" for s
    using encode_decode(1) [OF assms(1) e, of s] by (auto simp: ber_decode_def)
  with e show ?thesis by blast
qed

definition demo_value :: py_value where
  "demo_value = VList [VInt (- 300), VList [], VInt (2 ^ 2000)]"

theorem ber_roundtrip_witness:
  "\<exists>e. ber_encode demo_value = Inr e \<and> ber_decode (e @ [1]) = Inr (Some (BSeq [BInt (- 300), BSeq [], BInt (2 ^ 2000)]))"
proof -
  have "plain demo_value" "ber_room demo_value < 1000" by code_simp+
  moreover from this(2) have "ber_room demo_value < ber_limit" by (simp add: ber_limit_def)
  ultimately show ?thesis using ber_roundtrip [of demo_value] by (auto simp: demo_value_def)
qed

text \<open>The other types that \<^verbatim>\<open>encode\<close> names: a truth value is encoded to what cannot be decoded, and text
  cannot be encoded at all.\<close>

lemma ber_bool_not_decoded: "ber_encode (VBool b) = Inr e \<Longrightarrow> ber_decode e = Inl BERException"
  using encode_tlv_header [of 1 "[if b then 0xFF else 0]" e "[]"] by (simp add: ber_decode_def ber_value.simps)

lemma ber_text_raises: "ber_encode (VStr s) = Inl TypeError"
  by simp

end
