(* ===== verification/Sftp.thy ===== *)
theory Sftp
  imports Ssh_Common
begin

text \<open>
  What the two sides of SFTP share: packets on a stream (\<^verbatim>\<open>BaseSFTP\<close> of \<^verbatim>\<open>paramiko/sftp.py\<close>) and file attributes
  (\<^verbatim>\<open>paramiko/sftp_attr.py\<close>). Shown: a packet that is sent is received, however the stream is cut; the
  attributes of a file survive the wire, except that extended attributes arrive with key and value
  exchanged.
\<close>

section \<open>Message numbers\<close>

definition CMD_INIT :: byte where [msg_codes]: "CMD_INIT = 1"
definition CMD_VERSION :: byte where [msg_codes]: "CMD_VERSION = 2"
definition CMD_OPEN :: byte where [msg_codes]: "CMD_OPEN = 3"
definition CMD_CLOSE :: byte where [msg_codes]: "CMD_CLOSE = 4"
definition CMD_READ :: byte where [msg_codes]: "CMD_READ = 5"
definition CMD_WRITE :: byte where [msg_codes]: "CMD_WRITE = 6"
definition CMD_LSTAT :: byte where [msg_codes]: "CMD_LSTAT = 7"
definition CMD_FSTAT :: byte where [msg_codes]: "CMD_FSTAT = 8"
definition CMD_SETSTAT :: byte where [msg_codes]: "CMD_SETSTAT = 9"
definition CMD_FSETSTAT :: byte where [msg_codes]: "CMD_FSETSTAT = 10"
definition CMD_OPENDIR :: byte where [msg_codes]: "CMD_OPENDIR = 11"
definition CMD_READDIR :: byte where [msg_codes]: "CMD_READDIR = 12"
definition CMD_REMOVE :: byte where [msg_codes]: "CMD_REMOVE = 13"
definition CMD_MKDIR :: byte where [msg_codes]: "CMD_MKDIR = 14"
definition CMD_RMDIR :: byte where [msg_codes]: "CMD_RMDIR = 15"
definition CMD_REALPATH :: byte where [msg_codes]: "CMD_REALPATH = 16"
definition CMD_STAT :: byte where [msg_codes]: "CMD_STAT = 17"
definition CMD_RENAME :: byte where [msg_codes]: "CMD_RENAME = 18"
definition CMD_READLINK :: byte where [msg_codes]: "CMD_READLINK = 19"
definition CMD_SYMLINK :: byte where [msg_codes]: "CMD_SYMLINK = 20"
definition CMD_STATUS :: byte where [msg_codes]: "CMD_STATUS = 101"
definition CMD_HANDLE :: byte where [msg_codes]: "CMD_HANDLE = 102"
definition CMD_DATA :: byte where [msg_codes]: "CMD_DATA = 103"
definition CMD_NAME :: byte where [msg_codes]: "CMD_NAME = 104"
definition CMD_ATTRS :: byte where [msg_codes]: "CMD_ATTRS = 105"
definition CMD_EXTENDED :: byte where [msg_codes]: "CMD_EXTENDED = 200"
definition CMD_EXTENDED_REPLY :: byte where [msg_codes]: "CMD_EXTENDED_REPLY = 201"

definition SFTP_OK :: int where "SFTP_OK = 0"
definition SFTP_EOF :: int where "SFTP_EOF = 1"
definition SFTP_NO_SUCH_FILE :: int where "SFTP_NO_SUCH_FILE = 2"
definition SFTP_PERMISSION_DENIED :: int where "SFTP_PERMISSION_DENIED = 3"
definition SFTP_FAILURE :: int where "SFTP_FAILURE = 4"
definition SFTP_BAD_MESSAGE :: int where "SFTP_BAD_MESSAGE = 5"
definition SFTP_OP_UNSUPPORTED :: int where "SFTP_OP_UNSUPPORTED = 8"

definition SFTP_DESC :: "string list" where
  "SFTP_DESC = [''Success'', ''End of file'', ''No such file'', ''Permission denied'', ''Failure'', ''Bad message'',
     ''No connection'', ''Connection lost'', ''Operation unsupported'']"

text \<open>The keys of \<^verbatim>\<open>CMD_NAMES\<close>.\<close>

definition CMD_NAMES :: "byte list" where
  "CMD_NAMES = [1, 2, 3, 4, 5, 6, 7, 8, 9, 10, 11, 12, 13, 14, 15, 16, 17, 18, 19, 20, 101, 102, 103, 104, 105, 200, 201]"

definition SFTP_VERSION :: int where "SFTP_VERSION = 3"

section \<open>Packets\<close>

text \<open>The socket below: what the peer has sent, cut as \<^verbatim>\<open>recv\<close> returns it, the results of \<^verbatim>\<open>send\<close>, and what
  was sent. When no more pieces are given, \<^verbatim>\<open>recv\<close> returns the empty string.\<close>

record sftp_sock =
  pieces :: "bytes list"
  accepts :: "int list"
  outgoing :: bytes

definition sock_recv :: "nat \<Rightarrow> sftp_sock \<Rightarrow> bytes \<times> sftp_sock" where
  "sock_recv n k =
     (case pieces k of
        [] \<Rightarrow> ([], k)
      | p # ps \<Rightarrow> (take n p, k\<lparr>pieces := (if drop n p = [] then ps else drop n p # ps)\<rparr>))"

function sftp_read_loop :: "nat \<Rightarrow> bytes \<Rightarrow> (sftp_sock, bytes) py" where
  "sftp_read_loop n out k =
     (if n = 0 then (Inr out, k)
      else case sock_recv n k of
        (x, k) \<Rightarrow> if x = [] then (Inl EOFError, k) else sftp_read_loop (n - length x) (out @ x) k)"
  by pat_completeness auto

termination
  by (relation "measure (\<lambda>(n, out, k). n)") (auto simp: length_greater_0_conv)

declare sftp_read_loop.simps [simp del]

definition sftp_read_all :: "nat \<Rightarrow> (sftp_sock, bytes) py" where
  "sftp_read_all n = sftp_read_loop n []"

text \<open>\<^verbatim>\<open>_write_all\<close>; with no further result \<^verbatim>\<open>send\<close> blocks.\<close>

fun sftp_write_loop :: "int list \<Rightarrow> bytes \<Rightarrow> (sftp_sock, unit) bpy" where
  "sftp_write_loop as [] k = (Done (Inr ()), k\<lparr>accepts := as\<rparr>)"
| "sftp_write_loop [] (c # cs) k = (Waiting, k\<lparr>accepts := []\<rparr>)"
| "sftp_write_loop (n # as) (c # cs) k =
     (if n \<le> 0 then (Done (Inl EOFError), k\<lparr>accepts := as\<rparr>)
      else sftp_write_loop as (drop (nat n) (c # cs)) (k\<lparr>outgoing := outgoing k @ take (nat n) (c # cs)\<rparr>))"

definition packet_bytes :: "byte \<Rightarrow> bytes \<Rightarrow> py_error + bytes" where
  "packet_bytes t packet = rbind (struct_pack 4 (int (length packet) + 1)) (\<lambda>l. Inr (l @ t # packet))"

definition sftp_send_packet :: "byte \<Rightarrow> bytes \<Rightarrow> (sftp_sock, unit) bpy" where
  "sftp_send_packet t packet k = bbind (blift (packet_bytes t packet)) (\<lambda>out k. sftp_write_loop (accepts k) out k) k"

text \<open>\<^verbatim>\<open>_read_packet\<close>; \<^verbatim>\<open>SFTPError\<close>, which is a class of its own, is \<open>OtherException\<close>.\<close>

definition sftp_read_packet :: "(sftp_sock, byte \<times> bytes) py" where
  "sftp_read_packet =
     pbind (sftp_read_all 4) (\<lambda>x.
     if hd x \<noteq> 0 then praise OtherException
     else
       pbind (sftp_read_all (nat (be_dec x))) (\<lambda>d.
       pret (if d = [] then (0, []) else (hd d, tl d))))"

lemma sock_recv_bytes: "sock_recv n k = (x, k') \<Longrightarrow> concat (pieces k) = x @ concat (pieces k') \<and> accepts k' = accepts k \<and> outgoing k' = outgoing k"
  by (auto simp: sock_recv_def split: list.splits if_splits)

definition pieces_ok :: "sftp_sock \<Rightarrow> bool" where
  "pieces_ok k \<longleftrightarrow> (\<forall>p \<in> set (pieces k). p \<noteq> [])"

lemma sock_recv_ok: "sock_recv n k = (x, k') \<Longrightarrow> pieces_ok k \<Longrightarrow> n \<noteq> 0 \<Longrightarrow> pieces_ok k' \<and> (x = [] \<longrightarrow> pieces k = []) \<and> length x \<le> n"
  by (auto simp: sock_recv_def pieces_ok_def split: list.splits if_splits)

lemma sftp_read_loop_exact:
  assumes "pieces_ok k" "n \<le> length (concat (pieces k))"
  shows "\<exists>k'. sftp_read_loop n out k = (Inr (out @ take n (concat (pieces k))), k') \<and> pieces_ok k'
    \<and> concat (pieces k') = drop n (concat (pieces k))"
  using assms
proof (induction n out k rule: sftp_read_loop.induct)
  case (1 n out k)
  show ?case
  proof (cases "n = 0")
    case True
    then show ?thesis using "1.prems" by (simp add: sftp_read_loop.simps [of 0])
  next
    case False
    obtain x k1 where x: "sock_recv n k = (x, k1)" by force
    note b = sock_recv_bytes [OF x] and o = sock_recv_ok [OF x "1.prems"(1) False]
    have ne: "x \<noteq> []" using o False "1.prems"(2) by auto
    have "n - length x \<le> length (concat (pieces k1))" using b "1.prems"(2) by simp
    with ne obtain k' where "sftp_read_loop (n - length x) (out @ x) k1 = (Inr ((out @ x) @ take (n - length x) (concat (pieces k1))), k')"
      "pieces_ok k'" "concat (pieces k') = drop (n - length x) (concat (pieces k1))"
      using "1.IH" [OF False x [symmetric]] o by blast
    with False x ne b o show ?thesis by (simp add: sftp_read_loop.simps [of n out k])
  qed
qed

lemma sftp_write_loop_done:
  "list_all (\<lambda>n. 0 < n) as \<Longrightarrow> length d \<le> length as \<Longrightarrow> \<exists>k'. sftp_write_loop as d k = (Done (Inr ()), k') \<and> outgoing k' = outgoing k @ d"
proof (induction as d k rule: sftp_write_loop.induct)
  case (3 n as c cs k)
  then have "length (drop (nat n) (c # cs)) \<le> length as" "0 < n" "list_all (\<lambda>n. 0 < n) as" by auto
  with "3.IH" obtain k' where "sftp_write_loop as (drop (nat n) (c # cs)) (k\<lparr>outgoing := outgoing k @ take (nat n) (c # cs)\<rparr>) = (Done (Inr ()), k')"
    "outgoing k' = outgoing k @ take (nat n) (c # cs) @ drop (nat n) (c # cs)" by fastforce
  with \<open>0 < n\<close> show ?case by simp
qed simp_all

text \<open>C38: SFTP packets cross the stream: over a socket that goes on taking bytes, in portions of any size,
  \<^verbatim>\<open>_send_packet\<close> returns; and when the peer gets the bytes that were sent, cut in any way and
  followed by anything, its \<^verbatim>\<open>_read_packet\<close> returns the same type and content and takes exactly
  these bytes. This holds up to the limit of 16 MB that the receiver sets.\<close>

theorem sftp_packet_roundtrip:
  assumes "list_all (\<lambda>n. 0 < n) (accepts k)" "length packet + 5 \<le> length (accepts k)" "length packet + 1 < 2 ^ 24"
  shows "\<exists>k1 out. sftp_send_packet t packet k = (Done (Inr ()), k1) \<and> outgoing k1 = outgoing k @ out \<and>
    (\<forall>r rest. pieces_ok r \<and> concat (pieces r) = out @ rest \<longrightarrow>
       (\<exists>r'. sftp_read_packet r = (Inr (t, packet), r') \<and> concat (pieces r') = rest))"
proof -
  define n where "n = int (length packet) + 1"
  define out where "out = be_enc 4 n @ t # packet"
  have n: "0 \<le> n" "n < 256 ^ 3" "n < 256 ^ 4" "nat n = Suc (length packet)" using assms(3) by (simp_all add: n_def)
  have "packet_bytes t packet = Inr out" using n by (simp add: packet_bytes_def n_def [symmetric] struct_pack_def out_def)
  moreover have "length out \<le> length (accepts k)" using assms(2) by (simp add: out_def)
  ultimately obtain k1 where k1: "sftp_send_packet t packet k = (Done (Inr ()), k1)" "outgoing k1 = outgoing k @ out"
    using sftp_write_loop_done [OF assms(1), of out k] by (auto simp: sftp_send_packet_def bbind_def blift_def)
  have z: "hd (be_enc 4 n) = 0"
  proof -
    have "length (be_enc 4 n) = Suc 3" by simp
    then obtain a as where a: "be_enc 4 n = a # as" and l: "length as = 3" unfolding length_Suc_conv by blast
    have "n = uint a * 256 ^ 3 + be_dec as" using be_dec_be_enc_id [OF n(1,3)] unfolding a be_dec_Cons l by simp
    then have "uint a * 16777216 < 16777216" using n(2) be_dec_bounds(1) [of as] by simp
    then have "uint a = 0" using uint_byte_bounds(1) [of a] by linarith
    then show ?thesis unfolding a by (simp add: word_uint_eq_iff)
  qed
  have "\<exists>r'. sftp_read_packet r = (Inr (t, packet), r') \<and> concat (pieces r') = rest"
    if r: "pieces_ok r" "concat (pieces r) = out @ rest" for r rest
  proof -
    obtain r1 where r1: "sftp_read_all 4 r = (Inr (be_enc 4 n), r1)" "pieces_ok r1" "concat (pieces r1) = t # packet @ rest"
      using sftp_read_loop_exact [OF r(1), of 4 "[]"] r(2) by (auto simp: sftp_read_all_def out_def)
    obtain r2 where "sftp_read_all (nat n) r1 = (Inr (t # packet), r2)" "concat (pieces r2) = rest"
      using sftp_read_loop_exact [OF r1(2), of "nat n" "[]"] r1(3) n(4) by (auto simp: sftp_read_all_def)
    then show ?thesis
      using r1(1) z be_dec_be_enc_id [OF n(1,3)] by (simp add: sftp_read_packet_def pbind_def pret_def)
  qed
  with k1 show ?thesis by blast
qed

definition demo_sock :: "bytes list \<Rightarrow> int list \<Rightarrow> sftp_sock" where
  "demo_sock p a = \<lparr>pieces = p, accepts = a, outgoing = []\<rparr>"

theorem sftp_packet_roundtrip_witness:
  "outgoing (snd (sftp_send_packet 4 [7, 9] (demo_sock [] [3, 1, 1, 9, 9, 9, 9]))) = [0, 0, 0, 3, 4, 7, 9] \<and>
   (\<exists>r'. sftp_read_packet (demo_sock [[0, 0], [0, 3, 4, 7], [9, 5]] []) = (Inr (4, [7, 9]), r') \<and> concat (pieces r') = [5])"
proof -
  define k where "k = demo_sock [] [3, 1, 1, 9, 9, 9, 9]"
  have o: "outgoing (snd (sftp_send_packet 4 [7, 9] k)) = [0, 0, 0, 3, 4, 7, 9]" unfolding k_def by code_simp
  obtain k1 out where k1: "sftp_send_packet 4 [7, 9] k = (Done (Inr ()), k1)" "outgoing k1 = outgoing k @ out"
    "\<forall>r rest. pieces_ok r \<and> concat (pieces r) = out @ rest \<longrightarrow>
       (\<exists>r'. sftp_read_packet r = (Inr (4, [7, 9]), r') \<and> concat (pieces r') = rest)"
    using sftp_packet_roundtrip [of k "[7, 9]" 4] by (auto simp: k_def demo_sock_def)
  then have "out = [0, 0, 0, 3, 4, 7, 9]" using o by (simp add: k_def demo_sock_def)
  with k1(3) [rule_format, of "demo_sock [[0, 0], [0, 3, 4, 7], [9, 5]] []" "[5]"] o
  show ?thesis by (simp add: demo_sock_def pieces_ok_def k_def)
qed

section \<open>Attributes\<close>

text \<open>\<open>st_attr\<close> is the dictionary \<^verbatim>\<open>attr\<close>, in order. Times are whole seconds; the file name and the long name
  that a reply may set are not part of the encoding.\<close>

record sftp_attr =
  st_flags :: int
  st_size :: "int option"
  st_uid :: "int option"
  st_gid :: "int option"
  st_mode :: "int option"
  st_atime :: "int option"
  st_mtime :: "int option"
  st_attr :: "(bytes \<times> bytes) list"

definition SFTPAttributes_init :: sftp_attr where
  "SFTPAttributes_init =
     \<lparr>st_flags = 0, st_size = None, st_uid = None, st_gid = None, st_mode = None, st_atime = None, st_mtime = None, st_attr = []\<rparr>"

definition FLAG_SIZE :: int where "FLAG_SIZE = 1"
definition FLAG_UIDGID :: int where "FLAG_UIDGID = 2"
definition FLAG_PERMISSIONS :: int where "FLAG_PERMISSIONS = 4"
definition FLAG_AMTIME :: int where "FLAG_AMTIME = 8"
definition FLAG_EXTENDED :: int where "FLAG_EXTENDED = 0x80000000"

lemmas attr_flags = FLAG_SIZE_def FLAG_UIDGID_def FLAG_PERMISSIONS_def FLAG_AMTIME_def FLAG_EXTENDED_def

fun dict_put :: "'k \<Rightarrow> 'v \<Rightarrow> ('k \<times> 'v) list \<Rightarrow> ('k \<times> 'v) list" where
  "dict_put k v [] = [(k, v)]"
| "dict_put k v ((k', v') # d) = (if k' = k then (k, v) # d else (k', v') # dict_put k v d)"

text \<open>The loop over the extended attributes. In \<^verbatim>\<open>self.attr[msg.get_string()] = msg.get_string()\<close> the right side is
  evaluated first.\<close>

fun unpack_extended :: "nat \<Rightarrow> (bytes \<times> bytes) list \<Rightarrow> (message, (bytes \<times> bytes) list) py" where
  "unpack_extended 0 d = pret d"
| "unpack_extended (Suc n) d =
     pbind get_string (\<lambda>val. pbind get_string (\<lambda>key. unpack_extended n (dict_put key val d)))"

definition opt_read :: "bool \<Rightarrow> (message, 'a) py \<Rightarrow> (message, 'a option) py" where
  "opt_read b r = (if b then pbind r (\<lambda>x. pret (Some x)) else pret None)"

definition attr_unpack :: "(message, sftp_attr) py" where
  "attr_unpack =
     pbind get_int (\<lambda>flags.
     pbind (opt_read (flags AND FLAG_SIZE \<noteq> 0) get_int64) (\<lambda>sz.
     pbind (opt_read (flags AND FLAG_UIDGID \<noteq> 0) get_int) (\<lambda>uid.
     pbind (opt_read (flags AND FLAG_UIDGID \<noteq> 0) get_int) (\<lambda>gid.
     pbind (opt_read (flags AND FLAG_PERMISSIONS \<noteq> 0) get_int) (\<lambda>mode.
     pbind (opt_read (flags AND FLAG_AMTIME \<noteq> 0) get_int) (\<lambda>atime.
     pbind (opt_read (flags AND FLAG_AMTIME \<noteq> 0) get_int) (\<lambda>mtime.
     pbind (if flags AND FLAG_EXTENDED \<noteq> 0 then pbind get_int (\<lambda>count. unpack_extended (nat count) []) else pret []) (\<lambda>ext.
     pret \<lparr>st_flags = flags, st_size = sz, st_uid = uid, st_gid = gid, st_mode = mode, st_atime = atime,
           st_mtime = mtime, st_attr = ext\<rparr>))))))))"

definition attr_flags_of :: "sftp_attr \<Rightarrow> int" where
  "attr_flags_of a =
     (((if st_size a \<noteq> None then FLAG_SIZE else 0) OR (if st_uid a \<noteq> None \<and> st_gid a \<noteq> None then FLAG_UIDGID else 0))
      OR (if st_mode a \<noteq> None then FLAG_PERMISSIONS else 0))
      OR (if st_atime a \<noteq> None \<and> st_mtime a \<noteq> None then FLAG_AMTIME else 0)
      OR (if st_attr a \<noteq> [] then FLAG_EXTENDED else 0)"

definition opt_field :: "('a \<Rightarrow> field) \<Rightarrow> bool \<Rightarrow> 'a option \<Rightarrow> field list" where
  "opt_field f b x = (if b then [f (the x)] else [])"

text \<open>\<^verbatim>\<open>_pack\<close>: the attributes with the new flags, and the fields that are added to the message.\<close>

definition attr_pack :: "sftp_attr \<Rightarrow> sftp_attr \<times> field list" where
  "attr_pack a =
     (let flags = attr_flags_of a in
      (a\<lparr>st_flags := flags\<rparr>,
       FInt flags # opt_field FInt64 (flags AND FLAG_SIZE \<noteq> 0) (st_size a)
       @ opt_field FInt (flags AND FLAG_UIDGID \<noteq> 0) (st_uid a) @ opt_field FInt (flags AND FLAG_UIDGID \<noteq> 0) (st_gid a)
       @ opt_field FInt (flags AND FLAG_PERMISSIONS \<noteq> 0) (st_mode a)
       @ opt_field FInt (flags AND FLAG_AMTIME \<noteq> 0) (st_atime a) @ opt_field FInt (flags AND FLAG_AMTIME \<noteq> 0) (st_mtime a)
       @ (if flags AND FLAG_EXTENDED \<noteq> 0
          then FInt (int (length (st_attr a))) # concat (map (\<lambda>(k, v). [FString k, FString v]) (st_attr a)) else [])))"

text \<open>\<^verbatim>\<open>_rwx\<close> and the first column of \<^verbatim>\<open>__str__\<close>.\<close>

definition attr_rwx :: "int \<Rightarrow> bool \<Rightarrow> bool \<Rightarrow> string" where
  "attr_rwx n suid sticky =
     [''-r'' ! nat (drop_bit 2 n), ''-w'' ! nat (drop_bit 1 n AND 1),
      (if sticky then ''-xTt'' else ''-xSs'') ! nat ((if suid then 2 else 0) + (n AND 1))]"

definition mode_kind :: "int \<Rightarrow> char" where
  "mode_kind m =
     (let k = m AND 0xF000 in
      if k = 0x1000 then CHR ''p'' else if k = 0x2000 then CHR ''c'' else if k = 0x4000 then CHR ''d''
      else if k = 0x6000 then CHR ''b'' else if k = 0x8000 then CHR ''-'' else if k = 0xA000 then CHR ''l''
      else if k = 0xC000 then CHR ''s'' else CHR ''?'')"

definition mode_string :: "int option \<Rightarrow> string" where
  "mode_string mode =
     (case mode of
        None \<Rightarrow> ''?---------''
      | Some m \<Rightarrow>
          mode_kind m # attr_rwx (drop_bit 6 (m AND 0x1C0)) (m AND 0x800 \<noteq> 0) False
          @ attr_rwx (drop_bit 3 (m AND 0x38)) (m AND 0x400 \<noteq> 0) False @ attr_rwx (m AND 7) (m AND 0x200 \<noteq> 0) True)"

section \<open>Attributes on the wire\<close>

definition attr_ok :: "sftp_attr \<Rightarrow> bool" where
  "attr_ok a \<longleftrightarrow> pred_option u64_ok (st_size a) \<and>
     pred_option u32_ok (st_uid a) \<and> pred_option u32_ok (st_gid a) \<and> (st_uid a = None \<longleftrightarrow> st_gid a = None) \<and>
     pred_option u32_ok (st_mode a) \<and> pred_option u32_ok (st_atime a) \<and> pred_option u32_ok (st_mtime a) \<and>
     (st_atime a = None \<longleftrightarrow> st_mtime a = None) \<and>
     u32_ok (int (length (st_attr a))) \<and> list_all (\<lambda>(k, v). string_ok k \<and> string_ok v) (st_attr a)"

lemma flags_bits:
  fixes a b c d e :: bool
  defines "f \<equiv> (((if a then FLAG_SIZE else 0) OR (if b then FLAG_UIDGID else 0)) OR (if c then FLAG_PERMISSIONS else 0))
      OR (if d then FLAG_AMTIME else 0) OR (if e then FLAG_EXTENDED else 0)"
  shows "(f AND FLAG_SIZE \<noteq> 0) = a" "(f AND FLAG_UIDGID \<noteq> 0) = b" "(f AND FLAG_PERMISSIONS \<noteq> 0) = c"
    "(f AND FLAG_AMTIME \<noteq> 0) = d" "(f AND FLAG_EXTENDED \<noteq> 0) = e" "u32_ok f"
  unfolding f_def by (cases a; cases b; cases c; cases d; cases e; simp add: attr_flags u32_ok_def)+

lemmas attr_bits = flags_bits [of "st_size a \<noteq> None" "st_uid a \<noteq> None \<and> st_gid a \<noteq> None" "st_mode a \<noteq> None"
    "st_atime a \<noteq> None \<and> st_mtime a \<noteq> None" "st_attr a \<noteq> []" for a :: sftp_attr, folded attr_flags_of_def]

lemma enc_fields_append [simp]: "enc_fields (a @ b) = enc_fields a @ enc_fields b"
  by (simp add: enc_fields_def)

lemma enc_fields_simps: "enc_fields [] = []" "enc_fields (f # fs) = enc_field f @ enc_fields fs"
  by (simp_all add: enc_fields_def)

lemma opt_read_int:
  assumes "b \<longleftrightarrow> x \<noteq> None" "pred_option u32_ok x"
  shows "opt_read b get_int (reading pre (enc_fields (opt_field FInt b x) @ post)) =
    (Inr x, reading (pre @ enc_fields (opt_field FInt b x)) post)"
  using assms int_codec.get_enc by (cases x) (simp_all add: opt_read_def opt_field_def pbind_def pret_def enc_fields_simps)

lemma opt_read_int64:
  assumes "b \<longleftrightarrow> x \<noteq> None" "pred_option u64_ok x"
  shows "opt_read b get_int64 (reading pre (enc_fields (opt_field FInt64 b x) @ post)) =
    (Inr x, reading (pre @ enc_fields (opt_field FInt64 b x)) post)"
  using assms int64_codec.get_enc by (cases x) (simp_all add: opt_read_def opt_field_def pbind_def pret_def enc_fields_simps)

text \<open>The extended attributes as they arrive.\<close>

definition exchanged :: "(bytes \<times> bytes) list \<Rightarrow> (bytes \<times> bytes) list" where
  "exchanged l = fold (\<lambda>(k, v) d. dict_put v k d) l []"

lemma unpack_extended_done:
  "list_all (\<lambda>(k, v). string_ok k \<and> string_ok v) l \<Longrightarrow>
   unpack_extended (length l) d (reading pre (enc_fields (concat (map (\<lambda>(k, v). [FString k, FString v]) l)) @ post)) =
     (Inr (fold (\<lambda>(k, v) d. dict_put v k d) l d), reading (pre @ enc_fields (concat (map (\<lambda>(k, v). [FString k, FString v]) l))) post)"
proof (induction l arbitrary: d pre)
  case (Cons x l)
  obtain k v where x: "x = (k, v)" by (cases x)
  show ?case
    using Cons string_codec.get_enc [of k pre] string_codec.get_enc [of v "pre @ enc_string k"]
    by (simp add: x pbind_def enc_fields_simps)
qed (simp add: pret_def enc_fields_simps)

lemma read_extended:
  assumes "b \<longleftrightarrow> l \<noteq> []" "u32_ok (int (length l))" "list_all (\<lambda>(k, v). string_ok k \<and> string_ok v) l"
  shows "(if b then pbind get_int (\<lambda>count. unpack_extended (nat count) []) else pret [])
      (reading p (enc_fields (if b then FInt (int (length l)) # concat (map (\<lambda>(k, v). [FString k, FString v]) l) else []) @ post)) =
    (Inr (exchanged l), reading (p @ enc_fields (if b then FInt (int (length l)) # concat (map (\<lambda>(k, v). [FString k, FString v]) l) else [])) post)"
proof (cases b)
  case True
  define X where "X = enc_fields (concat (map (\<lambda>(k, v). [FString k, FString v]) l))"
  note g = int_codec.get_enc [OF assms(2), of p "X @ post"]
    and u = unpack_extended_done [OF assms(3), of "[]" "p @ be_enc 4 (int (length l))" post, folded X_def exchanged_def]
  show ?thesis
    unfolding if_P [OF True] enc_fields_simps enc_field.simps X_def [symmetric] append_assoc pbind_Inr [of get_int, OF g] nat_int u ..
next
  case False
  then show ?thesis using assms(1) by (simp add: exchanged_def pret_def enc_fields_simps)
qed

text \<open>C39: file attributes survive the wire: packed by one side into the middle of any message and unpacked by the
  other, size, owner, permissions and times are the same, present where they were present, and
  exactly the bytes of the attributes are taken. Extended attributes, however, arrive with the keys as
  values and the values as keys.\<close>

theorem attr_roundtrip:
  assumes "attr_ok a"
  shows "attr_unpack (reading pre (enc_fields (snd (attr_pack a)) @ post)) =
    (Inr ((fst (attr_pack a))\<lparr>st_attr := exchanged (st_attr a)\<rparr>), reading (pre @ enc_fields (snd (attr_pack a))) post)"
proof -
  define f where "f = attr_flags_of a"
  note bits = attr_bits [of a, folded f_def]
  define ext where "ext = (if f AND FLAG_EXTENDED \<noteq> 0
      then FInt (int (length (st_attr a))) # concat (map (\<lambda>(k, v). [FString k, FString v]) (st_attr a)) else [])"
  have ok: "pred_option u64_ok (st_size a)" "pred_option u32_ok (st_uid a)" "pred_option u32_ok (st_gid a)" "pred_option u32_ok (st_mode a)"
    "pred_option u32_ok (st_atime a)" "pred_option u32_ok (st_mtime a)" using assms by (simp_all add: attr_ok_def)
  have iff: "(st_uid a = None) = (st_gid a = None)" "(st_atime a = None) = (st_mtime a = None)"
    using assms by (simp_all add: attr_ok_def)
  have both: "(f AND FLAG_UIDGID \<noteq> 0) = (st_uid a \<noteq> None)" "(f AND FLAG_UIDGID \<noteq> 0) = (st_gid a \<noteq> None)"
    "(f AND FLAG_AMTIME \<noteq> 0) = (st_atime a \<noteq> None)" "(f AND FLAG_AMTIME \<noteq> 0) = (st_mtime a \<noteq> None)"
    unfolding bits(2,4) using iff by auto
  have e: "(if f AND FLAG_EXTENDED \<noteq> 0 then pbind get_int (\<lambda>count. unpack_extended (nat count) []) else pret [])
      (reading p (enc_fields ext @ post)) = (Inr (exchanged (st_attr a)), reading (p @ enc_fields ext) post)" for p
    unfolding ext_def using bits(5) assms by (intro read_extended) (auto simp: attr_ok_def)
  have fl: "get_int (reading pre (be_enc 4 f @ q)) = (Inr f, reading (pre @ be_enc 4 f) q)" for q
    using int_codec.get_enc [OF bits(6)] .
  define A1 where "A1 = enc_fields (opt_field FInt64 (f AND FLAG_SIZE \<noteq> 0) (st_size a))"
  define A2 where "A2 = enc_fields (opt_field FInt (f AND FLAG_UIDGID \<noteq> 0) (st_uid a))"
  define A3 where "A3 = enc_fields (opt_field FInt (f AND FLAG_UIDGID \<noteq> 0) (st_gid a))"
  define A4 where "A4 = enc_fields (opt_field FInt (f AND FLAG_PERMISSIONS \<noteq> 0) (st_mode a))"
  define A5 where "A5 = enc_fields (opt_field FInt (f AND FLAG_AMTIME \<noteq> 0) (st_atime a))"
  define A6 where "A6 = enc_fields (opt_field FInt (f AND FLAG_AMTIME \<noteq> 0) (st_mtime a))"
  note fields = fl opt_read_int64 [OF bits(1) ok(1), folded A1_def] opt_read_int [OF both(1) ok(2), folded A2_def]
    opt_read_int [OF both(2) ok(3), folded A3_def] opt_read_int [OF bits(3) ok(4), folded A4_def]
    opt_read_int [OF both(3) ok(5), folded A5_def] opt_read_int [OF both(4) ok(6), folded A6_def] e
  have E: "enc_fields (snd (attr_pack a)) = be_enc 4 f @ A1 @ A2 @ A3 @ A4 @ A5 @ A6 @ enc_fields ext"
    unfolding attr_pack_def Let_def f_def [symmetric] ext_def [symmetric] snd_conv A1_def A2_def A3_def A4_def A5_def A6_def
    by (simp only: enc_fields_append enc_fields_simps enc_field.simps append_assoc)
  have F: "(fst (attr_pack a))\<lparr>st_attr := x\<rparr> = \<lparr>st_flags = f, st_size = st_size a, st_uid = st_uid a, st_gid = st_gid a, st_mode = st_mode a,
      st_atime = st_atime a, st_mtime = st_mtime a, st_attr = x\<rparr>" for x
    by (cases a) (simp add: attr_pack_def Let_def f_def)
  show ?thesis
    unfolding E F attr_unpack_def append_assoc by (simp only: pbind_Inr [of get_int, OF fl] pbind_Inr [where m = "opt_read b r" for b r]
      pbind_Inr [where m = "if b then m else m'" for b m m'] fields append_assoc pret_def)
qed

definition demo_attr :: sftp_attr where
  "demo_attr = SFTPAttributes_init\<lparr>st_size := Some 5000000000, st_mode := Some 420, st_attr := [([1], [2])]\<rparr>"

theorem attr_roundtrip_witness:
  "fst (attr_unpack (Message_init (Some (enc_fields (snd (attr_pack demo_attr)))))) =
     Inr (demo_attr\<lparr>st_flags := 0x80000005, st_attr := [([2], [1])]\<rparr>)"
proof -
  have "attr_ok demo_attr" by (simp add: attr_ok_def demo_attr_def SFTPAttributes_init_def u64_ok_def u32_ok_def string_ok_def)
  from attr_roundtrip [OF this, of "[]" "[]"]
  have "attr_unpack (Message_init (Some (enc_fields (snd (attr_pack demo_attr))))) =
      (Inr ((fst (attr_pack demo_attr))\<lparr>st_attr := exchanged (st_attr demo_attr)\<rparr>), reading (enc_fields (snd (attr_pack demo_attr))) [])"
    by (simp add: reading_def Message_init_def)
  moreover have "(fst (attr_pack demo_attr))\<lparr>st_attr := exchanged (st_attr demo_attr)\<rparr> = demo_attr\<lparr>st_flags := 0x80000005, st_attr := [([2], [1])]\<rparr>"
    by code_simp
  ultimately show ?thesis by simp
qed

end
