(* ===== verification/Spec2Isabelle.thy ===== *)
theory Spec2Isabelle
  imports Py_Util Ssh_Message Buffered_Pipe Packet_Link Channel_Streams Transport_Channels Auth_Safety Kex_Engines
    Buffered_File Ber Sftp
begin

text \<open>
  A verification library for \<^verbatim>\<open>paramiko\<close>, a pure-Python implementation of the SSH protocol, version 2, for
  clients and servers. All sources that are named here are under \<^verbatim>\<open>src/paramiko/\<close>.

  \<^bold>\<open>The program.\<close> A \<^verbatim>\<open>Transport\<close> (\<^verbatim>\<open>transport.py\<close>) owns a socket through a \<^verbatim>\<open>Packetizer\<close> (\<^verbatim>\<open>packet.py\<close>) and runs in
  a thread of its own: it exchanges version strings, negotiates algorithms, has a key exchange engine
  (\<^verbatim>\<open>kex_*.py\<close>) agree on a secret, derives keys from it, gives them to the packetizer, and then dispatches
  the messages that it reads: to itself, to the key exchange engine, to the \<^verbatim>\<open>AuthHandler\<close>
  (\<^verbatim>\<open>auth_handler.py\<close>) and to the channels (\<^verbatim>\<open>channel.py\<close>) in its \<^verbatim>\<open>ChannelMap\<close>. A channel buffers its input in
  \<^verbatim>\<open>BufferedPipe\<close>s (\<^verbatim>\<open>buffered_pipe.py\<close>) and hands its output to the transport; application threads call its
  methods. Messages are built and parsed by \<^verbatim>\<open>Message\<close> (\<^verbatim>\<open>message.py\<close>) with the integers of \<^verbatim>\<open>util.py\<close>.
  File objects over channels are \<^verbatim>\<open>BufferedFile\<close>s (\<^verbatim>\<open>file.py\<close>), and SFTP (\<^verbatim>\<open>sftp*.py\<close>) is a protocol over a
  channel.

  \<^bold>\<open>How the code is modelled.\<close> Objects are records with the attributes of the source; \<open>transport\<close> extends
  \<open>kexing\<close>, which extends \<open>security\<close>. A method is a function \<open>('s, 'a) py\<close> from the state to a result or an
  exception and the new state (\<open>Py_Prelude\<close>), composed with \<open>pbind\<close>; the state is kept when an exception
  is raised, as in Python. A method that may wait for ever is a \<open>bpy\<close>: its result is \<open>Done\<close> of a result or
  \<open>Waiting\<close>. Bytes are \<open>8 word\<close>s, Python integers are \<open>int\<close>, with the wrap-around of sequence numbers
  written out, and strings are their UTF-8 encodings. Methods of channels and pipes run under a lock: each part that
  runs without releasing it is one step, and where the lock is released to wait, the steps of the other
  threads are an argument, so that theorems about all arguments are theorems about all interleavings.
  What the environment does is data: the socket is the list of the results of \<^verbatim>\<open>recv\<close> and \<^verbatim>\<open>send\<close>, random
  bytes are lists of draws, the application is the record \<open>server_iface\<close>. Code outside the
  repository is an argument: the record \<open>crypto\<close> (ciphers, HMAC, AEAD, compression), \<open>lib\<close> (hashes, keys,
  signatures), \<open>ec_lib\<close> (curves), with hypotheses where a theorem relies on them (that decryption inverts
  encryption, that both ends of a curve compute the same point), each with a witness on a concrete instance.

  \<^bold>\<open>The theories.\<close>
  \<^item> \<open>Py_Prelude\<close>: bytes, exceptions, effects, slices, \<^verbatim>\<open>struct\<close>, UTF-8. \<open>Py_Util\<close>: \<^verbatim>\<open>util.py\<close>; the wire
    integers are in bijection with the integers.
  \<^item> \<open>Ssh_Message\<close>: \<^verbatim>\<open>message.py\<close>. The locales \<open>wire_codec\<close> and \<open>wire_writer\<close> are the contract of a reader and a
    writer, interpreted on every pair; whole messages round-trip, readers never leave the buffer.
    \<open>Ssh_Common\<close>: \<^verbatim>\<open>common.py\<close>.
  \<^item> \<open>Buffered_Pipe\<close>: \<^verbatim>\<open>buffered_pipe.py\<close>; it refines a queue of bytes (locale \<open>fifo\<close>).
  \<^item> \<open>Packetizer\<close>, \<open>Packet_Link\<close>: \<^verbatim>\<open>packet.py\<close>. What one end sends the other receives in all packet formats;
    what is delivered was authenticated under the expected number; nonces are distinct; re-keying is requested
    in time and bounded when ignored (locale \<open>reading_invariant\<close>).
  \<^item> \<open>Channel\<close>: \<^verbatim>\<open>Channel\<close> of \<^verbatim>\<open>channel.py\<close>. \<open>Channel_Inv\<close>: the locales by which invariants of its steps
    are proved. \<open>Channel_Flow\<close>, \<open>Channel_Life\<close>, \<open>Channel_Streams\<close>: flow control, order of data, end of file
    and close, the streams, what releases waiters. \<open>Channel_Map\<close>: \<^verbatim>\<open>ChannelMap\<close> and \<^verbatim>\<open>_next_channel\<close>
    (locale \<open>id_table\<close>).
  \<^item> \<open>Transport_Algorithms\<close>, \<open>Transport_Kexinit\<close>, \<open>Transport_Agreement\<close>: lists of algorithms,
    \<^verbatim>\<open>SecurityOptions\<close>, KEXINIT; both ends choose the same or both fail.
  \<^item> \<open>Transport_Keys\<close>: key derivation and the switch to new keys, equal to RFC 4253 and in step at both ends.
  \<^item> \<open>Kex_Group\<close>, \<open>Kex_Ecdh\<close>, \<open>Primes\<close>, \<open>Kex_Gex\<close>: the key exchanges with \<^verbatim>\<open>primes.py\<close>; honest exchanges agree, values
    out of range are refused. \<open>Kex_Engines\<close>: they keep the contract that the theorems on sessions assume.
  \<^item> \<open>Transport_State\<close>, \<open>Auth_Handler\<close>, \<open>Transport\<close>, \<open>Transport_Start\<close>: the state of a session, authentication, the handlers
    of messages and the whole of \<^verbatim>\<open>run\<close>, from the version strings to the end of its loop.
  \<^item> \<open>Transport_Frame\<close>, \<open>Auth_Frame\<close>: what operations leave alone, and the locale \<open>auth_invariant\<close>: what a
    predicate has to survive to be kept by all handlers.
  \<^item> \<open>Transport_Safety\<close>, \<open>Auth_Safety\<close>, \<open>Transport_Channels\<close>, \<open>Transport_Strict\<close>: over every sequence of
    messages, the session identifier is fixed, nobody is served before authentication, nobody is
    authenticated whom the application did not accept, channels keep their numbers and are closed at the end, and
    strict key exchange accepts nothing else (\<open>turns\<close>, an inductive relation).
  \<^item> \<open>Buffered_File\<close>: \<^verbatim>\<open>file.py\<close>; reading gives the stream, its lines and translated newlines, writing
    delivers in order. \<open>Ber\<close>: \<^verbatim>\<open>ber.py\<close>, round trip. \<open>Sftp\<close>: what \<^verbatim>\<open>sftp.py\<close> and \<^verbatim>\<open>sftp_attr.py\<close> put on
    the wire.

  \<^bold>\<open>Loops and bounds.\<close> Loops over data are recursive functions with a termination proof. Loops over the
  environment consume its list of results: a socket that has no further result is one on which the code
  waits, and theorems that code returns say how many results suffice (for instance one positive
  result of \<^verbatim>\<open>send\<close> per byte). The searches that depend on luck, \<^verbatim>\<open>_generate_x\<close> and \<^verbatim>\<open>_roll_random\<close>, consume
  the list of draws. \<^verbatim>\<open>_next_channel\<close> and the loops of the key derivations are partial functions, shown to end
  (\<^verbatim>\<open>_next_channel\<close> whenever a number is free). The loop of \<^verbatim>\<open>run\<close> takes the list of what surrounds each turn; invariants hold for every such list.

  \<^bold>\<open>Defects.\<close> Some theorems and lemmas describe behaviour that the authors cannot have meant, e.g. interactive
  responses that nobody asked for (\<open>Auth_Safety\<close>), a negative modulus (\<open>Kex_Gex\<close>), a close
  during a key exchange (\<open>Transport_Channels\<close>), extended attributes with key and value exchanged
  (\<open>Sftp\<close>), a flush that fails and is repeated (\<open>Buffered_File\<close>).

  \<^bold>\<open>Not modelled.\<close> GSS-API (\<^verbatim>\<open>ssh_gss.py\<close>, \<^verbatim>\<open>kex_gss.py\<close>, its authentication methods), which drives foreign
  libraries; \<^verbatim>\<open>ServiceRequestingTransport\<close> and \<^verbatim>\<open>AuthOnlyHandler\<close> but for its choice of an algorithm;
  methods of \<^verbatim>\<open>Transport\<close> that applications call to start it, open channels or ask for forwarding;
  \<^verbatim>\<open>SSHClient\<close>, \<^verbatim>\<open>auth_strategy.py\<close>, configuration, host keys, agents and key files, which are files
  and sockets of the user; the client, file and server objects of SFTP above the packets and attributes; logging;
  operating system wrappers (\<^verbatim>\<open>pipe.py\<close>, \<^verbatim>\<open>proxy.py\<close>, Windows).
\<close>

end
